(* ===== verification/Prelude.thy ===== *)
theory Prelude
  imports Main "HOL-Library.Word" "HOL-Library.List_Lexorder" "HOL-Library.Product_Lexorder"
begin

text \<open>
  Shared vocabulary of the development.  Machine bytes and unsigned integers are words of
  their width; lengths and counts (\<open>usize\<close>, 64 bits on the admitted platform) are naturals
  with the width written out where an operation can overflow; signed integers are integers
  with their range as a predicate.  A fallible operation returns \<open>'e + 'a\<close>, with \<open>Inl\<close> for
  the \<open>Err\<close> branch; \<open>rbind\<close> is the question-mark operator.
\<close>

unbundle bit_operations_syntax

type_synonym u8 = "8 word"
type_synonym u128 = "128 word"
type_synonym bytes = "u8 list"

named_theorems rbind_iffs \<open>inversion of a successful bind\<close>
named_theorems codec_E \<open>decoding what an encoder wrote\<close>
named_theorems codec_D \<open>what a successful decode read\<close>

subsection \<open>The question-mark operator\<close>

definition rbind :: "'e + 'a \<Rightarrow> ('a \<Rightarrow> 'e + 'b) \<Rightarrow> 'e + 'b" where
  "rbind r f = (case r of Inl e \<Rightarrow> Inl e | Inr x \<Rightarrow> f x)"

definition ensure :: "bool \<Rightarrow> 'e \<Rightarrow> 'e + unit" where
  "ensure b e = (if b then Inr () else Inl e)"

definition ok_or :: "'a option \<Rightarrow> 'e \<Rightarrow> 'e + 'a" where
  "ok_or r e = (case r of None \<Rightarrow> Inl e | Some x \<Rightarrow> Inr x)"

lemma rbind_Inl [simp]: "rbind (Inl e) f = Inl e"
  by (simp add: rbind_def)

lemma rbind_Inr [simp]: "rbind (Inr x) f = f x"
  by (simp add: rbind_def)

lemma rbind_cong [fundef_cong]:
  "r = r' \<Longrightarrow> (\<And>x. r' = Inr x \<Longrightarrow> f x = g x) \<Longrightarrow> rbind r f = rbind r' g"
  by (cases r') (auto simp: rbind_def)

lemma rbind_eq_Inr [rbind_iffs]: "rbind r f = Inr y \<longleftrightarrow> (\<exists>x. r = Inr x \<and> f x = Inr y)"
  by (cases r) (auto simp: rbind_def)

lemma rbind_eq_Inl:
  "rbind r f = Inl e \<longleftrightarrow> r = Inl e \<or> (\<exists>x. r = Inr x \<and> f x = Inl e)"
  by (cases r) (auto simp: rbind_def)

lemma rbind_assoc: "rbind (rbind r f) g = rbind r (\<lambda>x. rbind (f x) g)"
  by (cases r) (auto simp: rbind_def)

lemma ensure_eq_Inr [simp]: "ensure b e = Inr u \<longleftrightarrow> b"
  by (simp add: ensure_def)

lemma ensure_eq_Inl [simp]: "ensure b e = Inl e' \<longleftrightarrow> \<not> b \<and> e' = e"
  by (auto simp: ensure_def)

lemma ensure_True [simp]: "ensure True e = Inr ()"
  by (simp add: ensure_def)

lemma ensure_False [simp]: "ensure False e = Inl e"
  by (simp add: ensure_def)

lemma ok_or_eq_Inr [simp]: "ok_or r e = Inr x \<longleftrightarrow> r = Some x"
  by (cases r) (auto simp: ok_or_def)

lemma ok_or_eq_Inl [simp]: "ok_or r e = Inl e' \<longleftrightarrow> r = None \<and> e' = e"
  by (cases r) (auto simp: ok_or_def)

lemma ok_or_Some [simp]: "ok_or (Some x) e = Inr x"
  by (simp add: ok_or_def)

lemma ok_or_None [simp]: "ok_or None e = Inl e"
  by (simp add: ok_or_def)

subsection \<open>Fallible loops\<close>

text \<open>
  \<open>rfold f xs s\<close> is \<open>for x in xs { s = f(x, s)?; }\<close>; \<open>rrepeat n f s\<close> is a counted loop that
  collects \<open>n\<close> results, \<open>for _ in 0..n { out.push(f(&mut s)?); }\<close>.
\<close>

fun rfold :: "('a \<Rightarrow> 's \<Rightarrow> 'e + 's) \<Rightarrow> 'a list \<Rightarrow> 's \<Rightarrow> 'e + 's" where
  "rfold f [] s = Inr s"
| "rfold f (x # xs) s = rbind (f x s) (rfold f xs)"

fun rrepeat :: "nat \<Rightarrow> ('s \<Rightarrow> 'e + 'a \<times> 's) \<Rightarrow> 's \<Rightarrow> 'e + 'a list \<times> 's" where
  "rrepeat 0 f s = Inr ([], s)"
| "rrepeat (Suc n) f s =
     rbind (f s) (\<lambda>(x, s). rbind (rrepeat n f s) (\<lambda>(xs, s). Inr (x # xs, s)))"

lemma rfold_cong [fundef_cong]:
  assumes "xs = ys" "s = t" and "\<And>x u. x \<in> set ys \<Longrightarrow> f x u = g x u"
  shows "rfold f xs s = rfold g ys t"
  using assms(3) unfolding assms(1,2)
proof (induction ys arbitrary: t)
  case (Cons y ys)
  then have "rfold f ys = rfold g ys" by auto
  with Cons.prems show ?case by simp
qed simp

lemma rrepeat_cong [fundef_cong]:
  assumes "n = m" "s = t" and "\<And>u. f u = g u"
  shows "rrepeat n f s = rrepeat m g t"
proof -
  have "f = g" using assms(3) by auto
  with assms(1,2) show ?thesis by simp
qed

lemma rfold_append: "rfold f (xs @ ys) s = rbind (rfold f xs s) (rfold f ys)"
  by (induction xs arbitrary: s) (auto simp: rbind_assoc intro!: rbind_cong)

text \<open>A loop that adds the weight of each item to a counter, under a bound.\<close>

lemma rfold_counter:
  fixes c :: "'a \<Rightarrow> nat"
  assumes "\<And>x n n'. x \<in> set xs \<Longrightarrow> n \<le> M \<Longrightarrow>
    f x n = Inr n' \<longleftrightarrow> n' = n + c x \<and> n' \<le> M \<and> Q x"
  shows "n \<le> M \<Longrightarrow>
    rfold f xs n = Inr n' \<longleftrightarrow> n' = n + sum_list (map c xs) \<and> n' \<le> M \<and> (\<forall>x \<in> set xs. Q x)"
  using assms
proof (induction xs arbitrary: n)
  case (Cons x xs)
  have IH: "m \<le> M \<Longrightarrow> rfold f xs m = Inr n' \<longleftrightarrow>
      n' = m + sum_list (map c xs) \<and> n' \<le> M \<and> (\<forall>x \<in> set xs. Q x)" for m
    using Cons.IH Cons.prems(2) by simp
  have "rfold f (x # xs) n = Inr n' \<longleftrightarrow> (\<exists>m. f x n = Inr m \<and> rfold f xs m = Inr n')"
    by (simp add: rbind_iffs)
  also have "\<dots> \<longleftrightarrow> (\<exists>m. m = n + c x \<and> m \<le> M \<and> Q x \<and> rfold f xs m = Inr n')"
    using Cons.prems by auto
  also have "\<dots> \<longleftrightarrow> n' = n + sum_list (map c (x # xs)) \<and> n' \<le> M \<and> (\<forall>x \<in> set (x # xs). Q x)"
    using IH by auto
  finally show ?case .
qed auto

lemma fold_max_le: "fold max ns m \<le> k \<longleftrightarrow> m \<le> k \<and> (\<forall>n \<in> set ns. n \<le> k)" for k :: nat
  by (induction ns arbitrary: m) auto

lemma fold_max_budget:
  "p + fold max ns 0 \<le> k \<longleftrightarrow> p \<le> k \<and> (\<forall>n \<in> set ns. n = 0 \<or> p + n \<le> k)" for k :: nat
proof (cases "p \<le> k")
  case True
  then have "p + fold max ns 0 \<le> k \<longleftrightarrow> fold max ns 0 \<le> k - p" by arith
  also have "\<dots> \<longleftrightarrow> (\<forall>n \<in> set ns. n \<le> k - p)" by (simp add: fold_max_le)
  finally show ?thesis using True by (auto simp: le_diff_conv2 add.commute)
qed auto

lemma rrepeat_length: "rrepeat n f s = Inr (xs, t) \<Longrightarrow> length xs = n"
  by (induction n arbitrary: s xs) (auto simp: rbind_iffs split: prod.splits)

subsection \<open>Checked and saturating arithmetic of \<open>usize\<close> and \<open>u64\<close>\<close>

definition usize_max :: nat where
  "usize_max = 2 ^ 64 - 1"

definition checked_add :: "nat \<Rightarrow> nat \<Rightarrow> nat option" where
  "checked_add a b = (if a + b \<le> usize_max then Some (a + b) else None)"

definition checked_mul :: "nat \<Rightarrow> nat \<Rightarrow> nat option" where
  "checked_mul a b = (if a * b \<le> usize_max then Some (a * b) else None)"

definition saturating_add :: "nat \<Rightarrow> nat \<Rightarrow> nat" where
  "saturating_add a b = min (a + b) usize_max"

lemma checked_add_eq_Some [simp]:
  "checked_add a b = Some c \<longleftrightarrow> c = a + b \<and> a + b \<le> usize_max"
  by (auto simp: checked_add_def)

lemma checked_add_eq_None [simp]: "checked_add a b = None \<longleftrightarrow> usize_max < a + b"
  by (auto simp: checked_add_def)

lemma checked_mul_eq_Some [simp]:
  "checked_mul a b = Some c \<longleftrightarrow> c = a * b \<and> a * b \<le> usize_max"
  by (auto simp: checked_mul_def)

lemma saturating_add_le: "saturating_add a b \<le> usize_max"
  by (simp add: saturating_add_def)

lemma saturating_add_exact: "a + b \<le> usize_max \<Longrightarrow> saturating_add a b = a + b"
  by (simp add: saturating_add_def)

subsection \<open>Big-endian integers\<close>

fun be_bytes :: "nat \<Rightarrow> nat \<Rightarrow> bytes" where
  "be_bytes 0 v = []"
| "be_bytes (Suc n) v = be_bytes n (v div 256) @ [word_of_nat (v mod 256)]"

lemma length_be_bytes [simp]: "length (be_bytes n v) = n"
  by (induction n arbitrary: v) auto

lemma be_bytes_inject:
  "v < 256 ^ n \<Longrightarrow> w < 256 ^ n \<Longrightarrow> be_bytes n v = be_bytes n w \<longleftrightarrow> v = w"
proof (induction n arbitrary: v w)
  case 0
  then show ?case by simp
next
  case (Suc n)
  have "(word_of_nat (v mod 256) :: u8) = word_of_nat (w mod 256) \<longleftrightarrow> v mod 256 = w mod 256"
    by (auto simp: word_of_nat_eq_iff take_bit_eq_mod)
  moreover have "be_bytes n (v div 256) = be_bytes n (w div 256) \<longleftrightarrow> v div 256 = w div 256"
    using Suc.prems by (intro Suc.IH) (simp_all add: less_mult_imp_div_less mult.commute)
  ultimately show ?case
    by (metis be_bytes.simps(2) append1_eq_conv div_mult_mod_eq)
qed

subsection \<open>Words and their bits\<close>

lemma unat_less_power_iff: "unat w < 2 ^ n \<longleftrightarrow> take_bit n w = w" for w :: "'a::len word"
  by (metis take_bit_nat_eq_self_iff unsigned_take_bit_eq word_eq_iff_unsigned)

lemma unat_less_power_bits:
  "unat w < 2 ^ n \<longleftrightarrow> (\<forall>m. bit w m \<longrightarrow> m < n)" for w :: "'a::len word"
  unfolding unat_less_power_iff
  by (auto simp: bit_eq_iff bit_take_bit_iff dest: bit_imp_le_length)

lemma word_interval:
  fixes c :: "'a::len word"
  assumes "a \<le> c" "c \<le> b"
  shows "c \<in> set (map word_of_nat [unat a..<Suc (unat b)])"
proof -
  have "unat c \<in> set [unat a..<Suc (unat b)]"
    using assms by (auto simp: word_le_nat_alt)
  then have "word_of_nat (unat c) \<in> set (map word_of_nat [unat a..<Suc (unat b)] :: 'a word list)"
    by (simp only: list.set_map imageI)
  then show ?thesis by (simp only: of_nat_unat ucast_id)
qed

subsection \<open>Prefixes of byte strings\<close>

lemma append_eq_append_same_length:
  "length a = length b \<Longrightarrow> a @ c = b @ d \<longleftrightarrow> a = b \<and> c = d"
  by (rule append_eq_append_conv) simp

end
