(* ===== verification/Identity.thy ===== *)
theory Identity
  imports Prelude
begin

text \<open>
  The typed identities, scoped references, committed revisions and normalized instants of
  \<open>uste-types\<close> (\<open>id.rs\<close>, \<open>revision.rs\<close>, \<open>instant.rs\<close>).  A \<open>[u8; 16]\<close> is a byte list whose
  length is stated where it matters; \<open>str\<close> values are their UTF-8 bytes.  The derived Rust
  orders on references are the lexicographic orders of their fields.
\<close>

subsection \<open>Identity text\<close>

type_synonym identity = bytes

definition identity_ok :: "identity \<Rightarrow> bool" where
  "identity_ok bs \<longleftrightarrow> length bs = 16"

definition DATABASE_PREFIX :: bytes where "DATABASE_PREFIX = [0x64, 0x62, 0x5f]"
definition NAMESPACE_PREFIX :: bytes where "NAMESPACE_PREFIX = [0x6e, 0x73, 0x5f]"
definition RECORD_PREFIX :: bytes where "RECORD_PREFIX = [0x72, 0x65, 0x63, 0x5f]"
definition TRANSACTION_PREFIX :: bytes where "TRANSACTION_PREFIX = [0x74, 0x78, 0x6e, 0x5f]"
definition SOURCE_EVENT_PREFIX :: bytes where "SOURCE_EVENT_PREFIX = [0x73, 0x72, 0x63, 0x5f]"
definition IDEMPOTENCY_PREFIX :: bytes where
  "IDEMPOTENCY_PREFIX = [0x69, 0x64, 0x65, 0x6d, 0x5f]"

definition DATABASE_TAG :: u8 where "DATABASE_TAG = 0x01"
definition NAMESPACE_TAG :: u8 where "NAMESPACE_TAG = 0x02"
definition RECORD_TAG :: u8 where "RECORD_TAG = 0x03"
definition TRANSACTION_TAG :: u8 where "TRANSACTION_TAG = 0x04"
definition SOURCE_EVENT_TAG :: u8 where "SOURCE_EVENT_TAG = 0x05"
definition IDEMPOTENCY_TAG :: u8 where "IDEMPOTENCY_TAG = 0x06"

text \<open>The two digits \<open>format!("{byte:02x}")\<close> writes.\<close>

definition hex_digit :: "u8 \<Rightarrow> u8" where
  "hex_digit n = (if n < 10 then n + 0x30 else n + 0x57)"

definition hex_byte :: "u8 \<Rightarrow> bytes" where
  "hex_byte b = [hex_digit (drop_bit 4 b), hex_digit (b AND 0x0f)]"

definition display_identity :: "bytes \<Rightarrow> identity \<Rightarrow> bytes" where
  "display_identity pre bs = pre @ concat (map hex_byte bs)"

definition lowercase_hex :: "u8 \<Rightarrow> u8 option" where
  "lowercase_hex b =
     (if 0x30 \<le> b \<and> b \<le> 0x39 then Some (b - 0x30)
      else if 0x61 \<le> b \<and> b \<le> 0x66 then Some (b - 0x61 + 10)
      else None)"

definition strip_prefix :: "bytes \<Rightarrow> bytes \<Rightarrow> bytes option" where
  "strip_prefix pre s =
     (if take (length pre) s = pre then Some (drop (length pre) s) else None)"

fun parse_pairs :: "bytes \<Rightarrow> bytes option" where
  "parse_pairs (h # l # rest) =
     (case lowercase_hex h of None \<Rightarrow> None | Some high \<Rightarrow>
      (case lowercase_hex l of None \<Rightarrow> None | Some low \<Rightarrow>
       (case parse_pairs rest of None \<Rightarrow> None | Some bs \<Rightarrow>
         Some ((push_bit 4 high OR low) # bs))))"
| "parse_pairs _ = Some []"

definition parse_identity :: "bytes \<Rightarrow> bytes \<Rightarrow> identity option" where
  "parse_identity value pre =
     (case strip_prefix pre value of None \<Rightarrow> None
      | Some encoded \<Rightarrow> if length encoded = 32 then parse_pairs encoded else None)"

lemma mask4: "(0x0f::u8) = mask 4"
  by (simp add: mask_eq_decr_exp)

lemma nibble_bits: "h < 16 \<longleftrightarrow> (\<forall>m. bit h m \<longrightarrow> m < 4)" for h :: u8
  using unat_less_power_bits [of h 4] by (simp add: word_less_nat_alt)

lemma nibbles_join: "push_bit 4 (drop_bit 4 b) OR (b AND 0x0f) = b" for b :: u8
  unfolding mask4 by (rule bit_eqI) (auto simp: bit_simps)

lemma high_nibble_less: "drop_bit 4 b < 16" for b :: u8
  unfolding nibble_bits by (auto simp: bit_simps dest: bit_imp_le_length)

lemma low_nibble_less: "b AND 0x0f < 16" for b :: u8
  unfolding nibble_bits mask4 by (auto simp: bit_simps)

lemma high_nibble_join: "h < 16 \<Longrightarrow> l < 16 \<Longrightarrow> drop_bit 4 (push_bit 4 h) OR drop_bit 4 l = h" for h :: u8
  unfolding nibble_bits by (rule bit_eqI) (auto simp: bit_simps)

lemma low_nibble_join: "h < 16 \<Longrightarrow> l < 16 \<Longrightarrow> (push_bit 4 h OR l) AND 0x0f = l" for h :: u8
  unfolding nibble_bits mask4 by (rule bit_eqI) (auto simp: bit_simps)

lemma lowercase_hex_digit:
  assumes "n < 16"
  shows "lowercase_hex (hex_digit n) = Some n"
proof -
  have "n \<le> 15" using assms by (simp add: word_le_nat_alt word_less_nat_alt)
  with word_interval [of 0 n 15] show ?thesis
    by (auto simp: upt_rec lowercase_hex_def hex_digit_def)
qed

lemma lowercase_hex_SomeD:
  assumes "lowercase_hex c = Some n"
  shows "n < 16 \<and> hex_digit n = c"
proof (cases "0x30 \<le> c \<and> c \<le> 0x39")
  case True
  with word_interval [of "0x30" c "0x39"] assms show ?thesis
    by (auto simp: upt_rec lowercase_hex_def hex_digit_def)
next
  case False
  with assms have "0x61 \<le> c \<and> c \<le> 0x66"
    by (auto simp: lowercase_hex_def split: if_splits)
  with word_interval [of "0x61" c "0x66"] assms show ?thesis
    by (auto simp: upt_rec lowercase_hex_def hex_digit_def)
qed

lemma length_hex_bytes [simp]: "length (concat (map hex_byte bs)) = 2 * length bs"
  by (induction bs) (auto simp: hex_byte_def)

lemma parse_pairs_hex: "parse_pairs (concat (map hex_byte bs)) = Some bs"
  by (induction bs)
    (auto simp: hex_byte_def lowercase_hex_digit high_nibble_less low_nibble_less nibbles_join)

lemma parse_pairs_SomeD:
  "parse_pairs s = Some bs \<Longrightarrow> even (length s) \<Longrightarrow> s = concat (map hex_byte bs)"
proof (induction s arbitrary: bs rule: parse_pairs.induct)
  case (1 h l rest)
  then show ?case
    by (auto simp: hex_byte_def high_nibble_join low_nibble_join
        dest!: lowercase_hex_SomeD split: option.splits)
qed auto

subsection \<open>Scoped references\<close>

datatype namespace_ref =
  NamespaceRef (ns_database: identity) (ns_namespace: identity)

datatype record_ref = RecordRef (rr_scope: namespace_ref) (rr_record: identity)

datatype transaction_ref = TransactionRef (tr_scope: namespace_ref) (tr_transaction: identity)

datatype source_event_ref =
  SourceEventRef (se_scope: namespace_ref) (se_source_event: identity)

definition record_ref_new :: "identity \<Rightarrow> identity \<Rightarrow> identity \<Rightarrow> record_ref" where
  "record_ref_new d n r = RecordRef (NamespaceRef d n) r"

definition rr_database :: "record_ref \<Rightarrow> identity" where
  "rr_database r = ns_database (rr_scope r)"

definition rr_namespace :: "record_ref \<Rightarrow> identity" where
  "rr_namespace r = ns_namespace (rr_scope r)"

definition namespace_ref_ok :: "namespace_ref \<Rightarrow> bool" where
  "namespace_ref_ok s \<longleftrightarrow> identity_ok (ns_database s) \<and> identity_ok (ns_namespace s)"

definition record_ref_ok :: "record_ref \<Rightarrow> bool" where
  "record_ref_ok r \<longleftrightarrow> namespace_ref_ok (rr_scope r) \<and> identity_ok (rr_record r)"

instantiation namespace_ref :: linorder
begin

definition less_eq_namespace_ref :: "namespace_ref \<Rightarrow> namespace_ref \<Rightarrow> bool" where
  "less_eq_namespace_ref a b \<longleftrightarrow>
     (ns_database a, ns_namespace a) \<le> (ns_database b, ns_namespace b)"

definition less_namespace_ref :: "namespace_ref \<Rightarrow> namespace_ref \<Rightarrow> bool" where
  "less_namespace_ref a b \<longleftrightarrow>
     (ns_database a, ns_namespace a) < (ns_database b, ns_namespace b)"

instance
  by standard
    (auto simp: less_eq_namespace_ref_def less_namespace_ref_def intro: namespace_ref.expand)

end

instantiation record_ref :: linorder
begin

definition less_eq_record_ref :: "record_ref \<Rightarrow> record_ref \<Rightarrow> bool" where
  "less_eq_record_ref a b \<longleftrightarrow> (rr_scope a, rr_record a) \<le> (rr_scope b, rr_record b)"

definition less_record_ref :: "record_ref \<Rightarrow> record_ref \<Rightarrow> bool" where
  "less_record_ref a b \<longleftrightarrow> (rr_scope a, rr_record a) < (rr_scope b, rr_record b)"

instance
  by standard
    (auto simp: less_eq_record_ref_def less_record_ref_def intro: record_ref.expand)

end

subsection \<open>Committed revisions\<close>

datatype commit_revision_error = RevisionZero | RevisionExhausted

text \<open>A \<open>NonZeroU64\<close>: a natural in the range \<open>1 .. u64::MAX\<close>.\<close>

datatype commit_revision = CommitRevision (revision_get: nat)

definition revision_ok :: "commit_revision \<Rightarrow> bool" where
  "revision_ok r \<longleftrightarrow> 0 < revision_get r \<and> revision_get r \<le> usize_max"

definition REVISION_FIRST :: commit_revision where
  "REVISION_FIRST = CommitRevision 1"

definition revision_new :: "nat \<Rightarrow> commit_revision_error + commit_revision" where
  "revision_new v = (if v = 0 then Inl RevisionZero else Inr (CommitRevision v))"

definition revision_checked_next :: "commit_revision \<Rightarrow> commit_revision_error + commit_revision" where
  "revision_checked_next r =
     (case checked_add (revision_get r) 1 of
        Some v \<Rightarrow> revision_new v
      | None \<Rightarrow> Inl RevisionExhausted)"

lemma revision_checked_next_Inr:
  "revision_checked_next r = Inr r' \<longleftrightarrow>
     revision_get r' = Suc (revision_get r) \<and> revision_get r < usize_max"
  by (cases r') (auto simp: revision_checked_next_def revision_new_def split: option.splits)

subsection \<open>Normalized instants\<close>

definition MIN_EPOCH_SECONDS :: int where "MIN_EPOCH_SECONDS = - 62135596800"
definition MAX_EPOCH_SECONDS :: int where "MAX_EPOCH_SECONDS = 253402300799"

datatype utc_instant = UtcInstant (instant_seconds: int) (instant_nanoseconds: nat)

definition instant_new :: "int \<Rightarrow> nat \<Rightarrow> utc_instant option" where
  "instant_new s n =
     (if s < MIN_EPOCH_SECONDS \<or> s > MAX_EPOCH_SECONDS \<or> n > 999999999 then None
      else Some (UtcInstant s n))"

definition instant_ok :: "utc_instant \<Rightarrow> bool" where
  "instant_ok i \<longleftrightarrow>
     MIN_EPOCH_SECONDS \<le> instant_seconds i \<and> instant_seconds i \<le> MAX_EPOCH_SECONDS
       \<and> instant_nanoseconds i \<le> 999999999"

lemma instant_new_eq_Some:
  "instant_new s n = Some i \<longleftrightarrow> i = UtcInstant s n \<and> instant_ok i"
  by (auto simp: instant_new_def instant_ok_def)

subsection \<open>Properties\<close>

text \<open>
  C8.  Identity text is parsed strictly: the parser accepts exactly the text the display
  implementation writes for sixteen bytes under the same prefix, and returns those bytes.
\<close>

theorem parse_identity_iff:
  "parse_identity s pre = Some bs \<longleftrightarrow> identity_ok bs \<and> s = display_identity pre bs"
proof
  assume "parse_identity s pre = Some bs"
  then have s: "take (length pre) s = pre" "length (drop (length pre) s) = 32"
      "parse_pairs (drop (length pre) s) = Some bs"
    by (auto simp: parse_identity_def strip_prefix_def split: option.splits if_splits)
  then have "drop (length pre) s = concat (map hex_byte bs)"
    using parse_pairs_SomeD by simp
  with s show "identity_ok bs \<and> s = display_identity pre bs"
    by (metis append_take_drop_id display_identity_def identity_ok_def length_hex_bytes
        mult_left_cancel numeral_eq_iff num.distinct(1) numeral_Bit0_eq_double zero_neq_numeral)
next
  assume "identity_ok bs \<and> s = display_identity pre bs"
  then show "parse_identity s pre = Some bs"
    by (simp add: parse_identity_def strip_prefix_def display_identity_def identity_ok_def
        parse_pairs_hex)
qed

end
