(* ===== verification/Values.thy ===== *)
theory Values
  imports Identity
begin

text \<open>
  The validated generic values of \<open>uste-types/src/value.rs\<close>.  The wrappers \<open>BoundedBytes\<close>,
  \<open>BoundedString\<close>, \<open>BoundedList\<close> and \<open>CanonicalMap\<close> have private fields, so a Rust \<open>Value\<close> is
  always the result of a checking constructor; \<open>constructed\<close> is the set of values those
  constructors can build, and \<open>value_ok\<close> the executable predicate they enforce.  A \<open>String\<close> is
  the byte list of its UTF-8 encoding.
\<close>

definition MAX_INLINE_BYTES :: nat where "MAX_INLINE_BYTES = 1048576"
definition MAX_COLLECTION_ENTRIES :: nat where "MAX_COLLECTION_ENTRIES = 65536"
definition MAX_NESTING_DEPTH :: nat where "MAX_NESTING_DEPTH = 32"
definition MAX_VALUE_NODES :: nat where "MAX_VALUE_NODES = 262144"

lemmas value_limits =
  MAX_INLINE_BYTES_def MAX_COLLECTION_ENTRIES_def MAX_NESTING_DEPTH_def MAX_VALUE_NODES_def
  usize_max_def

datatype validation_error =
    InlineValueTooLarge nat nat
  | CollectionTooLarge nat nat
  | NestingTooDeep nat nat
  | TooManyValueNodes nat nat
  | DuplicateMapKey
  | InvalidInstant

datatype val =
    VNull
  | VBool bool
  | VUnsigned u128
  | VSigned int
  | VBytes bytes
  | VString bytes
  | VList "val list"
  | VMap "(bytes \<times> val) list"
  | VInstant utc_instant
  | VRecordRef record_ref

lemma size_map_entry [termination_simp]:
  "(k, v) \<in> set es \<Longrightarrow> size v < Suc (size_list (size_prod (\<lambda>_. 0) size) es)"
  by (induction es) auto

subsection \<open>UTF-8\<close>

text \<open>The acceptance table of \<open>core::str::from_utf8\<close>.\<close>

definition utf8_cont :: "u8 \<Rightarrow> bool" where
  "utf8_cont b \<longleftrightarrow> 0x80 \<le> b \<and> b \<le> 0xBF"

definition utf8_second3 :: "u8 \<Rightarrow> u8 \<Rightarrow> bool" where
  "utf8_second3 a b \<longleftrightarrow>
     (if a = 0xE0 then 0xA0 \<le> b \<and> b \<le> 0xBF
      else if a = 0xED then 0x80 \<le> b \<and> b \<le> 0x9F
      else utf8_cont b)"

definition utf8_second4 :: "u8 \<Rightarrow> u8 \<Rightarrow> bool" where
  "utf8_second4 a b \<longleftrightarrow>
     (if a = 0xF0 then 0x90 \<le> b \<and> b \<le> 0xBF
      else if a = 0xF4 then 0x80 \<le> b \<and> b \<le> 0x8F
      else utf8_cont b)"

function utf8_valid :: "bytes \<Rightarrow> bool" where
  "utf8_valid bs =
     (case bs of
        [] \<Rightarrow> True
      | a # r1 \<Rightarrow>
          if a < 0x80 then utf8_valid r1
          else if 0xC2 \<le> a \<and> a \<le> 0xDF then
            (case r1 of b # r2 \<Rightarrow> utf8_cont b \<and> utf8_valid r2 | [] \<Rightarrow> False)
          else if 0xE0 \<le> a \<and> a \<le> 0xEF then
            (case r1 of b # c # r3 \<Rightarrow> utf8_second3 a b \<and> utf8_cont c \<and> utf8_valid r3 | _ \<Rightarrow> False)
          else if 0xF0 \<le> a \<and> a \<le> 0xF4 then
            (case r1 of b # c # d # r4 \<Rightarrow>
               utf8_second4 a b \<and> utf8_cont c \<and> utf8_cont d \<and> utf8_valid r4 | _ \<Rightarrow> False)
          else False)"
  by pat_completeness auto
termination by (relation "measure length") auto

declare utf8_valid.simps [simp del]

subsection \<open>Checking constructors\<close>

definition check_inline_length :: "nat \<Rightarrow> validation_error + unit" where
  "check_inline_length n =
     ensure (n \<le> MAX_INLINE_BYTES) (InlineValueTooLarge n MAX_INLINE_BYTES)"

definition check_collection_length :: "nat \<Rightarrow> validation_error + unit" where
  "check_collection_length n =
     ensure (n \<le> MAX_COLLECTION_ENTRIES) (CollectionTooLarge n MAX_COLLECTION_ENTRIES)"

text \<open>\<open>Value::validate_limits\<close> on a parent depth and the running node count.\<close>

fun validate_limits :: "val \<Rightarrow> nat \<Rightarrow> nat \<Rightarrow> validation_error + nat" where
  "validate_limits v parent_depth nodes =
     (let nodes = saturating_add nodes 1 in
      rbind (ensure (nodes \<le> MAX_VALUE_NODES) (TooManyValueNodes nodes MAX_VALUE_NODES)) (\<lambda>_.
      let depth = saturating_add parent_depth 1;
          deep = NestingTooDeep depth MAX_NESTING_DEPTH in
      case v of
        VList vs \<Rightarrow>
          rbind (ensure (depth \<le> MAX_NESTING_DEPTH) deep) (\<lambda>_.
          rfold (\<lambda>child nodes. validate_limits child depth nodes) vs nodes)
      | VMap es \<Rightarrow>
          rbind (ensure (depth \<le> MAX_NESTING_DEPTH) deep) (\<lambda>_.
          rfold (\<lambda>entry nodes. validate_limits (snd entry) depth nodes) es nodes)
      | _ \<Rightarrow> Inr nodes))"

declare validate_limits.simps [simp del]

definition bytes_new :: "bytes \<Rightarrow> validation_error + val" where
  "bytes_new bs = rbind (check_inline_length (length bs)) (\<lambda>_. Inr (VBytes bs))"

definition string_new :: "bytes \<Rightarrow> validation_error + val" where
  "string_new s = rbind (check_inline_length (length s)) (\<lambda>_. Inr (VString s))"

definition list_new :: "val list \<Rightarrow> validation_error + val" where
  "list_new vs =
     rbind (check_collection_length (length vs)) (\<lambda>_.
     rbind (rfold (\<lambda>v nodes. validate_limits v 1 nodes) vs 1) (\<lambda>_.
     Inr (VList vs)))"

fun adjacent_equal :: "(bytes \<times> val) list \<Rightarrow> bool" where
  "adjacent_equal (a # b # es) \<longleftrightarrow> fst a = fst b \<or> adjacent_equal (b # es)"
| "adjacent_equal _ \<longleftrightarrow> False"

text \<open>\<open>CanonicalMap::new\<close>: a stable sort by key bytes, then the duplicate check.\<close>

definition map_new :: "(bytes \<times> val) list \<Rightarrow> validation_error + val" where
  "map_new entries =
     rbind (check_collection_length (length entries)) (\<lambda>_.
     let entries = sort_key fst entries in
     rbind (ensure (\<not> adjacent_equal entries) DuplicateMapKey) (\<lambda>_.
     rbind (rfold (\<lambda>e nodes. validate_limits (snd e) 1 nodes) entries 1) (\<lambda>_.
     Inr (VMap entries))))"

subsection \<open>The enforced invariant\<close>

fun node_count :: "val \<Rightarrow> nat" where
  "node_count (VList vs) = Suc (sum_list (map node_count vs))"
| "node_count (VMap es) = Suc (sum_list (map (\<lambda>(k, v). node_count v) es))"
| "node_count _ = 1"

fun depth :: "val \<Rightarrow> nat" where
  "depth (VList vs) = Suc (fold max (map depth vs) 0)"
| "depth (VMap es) = Suc (fold max (map (\<lambda>(k, v). depth v) es) 0)"
| "depth _ = 0"

definition string_ok :: "bytes \<Rightarrow> bool" where
  "string_ok s \<longleftrightarrow> length s \<le> MAX_INLINE_BYTES \<and> utf8_valid s"

fun value_wf :: "val \<Rightarrow> bool" where
  "value_wf (VSigned i) \<longleftrightarrow> - (2 ^ 127) \<le> i \<and> i < 2 ^ 127"
| "value_wf (VBytes bs) \<longleftrightarrow> length bs \<le> MAX_INLINE_BYTES"
| "value_wf (VString s) \<longleftrightarrow> string_ok s"
| "value_wf (VList vs) \<longleftrightarrow>
     length vs \<le> MAX_COLLECTION_ENTRIES \<and> (\<forall>v \<in> set vs. value_wf v)"
| "value_wf (VMap es) \<longleftrightarrow>
     length es \<le> MAX_COLLECTION_ENTRIES \<and> sorted_wrt (<) (map fst es)
       \<and> (\<forall>(k, v) \<in> set es. string_ok k \<and> value_wf v)"
| "value_wf (VInstant i) \<longleftrightarrow> instant_ok i"
| "value_wf (VRecordRef r) \<longleftrightarrow> record_ref_ok r"
| "value_wf _ \<longleftrightarrow> True"

definition value_ok :: "val \<Rightarrow> bool" where
  "value_ok v \<longleftrightarrow>
     value_wf v \<and> depth v \<le> MAX_NESTING_DEPTH \<and> node_count v \<le> MAX_VALUE_NODES"

text \<open>What the public constructors can build.\<close>

inductive constructed :: "val \<Rightarrow> bool" where
  null: "constructed VNull"
| bool: "constructed (VBool b)"
| unsigned: "constructed (VUnsigned n)"
| signed: "- (2 ^ 127) \<le> i \<Longrightarrow> i < 2 ^ 127 \<Longrightarrow> constructed (VSigned i)"
| bytes: "bytes_new bs = Inr v \<Longrightarrow> constructed v"
| string: "utf8_valid s \<Longrightarrow> string_new s = Inr v \<Longrightarrow> constructed v"
| list: "(\<And>v. v \<in> set vs \<Longrightarrow> constructed v) \<Longrightarrow> list_new vs = Inr w \<Longrightarrow> constructed w"
| map: "(\<And>k v. (k, v) \<in> set es \<Longrightarrow> constructed v) \<Longrightarrow> (\<And>k v. (k, v) \<in> set es \<Longrightarrow> string_ok k)
         \<Longrightarrow> map_new es = Inr w \<Longrightarrow> constructed w"
| instant: "instant_new s n = Some i \<Longrightarrow> constructed (VInstant i)"
| record_ref: "record_ref_ok r \<Longrightarrow> constructed (VRecordRef r)"

subsection \<open>The constructors enforce exactly the invariant\<close>

lemma node_count_pos [simp]: "0 < node_count v"
  by (cases v) auto

lemma validate_limits_container:
  assumes bounds: "p \<le> MAX_NESTING_DEPTH" "n \<le> MAX_VALUE_NODES"
    and children: "\<And>x m m'. x \<in> set xs \<Longrightarrow> Suc p \<le> MAX_NESTING_DEPTH \<Longrightarrow> m \<le> MAX_VALUE_NODES \<Longrightarrow>
      f x m = Inr m' \<longleftrightarrow> m' = m + node_count (g x) \<and> m' \<le> MAX_VALUE_NODES
        \<and> (depth (g x) = 0 \<or> Suc p + depth (g x) \<le> MAX_NESTING_DEPTH)"
  shows "rbind (ensure (Suc n \<le> MAX_VALUE_NODES) e) (\<lambda>_.
      rbind (ensure (Suc p \<le> MAX_NESTING_DEPTH) e') (\<lambda>_. rfold f xs (Suc n))) = Inr n' \<longleftrightarrow>
      n' = Suc (n + sum_list (map (\<lambda>x. node_count (g x)) xs)) \<and> n' \<le> MAX_VALUE_NODES
        \<and> Suc (p + fold max (map (\<lambda>x. depth (g x)) xs) 0) \<le> MAX_NESTING_DEPTH"
proof (cases "Suc n \<le> MAX_VALUE_NODES \<and> Suc p \<le> MAX_NESTING_DEPTH")
  case True
  have "rfold f xs (Suc n) = Inr n' \<longleftrightarrow>
      n' = Suc n + sum_list (map (\<lambda>x. node_count (g x)) xs) \<and> n' \<le> MAX_VALUE_NODES
        \<and> (\<forall>x \<in> set xs. depth (g x) = 0 \<or> Suc p + depth (g x) \<le> MAX_NESTING_DEPTH)"
    using True by (intro rfold_counter children) auto
  with True fold_max_budget [of "Suc p" "map (\<lambda>x. depth (g x)) xs" MAX_NESTING_DEPTH]
  show ?thesis by simp
qed (auto simp: ensure_def)

lemma validate_limits_iff:
  "p \<le> MAX_NESTING_DEPTH \<Longrightarrow> n \<le> MAX_VALUE_NODES \<Longrightarrow>
     validate_limits v p n = Inr n' \<longleftrightarrow>
       n' = n + node_count v \<and> n' \<le> MAX_VALUE_NODES
         \<and> (depth v = 0 \<or> p + depth v \<le> MAX_NESTING_DEPTH)"
proof (induction v arbitrary: p n n')
  case (VList vs)
  have sat: "saturating_add p 1 = Suc p" "saturating_add n 1 = Suc n"
    using VList.prems by (simp_all add: saturating_add_def value_limits)
  have "validate_limits (VList vs) p n = Inr n' \<longleftrightarrow>
      n' = Suc (n + sum_list (map node_count vs)) \<and> n' \<le> MAX_VALUE_NODES
        \<and> Suc (p + fold max (map depth vs) 0) \<le> MAX_NESTING_DEPTH"
    unfolding validate_limits.simps [of "VList vs"] sat Let_def val.case
    using VList by (intro validate_limits_container [where g = "\<lambda>v. v"]) auto
  then show ?case by simp
next
  case (VMap es)
  have sat: "saturating_add p 1 = Suc p" "saturating_add n 1 = Suc n"
    using VMap.prems by (simp_all add: saturating_add_def value_limits)
  have "validate_limits (VMap es) p n = Inr n' \<longleftrightarrow>
      n' = Suc (n + sum_list (map (\<lambda>e. node_count (snd e)) es)) \<and> n' \<le> MAX_VALUE_NODES
        \<and> Suc (p + fold max (map (\<lambda>e. depth (snd e)) es) 0) \<le> MAX_NESTING_DEPTH"
    unfolding validate_limits.simps [of "VMap es"] sat Let_def val.case
    using VMap by (intro validate_limits_container [where g = snd]) auto
  then show ?case by (simp add: case_prod_beta')
qed (subst validate_limits.simps;
    auto simp: Let_def rbind_iffs saturating_add_def value_limits)+

lemma value_ok_list_iff:
  "list_new vs = Inr w \<longleftrightarrow> w = VList vs \<and> length vs \<le> MAX_COLLECTION_ENTRIES
     \<and> depth (VList vs) \<le> MAX_NESTING_DEPTH \<and> node_count (VList vs) \<le> MAX_VALUE_NODES"
proof -
  have "rfold (\<lambda>v nodes. validate_limits v 1 nodes) vs 1 = Inr n' \<longleftrightarrow>
      n' = 1 + sum_list (map node_count vs) \<and> n' \<le> MAX_VALUE_NODES
        \<and> (\<forall>v \<in> set vs. depth v = 0 \<or> 1 + depth v \<le> MAX_NESTING_DEPTH)" for n'
    by (intro rfold_counter validate_limits_iff) (auto simp: value_limits)
  with fold_max_budget [of 1 "map depth vs" MAX_NESTING_DEPTH] show ?thesis
    by (auto simp: list_new_def check_collection_length_def rbind_iffs value_limits)
qed

lemma adjacent_equal_sorted:
  "sorted (map fst es) \<Longrightarrow> \<not> adjacent_equal es \<longleftrightarrow> sorted_wrt (<) (map fst es)"
proof (induction es rule: adjacent_equal.induct)
  case (1 a b es)
  then have "fst a \<le> fst b" and tail: "\<forall>e \<in> set es. fst b \<le> fst e" by auto
  then have "(\<forall>e \<in> set (b # es). fst a < fst e) \<longleftrightarrow> fst a \<noteq> fst b"
    by (auto intro: less_le_trans)
  with 1 show ?case by auto
qed simp_all

lemma value_ok_map_iff:
  "map_new es = Inr w \<longleftrightarrow> w = VMap (sort_key fst es) \<and> length es \<le> MAX_COLLECTION_ENTRIES
     \<and> sorted_wrt (<) (map fst (sort_key fst es))
     \<and> depth w \<le> MAX_NESTING_DEPTH \<and> node_count w \<le> MAX_VALUE_NODES"
proof -
  define ss where "ss = sort_key fst es"
  have "rfold (\<lambda>e nodes. validate_limits (snd e) 1 nodes) ss 1 = Inr n' \<longleftrightarrow>
      n' = 1 + sum_list (map (\<lambda>e. node_count (snd e)) ss) \<and> n' \<le> MAX_VALUE_NODES
        \<and> (\<forall>e \<in> set ss. depth (snd e) = 0 \<or> 1 + depth (snd e) \<le> MAX_NESTING_DEPTH)" for n'
    by (intro rfold_counter validate_limits_iff) (auto simp: value_limits)
  moreover have "\<not> adjacent_equal ss \<longleftrightarrow> sorted_wrt (<) (map fst ss)"
    by (rule adjacent_equal_sorted) (simp add: ss_def)
  ultimately show ?thesis
    using fold_max_budget [of 1 "map (\<lambda>e. depth (snd e)) ss" MAX_NESTING_DEPTH]
    unfolding map_new_def Let_def ss_def [symmetric]
    by (auto simp: check_collection_length_def rbind_iffs value_limits case_prod_beta')
qed

lemma value_ok_children:
  "value_ok (VList vs) \<Longrightarrow> v \<in> set vs \<Longrightarrow> value_ok v"
  "value_ok (VMap es) \<Longrightarrow> (k, v) \<in> set es \<Longrightarrow> value_ok v \<and> string_ok k"
proof -
  assume ok: "value_ok (VList vs)" and v: "v \<in> set vs"
  have "node_count v \<le> sum_list (map node_count vs)"
    using v by (intro member_le_sum_list) auto
  with ok v fold_max_budget [of 1 "map depth vs" MAX_NESTING_DEPTH] show "value_ok v"
    by (auto simp: value_ok_def)
next
  assume ok: "value_ok (VMap es)" and v: "(k, v) \<in> set es"
  have "node_count v \<le> sum_list (map (\<lambda>(k, v). node_count v) es)"
    using v by (intro member_le_sum_list) (auto intro: rev_image_eqI)
  with ok v fold_max_budget [of 1 "map (\<lambda>(k, v). depth v) es" MAX_NESTING_DEPTH]
  show "value_ok v \<and> string_ok k"
    by (auto simp: value_ok_def)
qed

lemma constructed_value_ok: "constructed v \<Longrightarrow> value_ok v"
proof (induction rule: constructed.induct)
  case (list vs w)
  then show ?case by (auto simp: value_ok_list_iff value_ok_def)
next
  case (map es w)
  then show ?case by (auto simp: value_ok_map_iff value_ok_def)
qed (auto simp: value_ok_def value_limits bytes_new_def string_new_def check_inline_length_def
    string_ok_def rbind_iffs instant_new_eq_Some)

lemma value_ok_constructed: "value_ok v \<Longrightarrow> constructed v"
proof (induction v)
  case (VList vs)
  then have "\<And>v. v \<in> set vs \<Longrightarrow> constructed v"
    by (auto dest: value_ok_children(1))
  moreover have "list_new vs = Inr (VList vs)"
    using VList.prems by (simp add: value_ok_list_iff value_ok_def)
  ultimately show ?case by (rule constructed.list)
next
  case (VMap es)
  then have "\<And>k v. (k, v) \<in> set es \<Longrightarrow> constructed v" "\<And>k v. (k, v) \<in> set es \<Longrightarrow> string_ok k"
    by (fastforce dest: value_ok_children(2) simp: snds.simps)+
  moreover have "sort_key fst es = es"
    using VMap.prems
    by (intro sort_key_id_if_sorted) (simp add: value_ok_def strict_sorted_imp_sorted)
  then have "map_new es = Inr (VMap es)"
    using VMap.prems by (simp add: value_ok_map_iff value_ok_def)
  ultimately show ?case by (rule constructed.map)
next
  case (VBytes bs)
  then show ?case
    by (intro constructed.bytes [of bs])
      (simp add: bytes_new_def check_inline_length_def value_ok_def)
next
  case (VString s)
  then show ?case
    by (intro constructed.string [of s])
      (simp_all add: string_new_def check_inline_length_def value_ok_def string_ok_def)
next
  case (VInstant i)
  then show ?case
    by (cases i) (auto simp: value_ok_def instant_new_eq_Some intro!: constructed.instant)
qed (auto simp: value_ok_def intro: constructed.intros)

subsection \<open>Property of the constructors\<close>

text \<open>
  C7.  The public constructors build exactly the values within the v1 limits: 128-bit integers,
  inline lengths, collection lengths, valid UTF-8, strictly sorted map keys, at most 32 nested
  containers and 262144 nodes.
\<close>

theorem constructed_iff_value_ok: "constructed v \<longleftrightarrow> value_ok v"
  using constructed_value_ok value_ok_constructed by blast

end
