(* ===== verification/Cursor.thy ===== *)
theory Cursor
  imports Values
begin

text \<open>
  The errors, the bounds-checked cursor and the minimal ULEB128 integers of
  \<open>uste-types/src/codec.rs\<close>.  The locale \<open>strict_codec\<close> is the contract a pair of an encoder
  and a strict decoder keeps; the integers interpret it here, the other primitives in the
  next theory.
\<close>

datatype encode_error =
    EPayloadTooLarge nat nat
  | ETooManyValueNodes nat nat
  | EResourceLimit

datatype decode_error =
    DUnexpectedEof
  | DInvalidMagic
  | DUnsupportedVersion u8 u8 u8
  | DNonMinimalInteger
  | DIntegerOverflow
  | DPayloadTooLarge nat nat
  | DInvalidValueTag u8
  | DInvalidSignedInteger
  | DInvalidUtf8
  | DInlineValueTooLarge nat nat
  | DCollectionTooLarge nat nat
  | DNestingTooDeep nat nat
  | DTooManyValueNodes nat nat
  | DResourceLimit
  | DMapKeysOutOfOrder
  | DInvalidInstant
  | DInvalidIdentityTag u8 u8
  | DTrailingBytes

subsection \<open>The cursor\<close>

record cursor =
  cur_bytes :: bytes
  cur_offset :: nat

definition cur_new :: "bytes \<Rightarrow> cursor" where
  "cur_new bs = \<lparr>cur_bytes = bs, cur_offset = 0\<rparr>"

definition cur_remaining :: "cursor \<Rightarrow> nat" where
  "cur_remaining c = length (cur_bytes c) - cur_offset c"

definition cur_byte :: "cursor \<Rightarrow> decode_error + u8 \<times> cursor" where
  "cur_byte c =
     (if cur_offset c < length (cur_bytes c)
      then Inr (cur_bytes c ! cur_offset c, c\<lparr>cur_offset := cur_offset c + 1\<rparr>)
      else Inl DUnexpectedEof)"

definition cur_peek :: "cursor \<Rightarrow> decode_error + u8" where
  "cur_peek c =
     (if cur_offset c < length (cur_bytes c) then Inr (cur_bytes c ! cur_offset c)
      else Inl DUnexpectedEof)"

definition cur_take :: "nat \<Rightarrow> cursor \<Rightarrow> decode_error + bytes \<times> cursor" where
  "cur_take n c =
     rbind (ok_or (checked_add (cur_offset c) n) DIntegerOverflow) (\<lambda>e.
     if e \<le> length (cur_bytes c)
     then Inr (take n (drop (cur_offset c) (cur_bytes c)), c\<lparr>cur_offset := e\<rparr>)
     else Inl DUnexpectedEof)"

text \<open>
  A cursor over a slice: the offset stays inside and the slice length is a \<open>usize\<close>.
  \<open>reads c bs c'\<close> says that \<open>c'\<close> is \<open>c\<close> after consuming exactly the bytes \<open>bs\<close>.
\<close>

definition cur_wf :: "cursor \<Rightarrow> bool" where
  "cur_wf c \<longleftrightarrow> cur_offset c \<le> length (cur_bytes c) \<and> length (cur_bytes c) \<le> usize_max"

definition cur_rest :: "cursor \<Rightarrow> bytes" where
  "cur_rest c = drop (cur_offset c) (cur_bytes c)"

definition reads :: "cursor \<Rightarrow> bytes \<Rightarrow> cursor \<Rightarrow> bool" where
  "reads c bs c' \<longleftrightarrow> cur_wf c \<and> cur_wf c' \<and> cur_rest c = bs @ cur_rest c'
     \<and> c' = c\<lparr>cur_offset := cur_offset c + length bs\<rparr>"

lemma cur_wf_new [simp]: "cur_wf (cur_new bs) \<longleftrightarrow> length bs \<le> usize_max"
  by (simp add: cur_wf_def cur_new_def)

lemma cur_rest_new [simp]: "cur_rest (cur_new bs) = bs"
  by (simp add: cur_rest_def cur_new_def)

lemma cur_remaining_rest: "cur_remaining c = length (cur_rest c)"
  by (simp add: cur_remaining_def cur_rest_def)

lemma reads_nil [simp]: "reads c [] c' \<longleftrightarrow> c' = c \<and> cur_wf c"
  by (auto simp: reads_def)

lemma reads_wf: "reads c bs c' \<Longrightarrow> cur_wf c \<and> cur_wf c'"
  unfolding reads_def by blast

lemma reads_rest: "reads c bs c' \<Longrightarrow> cur_rest c = bs @ cur_rest c'"
  by (simp add: reads_def)

lemma reads_append:
  "reads c (a @ b) c' \<longleftrightarrow> (\<exists>m. reads c a m \<and> reads m b c')"
proof
  assume r: "reads c (a @ b) c'"
  define m where "m = c\<lparr>cur_offset := cur_offset c + length a\<rparr>"
  have "cur_rest m = drop (length a) (cur_rest c)"
    by (simp add: m_def cur_rest_def add.commute)
  also have "\<dots> = b @ cur_rest c'" using r by (simp add: reads_def)
  finally have rest: "cur_rest m = b @ cur_rest c'" .
  moreover have "cur_wf m"
    using r by (auto simp: reads_def cur_wf_def m_def)
  ultimately have "reads c a m" "reads m b c'"
    using r by (auto simp: reads_def m_def)
  then show "\<exists>m. reads c a m \<and> reads m b c'" by blast
next
  assume "\<exists>m. reads c a m \<and> reads m b c'"
  then show "reads c (a @ b) c'"
    by (auto simp: reads_def)
qed

lemma reads_Cons: "reads c (b # bs) c' \<longleftrightarrow> (\<exists>m. reads c [b] m \<and> reads m bs c')"
  using reads_append [of c "[b]" bs c'] by simp

lemma reads_det: "reads c bs c' \<Longrightarrow> reads c bs c'' \<Longrightarrow> c' = c''"
  by (simp add: reads_def)

lemma cur_byte_iff: "cur_wf c \<Longrightarrow> cur_byte c = Inr (b, c') \<longleftrightarrow> reads c [b] c'"
proof (cases "cur_offset c < length (cur_bytes c)")
  case True
  then have "cur_rest c = cur_bytes c ! cur_offset c # drop (Suc (cur_offset c)) (cur_bytes c)"
    by (simp add: cur_rest_def Cons_nth_drop_Suc)
  moreover assume "cur_wf c"
  ultimately show ?thesis
    using True by (auto simp: cur_byte_def reads_def cur_wf_def cur_rest_def)
qed (auto simp: cur_byte_def reads_def cur_rest_def)

lemma cur_take_iff:
  "cur_wf c \<Longrightarrow> cur_take n c = Inr (bs, c') \<longleftrightarrow> length bs = n \<and> reads c bs c'"
proof -
  assume wf: "cur_wf c"
  have split: "cur_rest c = take n (cur_rest c) @ drop n (cur_rest c)" by simp
  show ?thesis
  proof
    assume "cur_take n c = Inr (bs, c')"
    then have fits: "cur_offset c + n \<le> length (cur_bytes c)"
      and bs: "bs = take n (cur_rest c)" and c': "c' = c\<lparr>cur_offset := cur_offset c + n\<rparr>"
      by (auto simp: cur_take_def rbind_iffs cur_rest_def split: if_splits)
    have "length bs = n" using fits by (simp add: bs cur_rest_def)
    moreover have "cur_rest c' = drop n (cur_rest c)"
      by (simp add: c' cur_rest_def add.commute)
    ultimately show "length bs = n \<and> reads c bs c'"
      using wf fits split by (auto simp: reads_def bs c' cur_wf_def)
  next
    assume r: "length bs = n \<and> reads c bs c'"
    then have "cur_offset c + n \<le> length (cur_bytes c)"
      by (auto simp: reads_def cur_wf_def)
    moreover have "take n (cur_rest c) = bs" using r by (auto simp: reads_def)
    ultimately show "cur_take n c = Inr (bs, c')"
      using r wf by (auto simp: cur_take_def rbind_iffs reads_def cur_wf_def cur_rest_def)
  qed
qed

lemma cur_peek_iff: "cur_wf c \<Longrightarrow> cur_peek c = Inr b \<longleftrightarrow> (\<exists>c'. cur_byte c = Inr (b, c'))"
  by (simp add: cur_peek_def cur_byte_def)

lemma cur_peek_reads: "reads c (b # bs) c' \<Longrightarrow> cur_peek c = Inr b"
  by (metis cur_byte_iff cur_peek_iff reads_Cons reads_wf)

subsection \<open>ULEB128\<close>

lemma drop_bit_word_less:
  fixes v :: "'a::len word"
  assumes "drop_bit n v \<noteq> 0" "0 < n"
  shows "unat (drop_bit n v) < unat v"
proof -
  have "unat (drop_bit n v) = unat v div 2 ^ n"
    unfolding unat_drop_bit_eq by (rule drop_bit_eq_div)
  moreover have "0 < unat v" using assms(1) by (cases "v = 0") (auto simp: unat_gt_0)
  moreover have "(1::nat) < 2 ^ n" using assms(2) one_less_power [of "2::nat" n] by simp
  ultimately show ?thesis by (simp add: div_less_dividend)
qed

lemma ge_128_iff: "0x80 \<le> v \<longleftrightarrow> drop_bit 7 v \<noteq> 0" for v :: u128
proof -
  have "unat (drop_bit 7 v) = unat v div 128"
    unfolding unat_drop_bit_eq by (simp add: drop_bit_eq_div)
  then show ?thesis
    by (simp add: word_le_nat_alt word_unat_eq_iff div_eq_0_iff not_less)
qed

function uleb_len :: "u128 \<Rightarrow> nat" where
  "uleb_len v = (if 0x80 \<le> v then Suc (uleb_len (drop_bit 7 v)) else 1)"
  by pat_completeness auto
termination
  by (relation "measure unat") (auto simp: ge_128_iff intro: drop_bit_word_less)

function write_uleb :: "u128 \<Rightarrow> bytes" where
  "write_uleb v =
     (let byte = ucast (v AND 0x7f); v = drop_bit 7 v in
      if v = 0 then [byte] else (byte OR 0x80) # write_uleb v)"
  by pat_completeness auto
termination
  by (relation "measure unat") (auto intro: drop_bit_word_less)

declare uleb_len.simps [simp del] write_uleb.simps [simp del]

function read_uleb_from :: "nat \<Rightarrow> u128 \<Rightarrow> cursor \<Rightarrow> decode_error + u128 \<times> cursor" where
  "read_uleb_from index v c =
     (if index < 19 then
        rbind (cur_byte c) (\<lambda>(byte, c).
        let low = byte AND 0x7f in
        if index = 18 \<and> low > 0x03 then Inl DIntegerOverflow
        else
          let v = v OR push_bit (index * 7) (ucast low) in
          if byte AND 0x80 = 0 then
            (if 0 < index \<and> low = 0 then Inl DNonMinimalInteger else Inr (v, c))
          else read_uleb_from (Suc index) v c)
      else Inl DIntegerOverflow)"
  by pat_completeness auto
termination
  by (relation "measure (\<lambda>(i, v, c). 19 - i)") auto

declare read_uleb_from.simps [simp del]

definition read_uleb :: "cursor \<Rightarrow> decode_error + u128 \<times> cursor" where
  "read_uleb c = read_uleb_from 0 0 c"

lemma length_write_uleb: "length (write_uleb v) = uleb_len v"
  by (induction v rule: write_uleb.induct)
    (subst write_uleb.simps, subst uleb_len.simps, auto simp: Let_def ge_128_iff)

lemma mask7: "(0x7f::u8) = mask 7" "(0x7f::u128) = mask 7"
  by (simp_all add: mask_eq_decr_exp)

lemma and_top_zero: "b AND 0x80 = 0 \<longleftrightarrow> \<not> bit b 7" for b :: u8
  using and_exp_eq_0_iff_not_bit [of b 7] by simp

lemma bit_top: "bit (0x80::u8) n \<longleftrightarrow> n = 7"
  using bit_exp_iff [where 'a = u8, of 7 n] by auto

lemma uleb_byte_bits:
  "bit (ucast (v AND 0x7f) :: u8) n \<longleftrightarrow> n < 7 \<and> bit v n" for v :: u128
  unfolding mask7 by (auto simp: bit_simps)

text \<open>Every seven-bit step of the reader restores seven bits of the integer.\<close>

lemma uleb_join: "push_bit k (ucast (ucast (v AND 0x7f) :: u8)) OR push_bit (k + 7) (drop_bit 7 v)
    = push_bit k v" for v :: u128
proof (rule bit_eqI)
  fix n
  show "bit (push_bit k (ucast (ucast (v AND 0x7f) :: u8)) OR push_bit (k + 7) (drop_bit 7 v)) n
      = bit (push_bit k v) n"
  proof (cases "n < k + 7")
    case False
    then obtain m where "n = k + 7 + m" by (metis le_Suc_ex not_less)
    then show ?thesis by (auto simp: bit_simps uleb_byte_bits)
  qed (auto simp: bit_simps mask7)
qed

lemma write_uleb_Suc:
  "drop_bit 7 v \<noteq> 0 \<Longrightarrow> write_uleb v = (ucast (v AND 0x7f) OR 0x80) # write_uleb (drop_bit 7 v)"
  by (subst write_uleb.simps) (simp add: Let_def)

lemma write_uleb_last: "drop_bit 7 v = 0 \<Longrightarrow> write_uleb v = [ucast (v AND 0x7f)]"
  by (subst write_uleb.simps) (simp add: Let_def)

lemma low7_masks:
  fixes x :: u8
  assumes "\<And>n. bit x n \<Longrightarrow> n < 7"
  shows "(x OR 0x80) AND 0x7f = x" "x AND 0x7f = x"
  unfolding mask7(1)
  by (rule bit_eqI, simp only: bit_and_iff bit_or_iff bit_mask_iff bit_top, auto dest: assms)+

lemma uleb_low_byte:
  "(ucast (v AND 0x7f) OR 0x80 :: u8) AND 0x7f = ucast (v AND 0x7f)"
  "(ucast (v AND 0x7f) :: u8) AND 0x7f = ucast (v AND 0x7f)" for v :: u128
  by (rule low7_masks; simp only: uleb_byte_bits)+

lemma uleb_flag_byte:
  "bit (ucast (v AND 0x7f) OR 0x80 :: u8) 7" "\<not> bit (ucast (v AND 0x7f) :: u8) 7" for v :: u128
  by (simp_all only: bit_or_iff bit_top uleb_byte_bits) simp_all

lemma uleb_single: "drop_bit 7 v = 0 \<Longrightarrow> ucast (ucast (v AND 0x7f) :: u8) = v" for v :: u128
  using uleb_join [of 0 v] by simp

lemma uleb_top_small:
  "\<not> (ucast (drop_bit 126 v AND 0x7f) :: u8) > 0x03" for v :: u128
proof -
  have "unat (ucast (drop_bit 126 v AND 0x7f) :: u8) < 2 ^ 2"
    unfolding unat_less_power_bits uleb_byte_bits
    by (auto simp: bit_drop_bit_eq dest: bit_imp_le_length)
  then show ?thesis by (simp add: word_less_nat_alt)
qed

lemma read_uleb_from_write:
  "i \<le> 18 \<Longrightarrow> i = 0 \<or> drop_bit (i * 7) v \<noteq> 0 \<Longrightarrow>
   reads c (write_uleb (drop_bit (i * 7) v)) c' \<Longrightarrow>
   read_uleb_from i acc c = Inr (acc OR push_bit (i * 7) (drop_bit (i * 7) v), c')"
proof (induction "18 - i" arbitrary: i acc c rule: less_induct)
  case less
  define w where "w = drop_bit (i * 7) v"
  define low where "low = (ucast (w AND 0x7f) :: u8)"
  have mask: "low AND 0x7f = low" "(low OR 0x80) AND 0x7f = low"
    by (simp_all only: low_def uleb_low_byte)
  have small: "\<not> (i = 18 \<and> low > 0x03)"
    using uleb_top_small [of v] by (auto simp: low_def w_def)
  have next_w: "drop_bit 7 w = drop_bit (Suc i * 7) v"
    by (simp add: w_def drop_bit_drop_bit ac_simps)
  show ?case
  proof (cases "drop_bit 7 w = 0")
    case True
    have byte: "cur_byte c = Inr (low, c')"
      using less.prems(3) True
      by (simp add: cur_byte_iff reads_wf write_uleb_last low_def flip: w_def)
    have "\<not> (0 < i \<and> low = 0)"
      using less.prems(2) uleb_single [OF True] by (auto simp: low_def w_def)
    with byte small show ?thesis
      using less.prems(1) uleb_flag_byte(2) [of w] uleb_single [OF True]
      by (subst read_uleb_from.simps)
        (simp add: Let_def and_top_zero mask flip: w_def low_def)
  next
    case False
    have i: "i < 18"
    proof (rule ccontr)
      assume "\<not> i < 18"
      with less.prems(1) have "drop_bit 7 w = drop_bit 133 v"
        by (simp add: w_def drop_bit_drop_bit)
      also have "\<dots> = 0" by (rule bit_eqI) (simp add: bit_drop_bit_eq bit_imp_le_length)
      finally show False using False by simp
    qed
    have "reads c ((low OR 0x80) # write_uleb (drop_bit (Suc i * 7) v)) c'"
      using less.prems(3) write_uleb_Suc [OF False] by (simp only: low_def next_w flip: w_def)
    then obtain m
      where m: "reads c [low OR 0x80] m" "reads m (write_uleb (drop_bit (Suc i * 7) v)) c'"
      using reads_Cons [of c "low OR 0x80"] by blast
    then have byte: "cur_byte c = Inr (low OR 0x80, m)"
      by (simp add: cur_byte_iff reads_wf)
    have "read_uleb_from (Suc i) (acc OR push_bit (i * 7) (ucast low)) m =
        Inr ((acc OR push_bit (i * 7) (ucast low)) OR push_bit (Suc i * 7) (drop_bit 7 w), c')"
      using less.hyps [of "Suc i" m] i m(2) False next_w by simp
    also have "(acc OR push_bit (i * 7) (ucast low)) OR push_bit (Suc i * 7) (drop_bit 7 w) =
        acc OR push_bit (i * 7) w"
      using uleb_join [of "i * 7" w] by (simp add: low_def or.assoc add.commute)
    finally show ?thesis
      using i small byte uleb_flag_byte(1) [of w]
      by (subst read_uleb_from.simps)
        (simp add: Let_def and_top_zero mask flip: w_def low_def)
  qed
qed

lemma read_uleb_write: "reads c (write_uleb v) c' \<Longrightarrow> read_uleb c = Inr (v, c')"
  using read_uleb_from_write [of 0 v c c' 0] by (simp add: read_uleb_def)

lemma uleb_glue:
  fixes w :: u128 and x :: u8
  assumes x: "\<And>n. bit x n \<Longrightarrow> n < 7" and w: "\<And>n. bit w n \<Longrightarrow> n < 121"
  shows "drop_bit 7 (ucast x OR push_bit 7 w) = w" (is ?drop)
    and "ucast ((ucast x OR push_bit 7 w) AND 0x7f) = x" (is ?low)
proof -
  show ?drop
    by (rule bit_eqI, simp only: bit_drop_bit_eq comp_apply, simp only: bit_or_iff bit_push_bit_iff bit_ucast_iff)
      (auto dest: x w)
  show ?low
    by (rule bit_eqI, simp only: uleb_byte_bits, simp only: bit_or_iff bit_push_bit_iff bit_ucast_iff)
      (auto dest: x w)
qed

lemma low7_bits: "bit (b AND 0x7f) n \<Longrightarrow> n < 7" for b :: u8
  by (simp add: mask7(1) bit_and_iff bit_mask_iff)

lemma byte_flag_split:
  "\<not> bit b 7 \<Longrightarrow> b AND 0x7f = b" "bit b 7 \<Longrightarrow> (b AND 0x7f) OR 0x80 = b" for b :: u8
proof -
  have lt: "n < 7 \<or> n = 7" if "bit b n" for n
    using bit_imp_le_length [OF that] by auto
  show "b AND 0x7f = b" if "\<not> bit b 7"
    unfolding mask7(1) using that
    by (intro bit_eqI, simp only: bit_and_iff bit_mask_iff) (auto dest: lt)
  show "(b AND 0x7f) OR 0x80 = b" if "bit b 7"
    unfolding mask7(1) using that
    by (intro bit_eqI, simp only: bit_and_iff bit_or_iff bit_mask_iff bit_top) (auto dest: lt)
qed

lemma uleb_last_bits:
  fixes x :: u8
  assumes "\<And>n. bit x n \<Longrightarrow> n < 7" "i \<le> 18" "\<not> (i = 18 \<and> x > 0x03)"
  shows "bit x n \<Longrightarrow> n < 128 - i * 7"
proof (cases "i = 18")
  case True
  with assms(3) have "unat x < 2 ^ 2" by (simp add: word_less_nat_alt not_less)
  then show "bit x n \<Longrightarrow> n < 128 - i * 7" using True unat_less_power_bits [of x 2] by auto
next
  case False
  then show "bit x n \<Longrightarrow> n < 128 - i * 7" using assms(1) [of n] assms(2) by auto
qed

lemma write_uleb_ucast:
  fixes x :: u8
  assumes "\<And>n. bit x n \<Longrightarrow> n < 7"
  shows "write_uleb (ucast x) = [x]"
  using uleb_glue [of x 0, OF assms] by (simp add: write_uleb_last)

lemma read_uleb_from_D:
  "cur_wf c \<Longrightarrow> read_uleb_from i acc c = Inr (v, c') \<Longrightarrow>
   \<exists>w. v = acc OR push_bit (i * 7) w \<and> reads c (write_uleb w) c' \<and> (0 < i \<longrightarrow> w \<noteq> 0)
     \<and> (\<forall>n. bit w n \<longrightarrow> n < 128 - i * 7)"
proof (induction "19 - i" arbitrary: i acc c rule: less_induct)
  case less
  from less.prems(2) have i: "i < 19"
    by (subst (asm) read_uleb_from.simps) (auto split: if_splits)
  from less.prems(2) i obtain b m where "cur_byte c = Inr (b, m)"
    by (subst (asm) read_uleb_from.simps) (auto simp: rbind_iffs)
  note byte = this
  then have rd: "reads c [b] m" using less.prems(1) by (simp add: cur_byte_iff)
  define x where "x = b AND 0x7f"
  have x7: "\<And>n. bit x n \<Longrightarrow> n < 7" unfolding x_def by (rule low7_bits)
  have small: "\<not> (i = 18 \<and> x > 0x03)"
    using less.prems(2) i byte
    by (subst (asm) read_uleb_from.simps) (auto simp: x_def split: if_splits)
  show ?case
  proof (cases "bit b 7")
    case False
    then have b: "b = x" by (simp add: x_def byte_flag_split)
    have "v = acc OR push_bit (i * 7) (ucast x)" "c' = m" "0 < i \<longrightarrow> x \<noteq> 0"
      using less.prems(2) i byte small False
      by (subst (asm) read_uleb_from.simps;
          auto simp: Let_def and_top_zero simp flip: x_def split: if_splits)+
    moreover have "ucast x = (0::u128) \<longrightarrow> x = 0"
      using uleb_glue(2) [of x 0, OF x7] by auto
    moreover have "\<forall>n. bit (ucast x :: u128) n \<longrightarrow> n < 128 - i * 7"
      using uleb_last_bits [OF x7 _ small] i by (simp add: bit_ucast_iff)
    ultimately show ?thesis
      using rd by (intro exI [of _ "ucast x"]) (auto simp: write_uleb_ucast [OF x7] b)
  next
    case True
    have rec: "read_uleb_from (Suc i) (acc OR push_bit (i * 7) (ucast x)) m = Inr (v, c')"
      using less.prems(2) i byte small True
      by (subst (asm) read_uleb_from.simps)
        (auto simp: Let_def and_top_zero simp flip: x_def split: if_splits)
    have lt: "19 - Suc i < 19 - i" using i by simp
    obtain w where w: "v = (acc OR push_bit (i * 7) (ucast x)) OR push_bit (Suc i * 7) w"
        "reads m (write_uleb w) c'" "w \<noteq> 0" "\<And>n. bit w n \<Longrightarrow> n < 128 - Suc i * 7"
      using less.hyps [OF lt _ rec] reads_wf [OF rd] by auto
    have "\<exists>n. bit w n" using w(3) by (auto simp: bit_eq_iff)
    with w(4) have i17: "Suc i * 7 < 128" by force
    have w121: "\<And>n. bit w n \<Longrightarrow> n < 121" using w(4) by fastforce
    define u where "u = ucast x OR push_bit 7 w"
    note u = uleb_glue [of x w, OF x7 w121, folded u_def]
    have "push_bit (i * 7) u = push_bit (i * 7) (ucast x) OR push_bit (Suc i * 7) w"
      by (simp add: u_def push_bit_or add.commute)
    with w(1) have "v = acc OR push_bit (i * 7) u" by (simp add: or.assoc)
    moreover have "write_uleb u = b # write_uleb w"
      using write_uleb_Suc [of u] u w(3) True by (simp add: x_def byte_flag_split)
    then have "reads c (write_uleb u) c'"
      using rd w(2) reads_Cons [of c b "write_uleb w" c'] by metis
    moreover have "u \<noteq> 0" using u w(3) by auto
    moreover have "n < 128 - i * 7" if "bit u n" for n
      using that w(4) [of "n - 7"] x7 [of n] i17
      by (auto simp: u_def bit_or_iff bit_push_bit_iff bit_ucast_iff)
    ultimately show ?thesis by blast
  qed
qed

lemma read_uleb_D: "cur_wf c \<Longrightarrow> read_uleb c = Inr (v, c') \<Longrightarrow> reads c (write_uleb v) c'"
  using read_uleb_from_D [of c 0 0 v c'] by (auto simp: read_uleb_def)

subsection \<open>The contract of a strict codec\<close>

text \<open>
  The decoder returns \<open>x\<close> exactly when the cursor stands on the encoding of the admissible
  value \<open>x\<close>, and it consumes exactly that encoding.
\<close>

locale strict_codec =
  fixes enc :: "'a \<Rightarrow> bytes"
    and dec :: "cursor \<Rightarrow> decode_error + 'a \<times> cursor"
    and ok :: "'a \<Rightarrow> bool"
  assumes dec_enc: "ok x \<Longrightarrow> reads c (enc x) c' \<Longrightarrow> dec c = Inr (x, c')"
    and enc_dec: "cur_wf c \<Longrightarrow> dec c = Inr (x, c') \<Longrightarrow> ok x \<and> reads c (enc x) c'"
begin

lemma dec_iff: "cur_wf c \<Longrightarrow> dec c = Inr (x, c') \<longleftrightarrow> ok x \<and> reads c (enc x) c'"
  using dec_enc enc_dec by blast

lemma dec_wf: "cur_wf c \<Longrightarrow> dec c = Inr (x, c') \<Longrightarrow> cur_wf c'"
  using enc_dec reads_wf by blast

lemma dec_prefix:
  assumes "ok x" "length (enc x @ r) \<le> usize_max"
  shows "dec (cur_new (enc x @ r)) = Inr (x, (cur_new (enc x @ r))\<lparr>cur_offset := length (enc x)\<rparr>)"
proof -
  have "reads (cur_new (enc x @ r)) (enc x) ((cur_new (enc x @ r))\<lparr>cur_offset := length (enc x)\<rparr>)"
    using assms(2) by (simp add: reads_def cur_wf_def cur_new_def cur_rest_def)
  with assms(1) show ?thesis by (rule dec_enc)
qed

lemma prefix_free:
  assumes "ok x" "ok y" "enc x @ r = enc y @ s" "length (enc x @ r) \<le> usize_max"
  shows "x = y \<and> r = s"
proof -
  have "x = y"
    using dec_prefix [OF assms(1,4)] dec_prefix [OF assms(2), of s] assms(4) unfolding assms(3)
    by simp
  with assms(3) show ?thesis by simp
qed

end

interpretation uleb: strict_codec write_uleb read_uleb "\<lambda>_. True"
  by unfold_locales (auto intro: read_uleb_write read_uleb_D)

end
