(* ===== verification/Primitives.thy ===== *)
theory Primitives
  imports Cursor
begin

text \<open>
  The length, string, sign-magnitude and identity primitives of \<open>uste-types/src/codec.rs\<close>,
  the depth check and the node budget of the decoder.  Every reader is paired with its writer
  and interprets the contract \<open>strict_codec\<close>.
\<close>

subsection \<open>Lengths\<close>

definition write_length :: "nat \<Rightarrow> bytes" where
  "write_length n = write_uleb (word_of_nat n)"

definition read_length :: "cursor \<Rightarrow> decode_error + nat \<times> cursor" where
  "read_length c =
     rbind (read_uleb c) (\<lambda>(v, c).
     rbind (ensure (unat v \<le> usize_max) DIntegerOverflow) (\<lambda>_. Inr (unat v, c)))"

definition read_inline_length :: "cursor \<Rightarrow> decode_error + nat \<times> cursor" where
  "read_inline_length c =
     rbind (read_length c) (\<lambda>(n, c).
     rbind (ensure (n \<le> MAX_INLINE_BYTES) (DInlineValueTooLarge n MAX_INLINE_BYTES)) (\<lambda>_. Inr (n, c)))"

definition read_collection_length :: "cursor \<Rightarrow> decode_error + nat \<times> cursor" where
  "read_collection_length c =
     rbind (read_length c) (\<lambda>(n, c).
     rbind (ensure (n \<le> MAX_COLLECTION_ENTRIES) (DCollectionTooLarge n MAX_COLLECTION_ENTRIES))
       (\<lambda>_. Inr (n, c)))"

lemma unat_usize [simp]: "n \<le> usize_max \<Longrightarrow> unat (word_of_nat n :: u128) = n"
  by (simp add: usize_max_def unat_of_nat)

interpretation len: strict_codec write_length read_length "\<lambda>n. n \<le> usize_max"
proof unfold_locales
  fix c n c'
  show "read_length c = Inr (n, c')" if "n \<le> usize_max" "reads c (write_length n) c'"
    using uleb.dec_enc that by (simp add: write_length_def read_length_def)
  show "n \<le> usize_max \<and> reads c (write_length n) c'" if "cur_wf c" "read_length c = Inr (n, c')"
    using uleb.enc_dec that by (auto simp: write_length_def read_length_def rbind_iffs)
qed

interpretation inline_len: strict_codec write_length read_inline_length "\<lambda>n. n \<le> MAX_INLINE_BYTES"
proof unfold_locales
  fix c n c'
  show "read_inline_length c = Inr (n, c')" if "n \<le> MAX_INLINE_BYTES" "reads c (write_length n) c'"
    using len.dec_enc [of n c c'] that by (simp add: read_inline_length_def value_limits)
  show "n \<le> MAX_INLINE_BYTES \<and> reads c (write_length n) c'"
    if "cur_wf c" "read_inline_length c = Inr (n, c')"
    using len.enc_dec that by (auto simp: read_inline_length_def rbind_iffs)
qed

interpretation collection_len:
  strict_codec write_length read_collection_length "\<lambda>n. n \<le> MAX_COLLECTION_ENTRIES"
proof unfold_locales
  fix c n c'
  show "read_collection_length c = Inr (n, c')"
    if "n \<le> MAX_COLLECTION_ENTRIES" "reads c (write_length n) c'"
    using len.dec_enc [of n c c'] that by (simp add: read_collection_length_def value_limits)
  show "n \<le> MAX_COLLECTION_ENTRIES \<and> reads c (write_length n) c'"
    if "cur_wf c" "read_collection_length c = Inr (n, c')"
    using len.enc_dec that by (auto simp: read_collection_length_def rbind_iffs)
qed

subsection \<open>Strings\<close>

definition write_str :: "bytes \<Rightarrow> bytes" where
  "write_str s = write_length (length s) @ s"

definition read_str :: "cursor \<Rightarrow> decode_error + bytes \<times> cursor" where
  "read_str c =
     rbind (read_inline_length c) (\<lambda>(n, c).
     rbind (cur_take n c) (\<lambda>(bs, c).
     rbind (ensure (utf8_valid bs) DInvalidUtf8) (\<lambda>_. Inr (bs, c))))"

interpretation str: strict_codec write_str read_str string_ok
proof unfold_locales
  fix c s c'
  show "read_str c = Inr (s, c')" if ok: "string_ok s" and rd: "reads c (write_str s) c'"
  proof -
    obtain m where m: "reads c (write_length (length s)) m" "reads m s c'"
      using rd by (auto simp: write_str_def reads_append)
    then show ?thesis
      using ok inline_len.dec_enc [OF _ m(1)] cur_take_iff [of m "length s" s c'] reads_wf [OF m(2)]
      by (simp add: read_str_def string_ok_def)
  qed
  show "string_ok s \<and> reads c (write_str s) c'"
    if wf: "cur_wf c" and dec: "read_str c = Inr (s, c')"
  proof -
    obtain n m where m: "read_inline_length c = Inr (n, m)" "cur_take n m = Inr (s, c')" "utf8_valid s"
      using dec by (auto simp: read_str_def rbind_iffs)
    then have "n \<le> MAX_INLINE_BYTES" "reads c (write_length n) m" and "cur_wf m"
      using inline_len.enc_dec inline_len.dec_wf wf by blast+
    with m show ?thesis by (auto simp: cur_take_iff string_ok_def write_str_def reads_append)
  qed
qed

subsection \<open>Signed integers\<close>

definition i128_ok :: "int \<Rightarrow> bool" where
  "i128_ok i \<longleftrightarrow> - (2 ^ 127) \<le> i \<and> i < 2 ^ 127"

definition signed_parts :: "int \<Rightarrow> u8 \<times> u128" where
  "signed_parts i = (if i < 0 then (1, word_of_int (- i)) else (0, word_of_int i))"

definition write_signed :: "int \<Rightarrow> bytes" where
  "write_signed i = (case signed_parts i of (sign, magnitude) \<Rightarrow> sign # write_uleb magnitude)"

definition read_signed :: "cursor \<Rightarrow> decode_error + int \<times> cursor" where
  "read_signed c =
     rbind (cur_byte c) (\<lambda>(sign, c).
     rbind (read_uleb c) (\<lambda>(magnitude, c).
     if sign = 0 \<and> uint magnitude \<le> 2 ^ 127 - 1 then Inr (uint magnitude, c)
     else if sign = 1 \<and> magnitude = 0 then Inl DInvalidSignedInteger
     else if sign = 1 \<and> uint magnitude = 2 ^ 127 then Inr (- (2 ^ 127), c)
     else if sign = 1 \<and> uint magnitude \<le> 2 ^ 127 - 1 then Inr (- uint magnitude, c)
     else Inl DInvalidSignedInteger))"

lemma uint_u128 [simp]: "0 \<le> i \<Longrightarrow> i \<le> 2 ^ 127 \<Longrightarrow> uint (word_of_int i :: u128) = i"
  by (simp add: uint_word_of_int)

lemma uint_eq_u128: "0 \<le> x \<Longrightarrow> x \<le> 2 ^ 127 \<Longrightarrow> word_of_int x = mag \<longleftrightarrow> uint (mag :: u128) = x"
  by (metis uint_u128 word_of_int_uint)

lemma signed_parts_iff:
  assumes "i128_ok i"
  shows "signed_parts i = (sign, mag) \<longleftrightarrow>
    (if i < 0 then sign = 1 \<and> uint mag = - i else sign = 0 \<and> uint mag = i)"
proof (cases "i < 0")
  case True
  then show ?thesis
    using uint_eq_u128 [of "- i" mag] assms unfolding signed_parts_def i128_ok_def by auto
next
  case False
  then show ?thesis
    using uint_eq_u128 [of i mag] assms unfolding signed_parts_def i128_ok_def by auto
qed

lemma sign_magnitude_iff:
  fixes sign :: u8 and m :: int
  assumes "0 \<le> m"
  shows "(if sign = 0 \<and> m \<le> 2 ^ 127 - 1 then Inr (m, c)
     else if sign = 1 \<and> m = 0 then Inl e
     else if sign = 1 \<and> m = 2 ^ 127 then Inr (- (2 ^ 127), c)
     else if sign = 1 \<and> m \<le> 2 ^ 127 - 1 then Inr (- m, c)
     else Inl e) = Inr (i, c') \<longleftrightarrow>
   c' = c \<and> i128_ok i \<and> (if i < 0 then sign = 1 \<and> m = - i else sign = 0 \<and> m = i)"
  using assms unfolding i128_ok_def by (cases "sign = 0"; cases "sign = 1") auto

lemma read_signed_bind:
  assumes "cur_byte c = Inr (sign, m)" "read_uleb m = Inr (mag, c')"
  shows "read_signed c = Inr (i, c'') \<longleftrightarrow> c'' = c' \<and> i128_ok i \<and> signed_parts i = (sign, mag)"
proof -
  have zero: "mag = 0 \<longleftrightarrow> uint mag = 0" by (simp add: unsigned_eq_0_iff)
  show ?thesis
    unfolding read_signed_def assms rbind_Inr prod.case zero sign_magnitude_iff [OF unsigned_greater_eq]
    using signed_parts_iff by blast
qed

interpretation signed: strict_codec write_signed read_signed i128_ok
proof unfold_locales
  fix c i c'
  show "read_signed c = Inr (i, c')" if ok: "i128_ok i" and rd: "reads c (write_signed i) c'"
  proof -
    obtain sign mag where parts: "signed_parts i = (sign, mag)" by (metis prod.exhaust)
    obtain m where m: "reads c [sign] m" "reads m (write_uleb mag) c'"
      using rd reads_Cons [of c sign "write_uleb mag" c'] by (auto simp: write_signed_def parts)
    then have "cur_byte c = Inr (sign, m)" "read_uleb m = Inr (mag, c')"
      using reads_wf [OF m(1)] by (simp_all add: cur_byte_iff uleb.dec_enc)
    then show ?thesis using ok parts by (simp add: read_signed_bind)
  qed
  show "i128_ok i \<and> reads c (write_signed i) c'"
    if wf: "cur_wf c" and dec: "read_signed c = Inr (i, c')"
  proof -
    obtain sign m mag c'' where bin: "cur_byte c = Inr (sign, m)" "read_uleb m = Inr (mag, c'')"
      using dec by (auto simp: read_signed_def rbind_eq_Inr)
    have rd: "reads c [sign] m" using wf bin by (simp add: cur_byte_iff)
    then have "reads m (write_uleb mag) c''" using uleb.enc_dec bin reads_wf by blast
    with rd have "reads c (sign # write_uleb mag) c''" using reads_Cons [of c sign "write_uleb mag" c''] by blast
    then show ?thesis
      using dec bin by (simp add: read_signed_bind write_signed_def)
  qed
qed

subsection \<open>Identities, references and instants\<close>

definition write_identity :: "u8 \<Rightarrow> identity \<Rightarrow> bytes" where
  "write_identity tag bs = tag # bs"

definition read_identity :: "u8 \<Rightarrow> cursor \<Rightarrow> decode_error + identity \<times> cursor" where
  "read_identity tag c =
     rbind (cur_byte c) (\<lambda>(actual, c).
     rbind (ensure (actual = tag) (DInvalidIdentityTag tag actual)) (\<lambda>_. cur_take 16 c))"

definition write_record_ref :: "record_ref \<Rightarrow> bytes" where
  "write_record_ref r =
     write_identity DATABASE_TAG (rr_database r)
     @ write_identity NAMESPACE_TAG (rr_namespace r)
     @ write_identity RECORD_TAG (rr_record r)"

definition read_record_ref :: "cursor \<Rightarrow> decode_error + record_ref \<times> cursor" where
  "read_record_ref c =
     rbind (read_identity DATABASE_TAG c) (\<lambda>(database, c).
     rbind (read_identity NAMESPACE_TAG c) (\<lambda>(namespace, c).
     rbind (read_identity RECORD_TAG c) (\<lambda>(rec, c).
     Inr (record_ref_new database namespace rec, c))))"

definition write_instant :: "utc_instant \<Rightarrow> bytes" where
  "write_instant i =
     write_signed (instant_seconds i) @ write_uleb (word_of_nat (instant_nanoseconds i))"

definition read_instant :: "cursor \<Rightarrow> decode_error + utc_instant \<times> cursor" where
  "read_instant c =
     rbind (read_signed c) (\<lambda>(seconds, c).
     rbind (ensure (- (2 ^ 63) \<le> seconds \<and> seconds < 2 ^ 63) DInvalidInstant) (\<lambda>_.
     rbind (read_uleb c) (\<lambda>(nanoseconds, c).
     rbind (ensure (unat nanoseconds < 2 ^ 32) DInvalidInstant) (\<lambda>_.
     rbind (ok_or (instant_new seconds (unat nanoseconds)) DInvalidInstant) (\<lambda>i. Inr (i, c))))))"

interpretation identity: strict_codec "write_identity tag" "read_identity tag" identity_ok for tag
proof unfold_locales
  fix c bs c'
  show "read_identity tag c = Inr (bs, c')"
    if ok: "identity_ok bs" and rd: "reads c (write_identity tag bs) c'"
  proof -
    obtain m where "reads c [tag] m" "reads m bs c'"
      using rd reads_Cons [of c tag bs c'] by (auto simp: write_identity_def)
    moreover from this have "cur_wf c" "cur_wf m" using reads_wf by blast+
    ultimately have "cur_byte c = Inr (tag, m)" "cur_take 16 m = Inr (bs, c')"
      using ok by (simp_all add: cur_byte_iff cur_take_iff identity_ok_def)
    then show ?thesis by (simp add: read_identity_def)
  qed
  show "identity_ok bs \<and> reads c (write_identity tag bs) c'"
    if wf: "cur_wf c" and dec: "read_identity tag c = Inr (bs, c')"
  proof -
    obtain m where m: "cur_byte c = Inr (tag, m)" "cur_take 16 m = Inr (bs, c')"
      using dec by (auto simp: read_identity_def rbind_eq_Inr)
    then have "reads c [tag] m" using wf by (simp add: cur_byte_iff)
    moreover from this have "cur_wf m" using reads_wf by blast
    ultimately show ?thesis
      using m reads_Cons [of c tag bs c'] by (auto simp: cur_take_iff identity_ok_def write_identity_def)
  qed
qed

interpretation record_ref: strict_codec write_record_ref read_record_ref record_ref_ok
proof unfold_locales
  fix c r c'
  show "read_record_ref c = Inr (r, c')" if "record_ref_ok r" "reads c (write_record_ref r) c'"
    using that
    by (cases r; cases "rr_scope r")
      (auto simp: write_record_ref_def read_record_ref_def reads_append record_ref_ok_def
        namespace_ref_ok_def rr_database_def rr_namespace_def record_ref_new_def identity.dec_enc)
  show "record_ref_ok r \<and> reads c (write_record_ref r) c'"
    if wf: "cur_wf c" and dec: "read_record_ref c = Inr (r, c')"
  proof -
    obtain d m n m' i where
      parts: "read_identity DATABASE_TAG c = Inr (d, m)" "read_identity NAMESPACE_TAG m = Inr (n, m')"
        "read_identity RECORD_TAG m' = Inr (i, c')" and r: "r = record_ref_new d n i"
      using dec by (auto simp: read_record_ref_def rbind_eq_Inr)
    have "cur_wf m" using parts(1) wf by (rule identity.dec_wf [rotated])
    moreover from this have "cur_wf m'" using parts(2) by (rule identity.dec_wf)
    ultimately show ?thesis
      using identity.enc_dec [OF wf parts(1)] identity.enc_dec [OF _ parts(2)]
        identity.enc_dec [OF _ parts(3)]
      by (auto simp: r write_record_ref_def reads_append record_ref_ok_def namespace_ref_ok_def
          rr_database_def rr_namespace_def record_ref_new_def)
  qed
qed

interpretation instant: strict_codec write_instant read_instant instant_ok
proof unfold_locales
  fix c i c'
  show "read_instant c = Inr (i, c')" if ok: "instant_ok i" and rd: "reads c (write_instant i) c'"
  proof -
    obtain m where m: "reads c (write_signed (instant_seconds i)) m"
      "reads m (write_uleb (word_of_nat (instant_nanoseconds i))) c'"
      using rd by (auto simp: write_instant_def reads_append)
    have "i128_ok (instant_seconds i)"
      using ok by (simp add: instant_ok_def i128_ok_def MIN_EPOCH_SECONDS_def MAX_EPOCH_SECONDS_def)
    then have "read_signed c = Inr (instant_seconds i, m)" using m(1) by (rule signed.dec_enc)
    moreover have "read_uleb m = Inr (word_of_nat (instant_nanoseconds i), c')"
      using m(2) by (simp add: uleb.dec_enc)
    ultimately show ?thesis
      using ok
      by (cases i) (simp add: read_instant_def instant_new_def instant_ok_def usize_max_def
          MIN_EPOCH_SECONDS_def MAX_EPOCH_SECONDS_def)
  qed
  show "instant_ok i \<and> reads c (write_instant i) c'"
    if wf: "cur_wf c" and dec: "read_instant c = Inr (i, c')"
  proof -
    obtain s m n where parts: "read_signed c = Inr (s, m)" "read_uleb m = Inr (n, c')"
      and i: "i = UtcInstant s (unat n)" "instant_ok i"
      using dec by (auto simp: read_instant_def rbind_eq_Inr instant_new_eq_Some)
    have "cur_wf m" using wf parts(1) by (rule signed.dec_wf)
    then show ?thesis
      using signed.enc_dec [OF wf parts(1)] uleb.enc_dec [OF _ parts(2)] i
      by (auto simp: write_instant_def reads_append)
  qed
qed

subsection \<open>Reservations, depth and the node budget\<close>

text \<open>
  \<open>alloc k n\<close> is the answer of the process allocator to the reservation of \<open>n\<close> items made when
  the cursor stands at offset \<open>k\<close>; \<open>granted\<close> is the allocator that never fails.
\<close>

type_synonym allocator = "nat \<Rightarrow> nat \<Rightarrow> bool"

definition granted :: allocator where
  "granted k n \<longleftrightarrow> True"

definition try_reserve :: "allocator \<Rightarrow> cursor \<Rightarrow> nat \<Rightarrow> decode_error + unit" where
  "try_reserve alloc c n = ensure (alloc (cur_offset c) n) DResourceLimit"

definition read_string :: "allocator \<Rightarrow> cursor \<Rightarrow> decode_error + bytes \<times> cursor" where
  "read_string alloc c =
     rbind (read_str c) (\<lambda>(text, c).
     rbind (try_reserve alloc c (length text)) (\<lambda>_. Inr (text, c)))"

definition check_depth :: "nat \<Rightarrow> decode_error + nat" where
  "check_depth parent =
     (let depth = saturating_add parent 1 in
      rbind (ensure (depth \<le> MAX_NESTING_DEPTH) (DNestingTooDeep depth MAX_NESTING_DEPTH))
        (\<lambda>_. Inr depth))"

definition require_nodes :: "nat \<Rightarrow> nat \<Rightarrow> decode_error + unit" where
  "require_nodes used minimum_more =
     (let actual = saturating_add used minimum_more in
      ensure (actual \<le> MAX_VALUE_NODES) (DTooManyValueNodes actual MAX_VALUE_NODES))"

definition take_node :: "nat \<Rightarrow> decode_error + nat" where
  "take_node used = rbind (require_nodes used 1) (\<lambda>_. Inr (used + 1))"

lemma granted_simp [simp]: "try_reserve granted c n = Inr ()"
  by (simp add: try_reserve_def granted_def)

lemma read_string_granted [simp]: "read_string granted = read_str"
proof
  fix c
  show "read_string granted c = read_str c"
    by (cases "read_str c") (auto simp: read_string_def)
qed

lemma check_depth_iff [simp]: "check_depth p = Inr d \<longleftrightarrow> d = Suc p \<and> d \<le> MAX_NESTING_DEPTH"
  by (auto simp: check_depth_def rbind_iffs saturating_add_def value_limits Let_def)

lemma require_nodes_iff [simp]: "require_nodes u n = Inr x \<longleftrightarrow> u + n \<le> MAX_VALUE_NODES"
  by (auto simp: require_nodes_def saturating_add_def value_limits Let_def)

lemma take_node_iff [simp]: "take_node u = Inr u' \<longleftrightarrow> u' = Suc u \<and> u' \<le> MAX_VALUE_NODES"
  by (auto simp: take_node_def rbind_iffs)

subsection \<open>Property of the integers\<close>

text \<open>
  C6.  Integers are minimal and exact: from a well-formed cursor the unsigned and the signed
  readers return a value exactly when the cursor stands on the one encoding the writer produces
  for it, and they consume exactly that encoding.
\<close>

theorem integers_strict:
  assumes "cur_wf c"
  shows "(read_uleb c = Inr (n, c') \<longleftrightarrow> reads c (write_uleb n) c')
    \<and> (read_signed c = Inr (i, c') \<longleftrightarrow> i128_ok i \<and> reads c (write_signed i) c')"
  using uleb.dec_iff [OF assms] signed.dec_iff [OF assms] by auto

theorem integers_strict_witness:
  "cur_wf (cur_new [0xac, 2]) \<and> read_uleb (cur_new [0xac, 2]) = Inr (300, cur_new [0xac, 2]\<lparr>cur_offset := 2\<rparr>)"
proof -
  have wf: "cur_wf (cur_new [0xac, 2])" by (simp add: usize_max_def)
  have "reads (cur_new [0xac, 2]) (write_uleb 300) (cur_new [0xac, 2]\<lparr>cur_offset := 2\<rparr>)"
    by (simp add: write_uleb.simps reads_def cur_wf_def cur_new_def cur_rest_def usize_max_def)
  then show ?thesis using integers_strict [OF wf] wf by blast
qed

end
