(* ===== verification/Value_Codec.thy ===== *)
theory Value_Codec
  imports Primitives
begin

text \<open>
  The canonical frame of one generic value, \<open>uste-types/src/codec.rs\<close>: the measuring pass, the
  encoder and the strict decoder.  The decoder threads the cursor together with the number of
  nodes already used.  The locale \<open>budget_codec\<close> is the contract of a decoder under the node
  budget; the payload decoder keeps it at every admissible depth, by induction on the depth
  that is left.
\<close>

definition MAGIC :: bytes where "MAGIC = [0x55, 0x53, 0x54, 0x45]"
definition VALUE_RECORD_KIND :: u8 where "VALUE_RECORD_KIND = 1"
definition FORMAT_MAJOR :: u8 where "FORMAT_MAJOR = 1"
definition FORMAT_MINOR :: u8 where "FORMAT_MINOR = 0"
definition MAX_VALUE_PAYLOAD :: nat where "MAX_VALUE_PAYLOAD = 16 * 1024 * 1024"

definition NULL_TAG :: u8 where "NULL_TAG = 0x00"
definition FALSE_TAG :: u8 where "FALSE_TAG = 0x01"
definition TRUE_TAG :: u8 where "TRUE_TAG = 0x02"
definition UNSIGNED_TAG :: u8 where "UNSIGNED_TAG = 0x03"
definition SIGNED_TAG :: u8 where "SIGNED_TAG = 0x04"
definition BYTES_TAG :: u8 where "BYTES_TAG = 0x05"
definition STRING_TAG :: u8 where "STRING_TAG = 0x06"
definition LIST_TAG :: u8 where "LIST_TAG = 0x07"
definition MAP_TAG :: u8 where "MAP_TAG = 0x08"
definition INSTANT_TAG :: u8 where "INSTANT_TAG = 0x09"
definition RECORD_REF_TAG :: u8 where "RECORD_REF_TAG = 0x0a"

lemmas value_tags = NULL_TAG_def FALSE_TAG_def TRUE_TAG_def UNSIGNED_TAG_def SIGNED_TAG_def
  BYTES_TAG_def STRING_TAG_def LIST_TAG_def MAP_TAG_def INSTANT_TAG_def RECORD_REF_TAG_def

subsection \<open>Measuring\<close>

definition add_len :: "nat \<Rightarrow> nat \<Rightarrow> encode_error + nat" where
  "add_len tot amount =
     rbind (ok_or (checked_add tot amount) (EPayloadTooLarge usize_max MAX_VALUE_PAYLOAD)) (\<lambda>tot.
     rbind (ensure (tot \<le> MAX_VALUE_PAYLOAD) (EPayloadTooLarge tot MAX_VALUE_PAYLOAD)) (\<lambda>_.
     Inr tot))"

fun measure_value :: "val \<Rightarrow> nat \<times> nat \<Rightarrow> encode_error + nat \<times> nat" where
  "measure_value v (tot, nodes) =
     (let nodes = saturating_add nodes 1 in
      rbind (ensure (nodes \<le> MAX_VALUE_NODES) (ETooManyValueNodes nodes MAX_VALUE_NODES)) (\<lambda>_.
      rbind (add_len tot 1) (\<lambda>tot.
      case v of
        VNull \<Rightarrow> Inr (tot, nodes)
      | VBool b \<Rightarrow> Inr (tot, nodes)
      | VUnsigned number \<Rightarrow>
          rbind (add_len tot (uleb_len number)) (\<lambda>tot. Inr (tot, nodes))
      | VSigned number \<Rightarrow>
          rbind (add_len tot (1 + uleb_len (snd (signed_parts number)))) (\<lambda>tot. Inr (tot, nodes))
      | VBytes bs \<Rightarrow>
          rbind (add_len tot (uleb_len (word_of_nat (length bs)))) (\<lambda>tot.
          rbind (add_len tot (length bs)) (\<lambda>tot. Inr (tot, nodes)))
      | VString s \<Rightarrow>
          rbind (add_len tot (uleb_len (word_of_nat (length s)))) (\<lambda>tot.
          rbind (add_len tot (length s)) (\<lambda>tot. Inr (tot, nodes)))
      | VList vs \<Rightarrow>
          rbind (add_len tot (uleb_len (word_of_nat (length vs)))) (\<lambda>tot.
          rfold (\<lambda>child st. measure_value child st) vs (tot, nodes))
      | VMap es \<Rightarrow>
          rbind (add_len tot (uleb_len (word_of_nat (length es)))) (\<lambda>tot.
          rfold (\<lambda>entry st.
            rbind (add_len (fst st) (uleb_len (word_of_nat (length (fst entry))))) (\<lambda>tot.
            rbind (add_len tot (length (fst entry))) (\<lambda>tot.
            measure_value (snd entry) (tot, snd st)))) es (tot, nodes))
      | VInstant i \<Rightarrow>
          rbind (add_len tot (1 + uleb_len (snd (signed_parts (instant_seconds i))))) (\<lambda>tot.
          rbind (add_len tot (uleb_len (word_of_nat (instant_nanoseconds i)))) (\<lambda>tot.
          Inr (tot, nodes)))
      | VRecordRef r \<Rightarrow> rbind (add_len tot (3 * 17)) (\<lambda>tot. Inr (tot, nodes)))))"

declare measure_value.simps [simp del]

definition payload_len :: "val \<Rightarrow> encode_error + nat" where
  "payload_len v = rbind (measure_value v (0, 0)) (\<lambda>(tot, nodes). Inr tot)"

definition encoded_len :: "val \<Rightarrow> encode_error + nat" where
  "encoded_len v =
     rbind (payload_len v) (\<lambda>payload.
     ok_or (checked_add (length MAGIC + 3 + uleb_len (word_of_nat payload)) payload)
       (EPayloadTooLarge usize_max MAX_VALUE_PAYLOAD))"

subsection \<open>Encoding\<close>

fun encode_payload :: "val \<Rightarrow> bytes" where
  "encode_payload VNull = [NULL_TAG]"
| "encode_payload (VBool b) = [if b then TRUE_TAG else FALSE_TAG]"
| "encode_payload (VUnsigned number) = UNSIGNED_TAG # write_uleb number"
| "encode_payload (VSigned number) = SIGNED_TAG # write_signed number"
| "encode_payload (VBytes bs) = BYTES_TAG # write_length (length bs) @ bs"
| "encode_payload (VString s) = STRING_TAG # write_length (length s) @ s"
| "encode_payload (VList vs) =
     LIST_TAG # write_length (length vs) @ concat (map encode_payload vs)"
| "encode_payload (VMap es) =
     MAP_TAG # write_length (length es)
       @ concat (map (\<lambda>(k, v). write_length (length k) @ k @ encode_payload v) es)"
| "encode_payload (VInstant i) = INSTANT_TAG # write_instant i"
| "encode_payload (VRecordRef r) = RECORD_REF_TAG # write_record_ref r"

definition encode_value :: "(nat \<Rightarrow> bool) \<Rightarrow> val \<Rightarrow> encode_error + bytes" where
  "encode_value reserve v =
     rbind (payload_len v) (\<lambda>payload.
     let capacity = length MAGIC + 3 + uleb_len (word_of_nat payload) + payload in
     rbind (ensure (reserve capacity) EResourceLimit) (\<lambda>_.
     Inr (MAGIC @ [VALUE_RECORD_KIND, FORMAT_MAJOR, FORMAT_MINOR]
            @ write_uleb (word_of_nat payload) @ encode_payload v)))"

subsection \<open>Decoding\<close>

type_synonym dstate = "cursor \<times> nat"

text \<open>
  The loop of a map: each key is read, compared with the last key kept, and then its value is
  decoded.
\<close>

fun entries_loop ::
  "(cursor \<Rightarrow> decode_error + bytes \<times> cursor) \<Rightarrow> (dstate \<Rightarrow> decode_error + 'v \<times> dstate) \<Rightarrow>
   nat \<Rightarrow> (bytes \<times> 'v) list \<Rightarrow> dstate \<Rightarrow> decode_error + (bytes \<times> 'v) list \<times> dstate" where
  "entries_loop rd dec 0 entries st = Inr (entries, st)"
| "entries_loop rd dec (Suc n) entries (c, used) =
     rbind (rd c) (\<lambda>(key, c).
     rbind (ensure (entries = [] \<or> \<not> key \<le> fst (last entries)) DMapKeysOutOfOrder) (\<lambda>_.
     rbind (dec (c, used)) (\<lambda>(v, st).
     entries_loop rd dec n (entries @ [(key, v)]) st)))"

lemma entries_loop_cong [fundef_cong]:
  assumes "rd = rd'" "n = n'" "es = es'" "st = st'" "\<And>u. dec u = dec' u"
  shows "entries_loop rd dec n es st = entries_loop rd' dec' n' es' st'"
proof -
  have "dec = dec'" using assms(5) by auto
  with assms(1-4) show ?thesis by simp
qed

text \<open>The checks of a list and of a map before their first child, and the reservation.\<close>

definition container_bounds :: "nat \<Rightarrow> dstate \<Rightarrow> decode_error + nat \<times> nat \<times> cursor" where
  "container_bounds parent_depth st =
     (case st of (c, used) \<Rightarrow>
     rbind (check_depth parent_depth) (\<lambda>depth.
     rbind (read_collection_length c) (\<lambda>(count, c).
     rbind (ensure (count \<le> cur_remaining c) DUnexpectedEof) (\<lambda>_.
     rbind (require_nodes used count) (\<lambda>_. Inr (depth, count, c))))))"

definition container_header :: "allocator \<Rightarrow> nat \<Rightarrow> dstate \<Rightarrow> decode_error + nat \<times> nat \<times> cursor" where
  "container_header alloc parent_depth st =
     rbind (container_bounds parent_depth st) (\<lambda>(depth, count, c).
     rbind (try_reserve alloc c count) (\<lambda>_. Inr (depth, count, c)))"

lemma container_bounds_depth:
  "container_bounds p st = Inr (d, n, c) \<Longrightarrow> d = Suc p \<and> d \<le> MAX_NESTING_DEPTH"
  by (auto simp: container_bounds_def rbind_iffs split: prod.splits)

lemma container_header_depth:
  "container_header alloc p st = Inr (d, n, c) \<Longrightarrow> d = Suc p \<and> d \<le> MAX_NESTING_DEPTH"
  by (auto simp: container_header_def rbind_iffs dest: container_bounds_depth)

lemma container_header_granted [simp]: "container_header granted p st = container_bounds p st"
  by (cases "container_bounds p st") (auto simp: container_header_def)

definition decode_list ::
  "allocator \<Rightarrow> (nat \<Rightarrow> dstate \<Rightarrow> decode_error + val \<times> dstate) \<Rightarrow> nat \<Rightarrow> dstate \<Rightarrow>
   decode_error + val \<times> dstate" where
  "decode_list alloc dec parent_depth st =
     rbind (container_header alloc parent_depth st) (\<lambda>(depth, count, c).
     rbind (rrepeat count (dec depth) (c, snd st)) (\<lambda>(vs, st).
     Inr (VList vs, st)))"

definition decode_map ::
  "allocator \<Rightarrow> (nat \<Rightarrow> dstate \<Rightarrow> decode_error + val \<times> dstate) \<Rightarrow> nat \<Rightarrow> dstate \<Rightarrow>
   decode_error + val \<times> dstate" where
  "decode_map alloc dec parent_depth st =
     rbind (container_header alloc parent_depth st) (\<lambda>(depth, count, c).
     rbind (entries_loop (read_string alloc) (dec depth) count [] (c, snd st)) (\<lambda>(es, st).
     Inr (VMap es, st)))"

lemma decode_list_cong [fundef_cong]:
  assumes "alloc = alloc'" "p = p'" "st = st'"
    "\<And>d u. d = Suc p' \<Longrightarrow> d \<le> MAX_NESTING_DEPTH \<Longrightarrow> dec d u = dec' d u"
  shows "decode_list alloc dec p st = decode_list alloc' dec' p' st'"
proof -
  have "rrepeat n (dec d) s = rrepeat n (dec' d) s"
    if "container_header alloc' p' st' = Inr (d, n, c)" for d n c s
    using container_header_depth [OF that] assms(4) by (intro rrepeat_cong) auto
  then show ?thesis
    unfolding decode_list_def assms(1-3) by (intro rbind_cong refl) auto
qed

lemma decode_map_cong [fundef_cong]:
  assumes "alloc = alloc'" "p = p'" "st = st'"
    "\<And>d u. d = Suc p' \<Longrightarrow> d \<le> MAX_NESTING_DEPTH \<Longrightarrow> dec d u = dec' d u"
  shows "decode_map alloc dec p st = decode_map alloc' dec' p' st'"
proof -
  have "entries_loop rd (dec d) n es s = entries_loop rd (dec' d) n es s"
    if "container_header alloc' p' st' = Inr (d, n, c)" for d n c s es rd
    using container_header_depth [OF that] assms(4) by (intro entries_loop_cong) auto
  then show ?thesis
    unfolding decode_map_def assms(1-3) by (intro rbind_cong refl) auto
qed

function decode_payload :: "allocator \<Rightarrow> nat \<Rightarrow> dstate \<Rightarrow> decode_error + val \<times> dstate" where
  "decode_payload alloc parent_depth (c, used) =
     rbind (cur_byte c) (\<lambda>(tag, c).
     rbind (take_node used) (\<lambda>used.
     if tag = NULL_TAG then Inr (VNull, c, used)
     else if tag = FALSE_TAG then Inr (VBool False, c, used)
     else if tag = TRUE_TAG then Inr (VBool True, c, used)
     else if tag = UNSIGNED_TAG then rbind (read_uleb c) (\<lambda>(n, c). Inr (VUnsigned n, c, used))
     else if tag = SIGNED_TAG then rbind (read_signed c) (\<lambda>(i, c). Inr (VSigned i, c, used))
     else if tag = BYTES_TAG then
       rbind (read_inline_length c) (\<lambda>(n, c).
       rbind (cur_take n c) (\<lambda>(bs, c).
       rbind (try_reserve alloc c n) (\<lambda>_. Inr (VBytes bs, c, used))))
     else if tag = STRING_TAG then
       rbind (read_string alloc c) (\<lambda>(s, c). Inr (VString s, c, used))
     else if tag = LIST_TAG then decode_list alloc (decode_payload alloc) parent_depth (c, used)
     else if tag = MAP_TAG then decode_map alloc (decode_payload alloc) parent_depth (c, used)
     else if tag = INSTANT_TAG then rbind (read_instant c) (\<lambda>(i, c). Inr (VInstant i, c, used))
     else if tag = RECORD_REF_TAG then
       rbind (read_record_ref c) (\<lambda>(r, c). Inr (VRecordRef r, c, used))
     else Inl (DInvalidValueTag tag)))"
  by pat_completeness auto
termination
  by (relation "measure (\<lambda>(alloc, p, st). Suc MAX_NESTING_DEPTH - p)")
    auto

declare decode_payload.simps [simp del]

definition frame_payload :: "bytes \<Rightarrow> decode_error + bytes" where
  "frame_payload input =
     rbind (cur_take (length MAGIC) (cur_new input)) (\<lambda>(magic, frame).
     rbind (ensure (magic = MAGIC) DInvalidMagic) (\<lambda>_.
     rbind (cur_byte frame) (\<lambda>(record_kind, frame).
     rbind (cur_byte frame) (\<lambda>(major, frame).
     rbind (cur_byte frame) (\<lambda>(minor, frame).
     rbind (ensure (record_kind = VALUE_RECORD_KIND \<and> major = FORMAT_MAJOR \<and> minor \<le> FORMAT_MINOR)
       (DUnsupportedVersion record_kind major minor)) (\<lambda>_.
     rbind (read_length frame) (\<lambda>(declared, frame).
     rbind (ensure (declared \<le> MAX_VALUE_PAYLOAD) (DPayloadTooLarge declared MAX_VALUE_PAYLOAD)) (\<lambda>_.
     rbind (cur_take declared frame) (\<lambda>(payload_bytes, frame).
     rbind (ensure (cur_remaining frame = 0) DTrailingBytes) (\<lambda>_.
     Inr payload_bytes))))))))))"

definition decode_value :: "allocator \<Rightarrow> bytes \<Rightarrow> decode_error + val" where
  "decode_value alloc input =
     rbind (frame_payload input) (\<lambda>payload_bytes.
     rbind (decode_payload alloc 0 (cur_new payload_bytes, 0)) (\<lambda>(v, payload, used).
     rbind (ensure (cur_remaining payload = 0) DTrailingBytes) (\<lambda>_.
     Inr v)))"

subsection \<open>The measuring pass computes the length of the payload\<close>

lemma add_len_iff [simp]: "add_len t a = Inr t' \<longleftrightarrow> t' = t + a \<and> t' \<le> MAX_VALUE_PAYLOAD"
  by (auto simp: add_len_def rbind_iffs MAX_VALUE_PAYLOAD_def usize_max_def)

lemma length_write_length: "uleb_len (word_of_nat n) = length (write_length n)"
  by (simp add: write_length_def length_write_uleb)

lemma length_write_signed: "Suc (uleb_len (snd (signed_parts i))) = length (write_signed i)"
  by (simp add: write_signed_def length_write_uleb split: prod.splits)

lemma length_write_record_ref: "record_ref_ok r \<Longrightarrow> length (write_record_ref r) = 51"
  by (simp add: write_record_ref_def write_identity_def record_ref_ok_def namespace_ref_ok_def
      identity_ok_def rr_database_def rr_namespace_def)

lemma rfold_two_counters:
  fixes cost len :: "'a \<Rightarrow> nat"
  assumes "\<And>x t n t' n'. x \<in> set xs \<Longrightarrow> t \<le> T \<Longrightarrow> n \<le> N \<Longrightarrow>
    f x (t, n) = Inr (t', n') \<longleftrightarrow> t' = t + len x \<and> t' \<le> T \<and> n' = n + cost x \<and> n' \<le> N"
  shows "t \<le> T \<Longrightarrow> n \<le> N \<Longrightarrow> rfold f xs (t, n) = Inr (t', n') \<longleftrightarrow>
    t' = t + sum_list (map len xs) \<and> t' \<le> T \<and> n' = n + sum_list (map cost xs) \<and> n' \<le> N"
  using assms
proof (induction xs arbitrary: t n)
  case (Cons x xs)
  have IH: "u \<le> T \<Longrightarrow> m \<le> N \<Longrightarrow> rfold f xs (u, m) = Inr (t', n') \<longleftrightarrow>
      t' = u + sum_list (map len xs) \<and> t' \<le> T \<and> n' = m + sum_list (map cost xs) \<and> n' \<le> N" for u m
    using Cons.IH Cons.prems(3) by simp
  have step: "f x (t, n) = Inr (u, m) \<longleftrightarrow> u = t + len x \<and> u \<le> T \<and> m = n + cost x \<and> m \<le> N" for u m
    using Cons.prems by simp
  show ?case using IH by (auto simp: rbind_iffs step)
qed auto

lemma measure_value_iff:
  "value_wf v \<Longrightarrow> t \<le> MAX_VALUE_PAYLOAD \<Longrightarrow> n \<le> MAX_VALUE_NODES \<Longrightarrow>
   measure_value v (t, n) = Inr (t', n') \<longleftrightarrow>
     t' = t + length (encode_payload v) \<and> t' \<le> MAX_VALUE_PAYLOAD
     \<and> n' = n + node_count v \<and> n' \<le> MAX_VALUE_NODES"
proof (induction v arbitrary: t n t' n')
  case (VList vs)
  have sat: "saturating_add n 1 = Suc n"
    using VList.prems by (simp add: saturating_add_def value_limits)
  have "rfold measure_value vs (u, m) = Inr (t', n') \<longleftrightarrow>
      t' = u + sum_list (map (\<lambda>v. length (encode_payload v)) vs) \<and> t' \<le> MAX_VALUE_PAYLOAD
      \<and> n' = m + sum_list (map node_count vs) \<and> n' \<le> MAX_VALUE_NODES"
    if "u \<le> MAX_VALUE_PAYLOAD" "m \<le> MAX_VALUE_NODES" for u m
    using that VList by (intro rfold_two_counters) auto
  moreover have "measure_value (VList vs) (t, n) = Inr (t', n') \<longleftrightarrow>
      Suc n \<le> MAX_VALUE_NODES \<and> Suc t + length (write_length (length vs)) \<le> MAX_VALUE_PAYLOAD
      \<and> rfold measure_value vs (Suc t + length (write_length (length vs)), Suc n) = Inr (t', n')"
    unfolding measure_value.simps [of "VList vs"] Let_def sat val.case length_write_length
    by (auto simp: rbind_iffs)
  ultimately show ?case by (auto simp: length_concat o_def)
next
  case (VMap es)
  have sat: "saturating_add n 1 = Suc n"
    using VMap.prems by (simp add: saturating_add_def value_limits)
  define f where "f = (\<lambda>(entry :: bytes \<times> val) st.
      rbind (add_len (fst st) (length (write_length (length (fst entry))))) (\<lambda>tot.
      rbind (add_len tot (length (fst entry))) (\<lambda>tot. measure_value (snd entry) (tot, snd st))))"
  have "rfold f es (u, m) = Inr (t', n') \<longleftrightarrow>
      t' = u + sum_list (map (\<lambda>e. length (write_length (length (fst e))) + length (fst e)
             + length (encode_payload (snd e))) es) \<and> t' \<le> MAX_VALUE_PAYLOAD
      \<and> n' = m + sum_list (map (\<lambda>e. node_count (snd e)) es) \<and> n' \<le> MAX_VALUE_NODES"
    if "u \<le> MAX_VALUE_PAYLOAD" "m \<le> MAX_VALUE_NODES" for u m
    using that VMap
    by (intro rfold_two_counters) (fastforce simp: f_def rbind_iffs snds.simps)+
  moreover have "measure_value (VMap es) (t, n) = Inr (t', n') \<longleftrightarrow>
      Suc n \<le> MAX_VALUE_NODES \<and> Suc t + length (write_length (length es)) \<le> MAX_VALUE_PAYLOAD
      \<and> rfold f es (Suc t + length (write_length (length es)), Suc n) = Inr (t', n')"
    unfolding measure_value.simps [of "VMap es"] Let_def sat val.case length_write_length f_def
    by (auto simp: rbind_iffs)
  ultimately show ?case by (auto simp: length_concat o_def case_prod_beta' add.assoc)
qed (subst measure_value.simps;
    auto simp: Let_def rbind_iffs saturating_add_def value_limits length_write_length
      length_write_signed length_write_uleb length_write_record_ref write_instant_def)+

lemma entries_loop_extends:
  "entries_loop rd dec n acc st = Inr (es, st') \<Longrightarrow> \<exists>t. es = acc @ t \<and> length t = n"
proof (induction n arbitrary: acc st)
  case (Suc n)
  obtain c u where st: "st = (c, u)" by (cases st)
  from Suc.prems obtain k v s where "entries_loop rd dec n (acc @ [(k, v)]) s = Inr (es, st')"
    by (auto simp: st rbind_eq_Inr)
  from Suc.IH [OF this] show ?case by auto
qed simp

lemma entries_loop_Suc_iff:
  "entries_loop rd dec (Suc n) acc (c, u) = Inr (acc @ es, st) \<longleftrightarrow>
     (\<exists>k m v s ys. es = (k, v) # ys \<and> rd c = Inr (k, m) \<and> (acc = [] \<or> fst (last acc) < k)
        \<and> dec (m, u) = Inr (v, s)
        \<and> entries_loop rd dec n (acc @ [(k, v)]) s = Inr (acc @ (k, v) # ys, st))"
  (is "?l \<longleftrightarrow> ?r")
proof
  assume ?l
  then obtain k m v s where step: "rd c = Inr (k, m)" "acc = [] \<or> fst (last acc) < k"
      "dec (m, u) = Inr (v, s)" "entries_loop rd dec n (acc @ [(k, v)]) s = Inr (acc @ es, st)"
    by (auto simp: rbind_eq_Inr not_le)
  moreover obtain ys where "es = (k, v) # ys"
    using entries_loop_extends [OF step(4)] by auto
  ultimately show ?r by blast
qed (auto simp: not_le)

subsection \<open>The contract of a decoder under the node budget\<close>

locale budget_codec =
  fixes enc :: "'a \<Rightarrow> bytes"
    and dec :: "dstate \<Rightarrow> decode_error + 'a \<times> dstate"
    and ok :: "'a \<Rightarrow> bool"
    and cost :: "'a \<Rightarrow> nat"
  assumes dec_iff: "cur_wf c \<Longrightarrow> u \<le> MAX_VALUE_NODES \<Longrightarrow>
    dec (c, u) = Inr (x, c', u') \<longleftrightarrow>
      ok x \<and> reads c (enc x) c' \<and> u' = u + cost x \<and> u' \<le> MAX_VALUE_NODES"
    and enc_progress: "enc x \<noteq> []"
    and cost_progress: "0 < cost x"
begin

lemma rrepeat_iff:
  "cur_wf c \<Longrightarrow> u \<le> MAX_VALUE_NODES \<Longrightarrow>
   rrepeat n dec (c, u) = Inr (xs, c', u') \<longleftrightarrow>
     length xs = n \<and> (\<forall>x \<in> set xs. ok x) \<and> reads c (concat (map enc xs)) c'
     \<and> u' = u + sum_list (map cost xs) \<and> u' \<le> MAX_VALUE_NODES"
proof (induction n arbitrary: c u xs)
  case 0
  then show ?case by auto
next
  case (Suc n)
  show ?case
  proof (cases xs)
    case (Cons x ys)
    have "rrepeat (Suc n) dec (c, u) = Inr (xs, c', u') \<longleftrightarrow>
        (\<exists>m w. dec (c, u) = Inr (x, m, w) \<and> rrepeat n dec (m, w) = Inr (ys, c', u'))"
      by (auto simp: Cons rbind_eq_Inr)
    also have "\<dots> \<longleftrightarrow> (\<exists>m. ok x \<and> reads c (enc x) m \<and> u + cost x \<le> MAX_VALUE_NODES
        \<and> rrepeat n dec (m, u + cost x) = Inr (ys, c', u'))"
      by (auto simp: dec_iff [OF Suc.prems])
    also have "\<dots> \<longleftrightarrow> (\<exists>m. ok x \<and> reads c (enc x) m \<and> u + cost x \<le> MAX_VALUE_NODES
        \<and> length ys = n \<and> (\<forall>x \<in> set ys. ok x) \<and> reads m (concat (map enc ys)) c'
        \<and> u' = u + cost x + sum_list (map cost ys) \<and> u' \<le> MAX_VALUE_NODES)"
      using Suc.IH reads_wf by blast
    also have "\<dots> \<longleftrightarrow> length xs = Suc n \<and> (\<forall>x \<in> set xs. ok x) \<and> reads c (concat (map enc xs)) c'
        \<and> u' = u + sum_list (map cost xs) \<and> u' \<le> MAX_VALUE_NODES"
      by (auto simp: Cons reads_append)
    finally show ?thesis .
  qed (auto simp: rbind_eq_Inr)
qed

lemma entries_loop_iff:
  "cur_wf c \<Longrightarrow> u \<le> MAX_VALUE_NODES \<Longrightarrow>
   entries_loop read_str dec n acc (c, u) = Inr (acc @ es, c', u') \<longleftrightarrow>
     length es = n \<and> (\<forall>(k, v) \<in> set es. string_ok k \<and> ok v)
     \<and> sorted_wrt (<) ((if acc = [] then [] else [fst (last acc)]) @ map fst es)
     \<and> reads c (concat (map (\<lambda>(k, v). write_str k @ enc v) es)) c'
     \<and> u' = u + sum_list (map (\<lambda>(k, v). cost v) es) \<and> u' \<le> MAX_VALUE_NODES"
  (is "_ \<Longrightarrow> _ \<Longrightarrow> ?P n acc c u es \<longleftrightarrow> ?Q n acc c u es")
proof (induction n arbitrary: c u acc es)
  case 0
  then show ?case by auto
next
  case (Suc n)
  show ?case
  proof (cases es)
    case Nil
    then show ?thesis unfolding entries_loop_Suc_iff by simp
  next
    case (Cons e ys)
    obtain k v where e: "e = (k, v)" by (cases e)
    have head: "dec (m, u) = Inr (v, m', w) \<longleftrightarrow>
        ok v \<and> reads m (enc v) m' \<and> w = u + cost v \<and> w \<le> MAX_VALUE_NODES"
      if "reads c bs m" for bs m m' w
      using reads_wf [OF that] Suc.prems(2) by (simp add: dec_iff)
    have rest: "entries_loop read_str dec n (acc @ [(k, v)]) (m', u + cost v)
          = Inr (acc @ (k, v) # ys, c', u') \<longleftrightarrow>
        length ys = n \<and> (\<forall>(k, v) \<in> set ys. string_ok k \<and> ok v) \<and> sorted_wrt (<) (k # map fst ys)
        \<and> reads m' (concat (map (\<lambda>(k, v). write_str k @ enc v) ys)) c'
        \<and> u' = u + cost v + sum_list (map (\<lambda>(k, v). cost v) ys) \<and> u' \<le> MAX_VALUE_NODES"
      if "reads m bs m'" "u + cost v \<le> MAX_VALUE_NODES" for m bs m'
      using Suc.IH [of m' "u + cost v" "acc @ [(k, v)]" ys] reads_wf [OF that(1)] that(2) by simp
    show ?thesis
    proof
      assume "entries_loop read_str dec (Suc n) acc (c, u) = Inr (acc @ es, c', u')"
      then obtain m m' w where r: "read_str c = Inr (k, m)" and k: "acc = [] \<or> fst (last acc) < k"
        and d: "dec (m, u) = Inr (v, m', w)"
        and l: "entries_loop read_str dec n (acc @ [(k, v)]) (m', w) = Inr (acc @ (k, v) # ys, c', u')"
        unfolding entries_loop_Suc_iff by (auto simp: Cons e)
      have rd: "string_ok k" "reads c (write_str k) m" using r str.enc_dec Suc.prems(1) by blast+
      have dv: "ok v" "reads m (enc v) m'" "w = u + cost v" "w \<le> MAX_VALUE_NODES"
        using d head [OF rd(2)] by blast+
      then show "?Q (Suc n) acc c u es"
        using rd k l rest [OF dv(2)] unfolding Cons e
        by (auto simp: reads_append intro: order.strict_trans)
    next
      assume q: "?Q (Suc n) acc c u es"
      then obtain m m' where m: "reads c (write_str k) m" "reads m (enc v) m'"
          "reads m' (concat (map (\<lambda>(k, v). write_str k @ enc v) ys)) c'"
        by (auto simp: Cons e reads_append)
      have k: "acc = [] \<or> fst (last acc) < k" "sorted_wrt (<) (k # map fst ys)"
        using q by (cases "acc = []"; simp add: Cons e)+
      have "read_str c = Inr (k, m)" using m(1) q by (intro str.dec_enc) (auto simp: Cons e)
      moreover have "dec (m, u) = Inr (v, m', u + cost v)"
        using m(2) q head [OF m(1)] by (auto simp: Cons e)
      moreover have "entries_loop read_str dec n (acc @ [(k, v)]) (m', u + cost v)
          = Inr (acc @ (k, v) # ys, c', u')"
        using m(3) q k(2) rest [OF m(2)] by (simp add: Cons e)
      ultimately show "entries_loop read_str dec (Suc n) acc (c, u) = Inr (acc @ es, c', u')"
        using k(1) unfolding entries_loop_Suc_iff Cons e by blast
    qed
  qed
qed

lemma list_bounds:
  assumes "reads c (concat (map enc xs)) c'"
  shows "length xs \<le> cur_remaining c" and "length xs \<le> sum_list (map cost xs)"
proof -
  have "length xs \<le> length (concat (map enc xs))"
  proof (induction xs)
    case (Cons x xs)
    then show ?case using enc_progress [of x] by (cases "enc x") auto
  qed simp
  with reads_rest [OF assms] show "length xs \<le> cur_remaining c"
    by (simp add: cur_remaining_rest)
  show "length xs \<le> sum_list (map cost xs)"
  proof (induction xs)
    case (Cons x xs)
    then show ?case using cost_progress [of x] by simp
  qed simp
qed

lemma list_iff:
  assumes "cur_wf c" "u \<le> MAX_VALUE_NODES"
  shows "(\<exists>d n m. container_header granted p (c, u) = Inr (d, n, m)
        \<and> rrepeat n dec (m, u) = Inr (xs, c', u')) \<longleftrightarrow>
     Suc p \<le> MAX_NESTING_DEPTH \<and> length xs \<le> MAX_COLLECTION_ENTRIES \<and> (\<forall>x \<in> set xs. ok x)
     \<and> reads c (write_length (length xs) @ concat (map enc xs)) c'
     \<and> u' = u + sum_list (map cost xs) \<and> u' \<le> MAX_VALUE_NODES"
  (is "?l \<longleftrightarrow> ?r")
proof
  assume ?l
  then obtain n m where h: "container_header granted p (c, u) = Inr (Suc p, n, m)"
    and l: "rrepeat n dec (m, u) = Inr (xs, c', u')"
    using container_header_depth by blast
  from h have d: "Suc p \<le> MAX_NESTING_DEPTH" and rl: "read_collection_length c = Inr (n, m)"
    by (auto simp: container_bounds_def rbind_iffs)
  have "cur_wf m" using rl collection_len.dec_wf assms(1) by blast
  with l d collection_len.enc_dec [OF assms(1) rl] show ?r
    by (auto simp: rrepeat_iff assms(2) reads_append)
next
  assume r: ?r
  then obtain m where m: "reads c (write_length (length xs)) m" "reads m (concat (map enc xs)) c'"
    by (auto simp: reads_append)
  have "container_header granted p (c, u) = Inr (Suc p, length xs, m)"
    using r collection_len.dec_enc [OF _ m(1)] list_bounds [OF m(2)]
    by (auto simp: container_bounds_def rbind_iffs)
  moreover have "rrepeat (length xs) dec (m, u) = Inr (xs, c', u')"
    using r m reads_wf [OF m(1)] assms by (simp add: rrepeat_iff)
  ultimately show ?l by blast
qed

lemma map_bounds:
  assumes "reads c (concat (map (\<lambda>(k, v). write_str k @ enc v) es)) c'"
  shows "length es \<le> cur_remaining c" and "length es \<le> sum_list (map (\<lambda>(k, v). cost v) es)"
proof -
  have "length es \<le> length (concat (map (\<lambda>(k, v). write_str k @ enc v) es))"
  proof (induction es)
    case (Cons e es)
    then show ?case using enc_progress [of "snd e"] by (cases e; cases "enc (snd e)") auto
  qed simp
  with reads_rest [OF assms] show "length es \<le> cur_remaining c"
    by (simp add: cur_remaining_rest)
  show "length es \<le> sum_list (map (\<lambda>(k, v). cost v) es)"
  proof (induction es)
    case (Cons e es)
    then show ?case using cost_progress [of "snd e"] by (cases e) simp
  qed simp
qed

lemma map_iff:
  assumes "cur_wf c" "u \<le> MAX_VALUE_NODES"
  shows "(\<exists>d n m. container_header granted p (c, u) = Inr (d, n, m)
        \<and> entries_loop read_str dec n [] (m, u) = Inr (es, c', u')) \<longleftrightarrow>
     Suc p \<le> MAX_NESTING_DEPTH \<and> length es \<le> MAX_COLLECTION_ENTRIES
     \<and> sorted_wrt (<) (map fst es) \<and> (\<forall>(k, v) \<in> set es. string_ok k \<and> ok v)
     \<and> reads c (write_length (length es) @ concat (map (\<lambda>(k, v). write_str k @ enc v) es)) c'
     \<and> u' = u + sum_list (map (\<lambda>(k, v). cost v) es) \<and> u' \<le> MAX_VALUE_NODES"
  (is "?l \<longleftrightarrow> ?r")
proof
  assume ?l
  then obtain n m where h: "container_header granted p (c, u) = Inr (Suc p, n, m)"
    and l: "entries_loop read_str dec n [] (m, u) = Inr (es, c', u')"
    using container_header_depth by blast
  from h have d: "Suc p \<le> MAX_NESTING_DEPTH" and rl: "read_collection_length c = Inr (n, m)"
    by (auto simp: container_bounds_def rbind_iffs)
  have "cur_wf m" using rl collection_len.dec_wf assms(1) by blast
  with l d collection_len.enc_dec [OF assms(1) rl] entries_loop_iff [of m u n "[]" es] show ?r
    by (simp add: assms(2) reads_append) blast
next
  assume r: ?r
  then obtain m where m: "reads c (write_length (length es)) m"
      "reads m (concat (map (\<lambda>(k, v). write_str k @ enc v) es)) c'"
    by (auto simp: reads_append)
  have "container_header granted p (c, u) = Inr (Suc p, length es, m)"
    using r collection_len.dec_enc [OF _ m(1)] map_bounds [OF m(2)]
    by (auto simp: container_bounds_def rbind_iffs)
  moreover have "entries_loop read_str dec (length es) [] (m, u) = Inr (es, c', u')"
    using r m reads_wf [OF m(1)] assms entries_loop_iff [of m u "length es" "[]" es c' u'] by simp
  ultimately show ?l by blast
qed

end

subsection \<open>The payload decoder keeps the contract\<close>

definition fits :: "nat \<Rightarrow> val \<Rightarrow> bool" where
  "fits p v \<longleftrightarrow> value_wf v \<and> (depth v = 0 \<or> p + depth v \<le> MAX_NESTING_DEPTH)"

lemma fits_VList:
  "fits p (VList vs) \<longleftrightarrow> Suc p \<le> MAX_NESTING_DEPTH \<and> length vs \<le> MAX_COLLECTION_ENTRIES
     \<and> (\<forall>v \<in> set vs. fits (Suc p) v)"
  using fold_max_budget [of "Suc p" "map depth vs" MAX_NESTING_DEPTH] by (auto simp: fits_def)

lemma fits_VMap:
  "fits p (VMap es) \<longleftrightarrow> Suc p \<le> MAX_NESTING_DEPTH \<and> length es \<le> MAX_COLLECTION_ENTRIES
     \<and> sorted_wrt (<) (map fst es) \<and> (\<forall>(k, v) \<in> set es. string_ok k \<and> fits (Suc p) v)"
  using fold_max_budget [of "Suc p" "map (\<lambda>(k, v). depth v) es" MAX_NESTING_DEPTH]
  by (fastforce simp: fits_def)

lemma encode_payload_VMap:
  "encode_payload (VMap es) =
     MAP_TAG # write_length (length es)
       @ concat (map (\<lambda>(k, v). write_str k @ encode_payload v) es)"
  by (simp add: write_str_def)

lemma encode_payload_progress: "encode_payload v \<noteq> []"
  by (cases v) auto

lemma decode_list_iff:
  assumes "cur_wf c" "u \<le> MAX_VALUE_NODES"
    and child: "Suc p \<le> MAX_NESTING_DEPTH \<Longrightarrow>
      budget_codec encode_payload (decode_payload granted (Suc p)) (fits (Suc p)) node_count"
  shows "decode_list granted (decode_payload granted) p (c, u) = Inr (v, c', u') \<longleftrightarrow>
    (\<exists>vs. v = VList vs \<and> fits p v \<and> reads c (write_length (length vs) @ concat (map encode_payload vs)) c'
      \<and> Suc u' = u + node_count v \<and> u' \<le> MAX_VALUE_NODES)"
proof (cases "Suc p \<le> MAX_NESTING_DEPTH")
  case True
  have "decode_list granted (decode_payload granted) p (c, u) = Inr (v, c', u') \<longleftrightarrow>
      (\<exists>vs. v = VList vs \<and> (\<exists>d n m. container_header granted p (c, u) = Inr (d, n, m)
        \<and> rrepeat n (decode_payload granted (Suc p)) (m, u) = Inr (vs, c', u')))"
    by (auto simp: decode_list_def rbind_eq_Inr dest: container_bounds_depth) 
  then show ?thesis
    unfolding budget_codec.list_iff [OF child [OF True] assms(1,2)] by (auto simp: fits_VList)
next
  case False
  then have "decode_list granted (decode_payload granted) p (c, u) \<noteq> Inr (v, c', u')"
    by (auto simp: decode_list_def rbind_eq_Inr dest: container_bounds_depth)
  with False show ?thesis by (auto simp: fits_VList)
qed

lemma decode_map_iff:
  assumes "cur_wf c" "u \<le> MAX_VALUE_NODES"
    and child: "Suc p \<le> MAX_NESTING_DEPTH \<Longrightarrow>
      budget_codec encode_payload (decode_payload granted (Suc p)) (fits (Suc p)) node_count"
  shows "decode_map granted (decode_payload granted) p (c, u) = Inr (v, c', u') \<longleftrightarrow>
    (\<exists>es. v = VMap es \<and> fits p v
      \<and> reads c (write_length (length es) @ concat (map (\<lambda>(k, v). write_str k @ encode_payload v) es)) c'
      \<and> Suc u' = u + node_count v \<and> u' \<le> MAX_VALUE_NODES)"
proof (cases "Suc p \<le> MAX_NESTING_DEPTH")
  case True
  have "decode_map granted (decode_payload granted) p (c, u) = Inr (v, c', u') \<longleftrightarrow>
      (\<exists>es. v = VMap es \<and> (\<exists>d n m. container_header granted p (c, u) = Inr (d, n, m)
        \<and> entries_loop read_str (decode_payload granted (Suc p)) n [] (m, u) = Inr (es, c', u')))"
    by (auto simp: decode_map_def rbind_eq_Inr dest: container_bounds_depth)
  then show ?thesis
    unfolding budget_codec.map_iff [OF child [OF True] assms(1,2)] by (auto simp: fits_VMap)
next
  case False
  then have "decode_map granted (decode_payload granted) p (c, u) \<noteq> Inr (v, c', u')"
    by (auto simp: decode_map_def rbind_eq_Inr dest: container_bounds_depth)
  with False show ?thesis by (auto simp: fits_VMap)
qed

definition read_inline_bytes :: "cursor \<Rightarrow> decode_error + bytes \<times> cursor" where
  "read_inline_bytes c = rbind (read_inline_length c) (\<lambda>(n, c). cur_take n c)"

interpretation inline_bytes:
  strict_codec write_str read_inline_bytes "\<lambda>bs. length bs \<le> MAX_INLINE_BYTES"
proof unfold_locales
  fix c bs c'
  show "read_inline_bytes c = Inr (bs, c')"
    if "length bs \<le> MAX_INLINE_BYTES" "reads c (write_str bs) c'"
    using that inline_len.dec_enc reads_wf [of _ bs c']
    by (auto simp: read_inline_bytes_def write_str_def reads_append cur_take_iff)
  show "length bs \<le> MAX_INLINE_BYTES \<and> reads c (write_str bs) c'"
    if wf: "cur_wf c" and dec: "read_inline_bytes c = Inr (bs, c')"
  proof -
    obtain n m where "read_inline_length c = Inr (n, m)" "cur_take n m = Inr (bs, c')"
      using dec by (auto simp: read_inline_bytes_def rbind_eq_Inr)
    then show ?thesis
      using inline_len.enc_dec [OF wf] inline_len.dec_wf [OF wf]
      by (auto simp: write_str_def cur_take_iff reads_append)
  qed
qed

lemma read_inline_bytes_fold:
  "rbind (read_inline_length c) (\<lambda>(n, c). rbind (cur_take n c) f) = rbind (read_inline_bytes c) f"
  by (simp add: read_inline_bytes_def rbind_assoc case_prod_beta')

lemma reads_tag:
  "bs \<noteq> [] \<Longrightarrow> reads c bs c' \<longleftrightarrow> (\<exists>m. reads c [hd bs] m \<and> reads m (tl bs) c')"
  using reads_Cons [of c "hd bs" "tl bs" c'] by simp

lemma decode_payload_tag:
  assumes "cur_wf c" "u \<le> MAX_VALUE_NODES" "p \<le> MAX_NESTING_DEPTH" "cur_byte c = Inr (tag, m)"
    and child: "Suc p \<le> MAX_NESTING_DEPTH \<Longrightarrow>
      budget_codec encode_payload (decode_payload granted (Suc p)) (fits (Suc p)) node_count"
  shows "decode_payload granted p (c, u) = Inr (v, c', u') \<longleftrightarrow>
    hd (encode_payload v) = tag \<and> fits p v \<and> reads m (tl (encode_payload v)) c'
      \<and> u' = u + node_count v \<and> u' \<le> MAX_VALUE_NODES"
proof (cases "Suc u \<le> MAX_VALUE_NODES")
  case True
  have wf: "cur_wf m" using assms(1,4) reads_wf by (auto simp: cur_byte_iff)
  have tn: "take_node u = Inr (Suc u)" using True by simp
  note lst = decode_list_iff [OF wf True child]
  note mp = decode_map_iff [OF wf True child]
  show ?thesis
    unfolding decode_payload.simps assms(4) tn rbind_Inr prod.case granted_simp read_string_granted
      read_inline_bytes_fold
    using wf True
    by (cases v)
      (auto simp: rbind_eq_Inr lst mp uleb.dec_iff [OF wf] signed.dec_iff [OF wf]
        str.dec_iff [OF wf] instant.dec_iff [OF wf] record_ref.dec_iff [OF wf]
        inline_bytes.dec_iff [OF wf]
        encode_payload_VMap fits_def i128_ok_def value_tags write_str_def simp del: encode_payload.simps(8))
next
  case False
  have "decode_payload granted p (c, u) \<noteq> Inr (v, c', u')"
    using False by (auto simp: decode_payload.simps rbind_eq_Inr)
  moreover have "\<not> u + node_count v \<le> MAX_VALUE_NODES"
    using False node_count_pos [of v] by linarith
  ultimately show ?thesis by blast
qed

lemma payload_codec:
  "p \<le> MAX_NESTING_DEPTH \<Longrightarrow>
   budget_codec encode_payload (decode_payload granted p) (fits p) node_count"
proof (induction "MAX_NESTING_DEPTH - p" arbitrary: p rule: less_induct)
  case less
  have child: "Suc p \<le> MAX_NESTING_DEPTH \<Longrightarrow>
      budget_codec encode_payload (decode_payload granted (Suc p)) (fits (Suc p)) node_count"
    using less.hyps by simp
  show ?case
  proof
    fix c u v c' u'
    assume bounds: "cur_wf c" "u \<le> MAX_VALUE_NODES"
    show "decode_payload granted p (c, u) = Inr (v, c', u') \<longleftrightarrow>
        fits p v \<and> reads c (encode_payload v) c' \<and> u' = u + node_count v \<and> u' \<le> MAX_VALUE_NODES"
    proof (cases "cur_byte c")
      case (Inl e)
      have "\<not> reads c (encode_payload v) c'"
        using Inl bounds cur_byte_iff [of c] by (auto simp: reads_tag [OF encode_payload_progress])
      with Inl show ?thesis by (simp add: decode_payload.simps)
    next
      case (Inr r)
      obtain tag m where r: "r = (tag, m)" by (cases r)
      have tag: "reads c [t] m' \<longleftrightarrow> t = tag \<and> m' = m" for t m'
        using cur_byte_iff [OF bounds(1), of t m'] Inr r by auto
      show ?thesis
        using decode_payload_tag [OF bounds less.prems Inr [unfolded r] child]
        by (auto simp: reads_tag [OF encode_payload_progress] tag)
    qed
  qed (simp_all add: encode_payload_progress)
qed

interpretation payload: budget_codec encode_payload "decode_payload granted 0" "fits 0" node_count
  by (rule payload_codec) simp

end
