(* ===== verification/Value_Frame.thy ===== *)
theory Value_Frame
  imports Value_Codec
begin

text \<open>
  Complete frames: what \<open>encode_value\<close>, \<open>encoded_len\<close> and \<open>decode_value\<close> of
  \<open>uste-types/src/codec.rs\<close> accept and produce, and what a refused reservation can change.
\<close>

subsection \<open>Frames\<close>

lemma reads_cur_byte: "reads c [b] c' \<Longrightarrow> cur_byte c = Inr (b, c')"
  using cur_byte_iff reads_wf by blast

lemma reads_cur_take: "reads c bs c' \<Longrightarrow> cur_take (length bs) c = Inr (bs, c')"
  using cur_take_iff reads_wf by blast

definition frame_bytes :: "bytes \<Rightarrow> bytes" where
  "frame_bytes payload =
     MAGIC @ [VALUE_RECORD_KIND, FORMAT_MAJOR, FORMAT_MINOR] @ write_length (length payload) @ payload"

lemma value_ok_fits: "value_ok v \<longleftrightarrow> fits 0 v \<and> node_count v \<le> MAX_VALUE_NODES"
  by (auto simp: value_ok_def fits_def)

lemma payload_len_iff:
  "value_ok v \<Longrightarrow>
   payload_len v = Inr n \<longleftrightarrow> n = length (encode_payload v) \<and> n \<le> MAX_VALUE_PAYLOAD"
  using measure_value_iff [of v 0 0]
  by (auto simp: payload_len_def rbind_iffs value_ok_def)

lemma length_frame_bytes:
  "length (frame_bytes pb) = length MAGIC + 3 + uleb_len (word_of_nat (length pb)) + length pb"
  by (simp add: frame_bytes_def length_write_length)

lemma encode_value_iff:
  "value_ok v \<Longrightarrow>
   encode_value reserve v = Inr bs \<longleftrightarrow> length (encode_payload v) \<le> MAX_VALUE_PAYLOAD
     \<and> bs = frame_bytes (encode_payload v) \<and> reserve (length bs)"
proof -
  assume ok: "value_ok v"
  have frame: "MAGIC @ [VALUE_RECORD_KIND, FORMAT_MAJOR, FORMAT_MINOR] @ write_uleb (word_of_nat (length x)) @ x
      = frame_bytes x" for x
    by (simp add: frame_bytes_def write_length_def)
  show ?thesis
    unfolding encode_value_def rbind_eq_Inr Let_def payload_len_iff [OF ok]
    by (auto simp del: append.simps append_Cons simp: frame length_frame_bytes)
qed

lemma frame_payload_iff:
  assumes "length input \<le> usize_max"
  shows "frame_payload input = Inr pb \<longleftrightarrow> length pb \<le> MAX_VALUE_PAYLOAD \<and> input = frame_bytes pb"
    (is "?l \<longleftrightarrow> ?r")
proof
  assume ?l
  then obtain m1 k ma mi m2 m3 m4 m5 n where
    t: "cur_take (length MAGIC) (cur_new input) = Inr (MAGIC, m1)"
    and h: "cur_byte m1 = Inr (k, m2)" "cur_byte m2 = Inr (ma, m3)" "cur_byte m3 = Inr (mi, m4)"
      "k = VALUE_RECORD_KIND" "ma = FORMAT_MAJOR" "mi \<le> FORMAT_MINOR"
    and b: "read_length m4 = Inr (n, m5)" "n \<le> MAX_VALUE_PAYLOAD"
    and p: "\<exists>m6. cur_take n m5 = Inr (pb, m6) \<and> cur_remaining m6 = 0"
    by (auto simp: frame_payload_def rbind_eq_Inr)
  obtain m6 where p: "cur_take n m5 = Inr (pb, m6)" "cur_remaining m6 = 0" using p by blast
  have "cur_wf (cur_new input)" using assms by simp
  then have r1: "reads (cur_new input) MAGIC m1" using t cur_take_iff by blast
  then have r2: "reads m1 [VALUE_RECORD_KIND] m2" using h(1,4) reads_wf cur_byte_iff by blast
  then have r3: "reads m2 [FORMAT_MAJOR] m3" using h(2,5) reads_wf cur_byte_iff by blast
  then have r4: "reads m3 [mi] m4" using h(3) reads_wf cur_byte_iff by blast
  then have r5: "reads m4 (write_length n) m5" using b(1) reads_wf len.enc_dec by blast
  then have r6: "reads m5 pb m6" "length pb = n" using p(1) reads_wf cur_take_iff by blast+
  have "mi = FORMAT_MINOR" using h(6) by (simp add: FORMAT_MINOR_def)
  then have "input = frame_bytes pb @ cur_rest m6"
    using reads_rest [OF r1] reads_rest [OF r2] reads_rest [OF r3] reads_rest [OF r4]
      reads_rest [OF r5] reads_rest [OF r6(1)] r6(2)
    by (simp add: frame_bytes_def)
  then show ?r using p(2) b(2) r6(2) by (simp add: cur_remaining_rest)
next
  assume r: ?r
  define e where "e = (cur_new input)\<lparr>cur_offset := length input\<rparr>"
  have "reads (cur_new input) (frame_bytes pb) e"
    using r assms by (simp add: reads_def e_def cur_wf_def cur_new_def cur_rest_def)
  then obtain m1 m2 m3 m4 m5 where m: "reads (cur_new input) MAGIC m1" "reads m1 [VALUE_RECORD_KIND] m2"
      "reads m2 [FORMAT_MAJOR] m3" "reads m3 [FORMAT_MINOR] m4"
      "reads m4 (write_length (length pb)) m5" "reads m5 pb e"
    unfolding frame_bytes_def reads_append
    using reads_append [of _ "[VALUE_RECORD_KIND]" "[FORMAT_MAJOR, FORMAT_MINOR]"]
      reads_append [of _ "[FORMAT_MAJOR]" "[FORMAT_MINOR]"] by auto
  have "length pb \<le> usize_max" using r by (simp add: MAX_VALUE_PAYLOAD_def usize_max_def)
  then have "cur_take (length MAGIC) (cur_new input) = Inr (MAGIC, m1)"
      "cur_byte m1 = Inr (VALUE_RECORD_KIND, m2)" "cur_byte m2 = Inr (FORMAT_MAJOR, m3)"
      "cur_byte m3 = Inr (FORMAT_MINOR, m4)" "read_length m4 = Inr (length pb, m5)"
      "cur_take (length pb) m5 = Inr (pb, e)"
    using m by (simp_all add: reads_cur_byte reads_cur_take len.dec_enc)
  moreover have "cur_remaining e = 0" by (simp add: e_def cur_remaining_def cur_new_def)
  ultimately show ?l using r by (simp add: frame_payload_def)
qed

lemma uleb_len_bound: "unat v < 2 ^ (7 * Suc n) \<Longrightarrow> uleb_len v \<le> Suc n"
proof (induction n arbitrary: v)
  case 0
  then have "\<not> 0x80 \<le> v" by (simp add: word_le_nat_alt)
  then show ?case by (subst uleb_len.simps) simp
next
  case (Suc n)
  have "unat (drop_bit 7 v) = unat v div 2 ^ 7" unfolding unat_drop_bit_eq by (simp add: drop_bit_eq_div)
  also have "\<dots> < 2 ^ (7 * Suc n)"
  proof (rule less_mult_imp_div_less)
    have "(2 :: nat) ^ (7 * Suc (Suc n)) = 2 ^ (7 * Suc n) * 2 ^ 7" by (simp add: power_add)
    with Suc.prems show "unat v < 2 ^ (7 * Suc n) * 2 ^ 7" by simp
  qed
  finally have "uleb_len (drop_bit 7 v) \<le> Suc n" by (rule Suc.IH)
  then show ?case by (subst uleb_len.simps) simp
qed

lemma uleb_len_le: "uleb_len v \<le> 19"
proof -
  have "unat v < 2 ^ 128" using unsigned_less [of v] by simp
  also have "\<dots> \<le> 2 ^ (7 * Suc 18)" by (rule power_increasing) simp_all
  finally show ?thesis using uleb_len_bound [of v 18] by simp
qed

lemma frame_bytes_usize: "length pb \<le> MAX_VALUE_PAYLOAD \<Longrightarrow> length (frame_bytes pb) \<le> usize_max"
  using uleb_len_le [of "word_of_nat (length pb)"]
  by (simp add: length_frame_bytes MAGIC_def MAX_VALUE_PAYLOAD_def usize_max_def)

lemma reads_all_iff:
  assumes "length pb \<le> usize_max"
  shows "(\<exists>c'. reads (cur_new pb) bs c' \<and> cur_remaining c' = 0) \<longleftrightarrow> pb = bs"
proof
  assume "\<exists>c'. reads (cur_new pb) bs c' \<and> cur_remaining c' = 0"
  then show "pb = bs" by (auto simp: cur_remaining_rest dest: reads_rest)
next
  assume "pb = bs"
  then have "reads (cur_new pb) bs ((cur_new pb)\<lparr>cur_offset := length pb\<rparr>)"
    using assms by (simp add: reads_def cur_wf_def cur_new_def cur_rest_def)
  then show "\<exists>c'. reads (cur_new pb) bs c' \<and> cur_remaining c' = 0"
    by (rule_tac x = "(cur_new pb)\<lparr>cur_offset := length pb\<rparr>" in exI)
      (simp add: cur_remaining_def cur_new_def)
qed

lemma decode_value_iff:
  assumes "length input \<le> usize_max"
  shows "decode_value granted input = Inr v \<longleftrightarrow>
    value_ok v \<and> length (encode_payload v) \<le> MAX_VALUE_PAYLOAD
      \<and> input = frame_bytes (encode_payload v)"
proof -
  have whole: "(\<exists>c' u'. decode_payload granted 0 (cur_new pb, 0) = Inr (v, c', u') \<and> cur_remaining c' = 0)
      \<longleftrightarrow> value_ok v \<and> pb = encode_payload v" if "length pb \<le> MAX_VALUE_PAYLOAD" for pb
  proof -
    have usize: "length pb \<le> usize_max"
      using that by (simp add: MAX_VALUE_PAYLOAD_def usize_max_def)
    have "decode_payload granted 0 (cur_new pb, 0) = Inr (v, c', u') \<longleftrightarrow>
        value_ok v \<and> reads (cur_new pb) (encode_payload v) c' \<and> u' = node_count v" for c' u'
      using payload.dec_iff [of "cur_new pb" 0 v c' u'] usize by (auto simp: value_ok_fits)
    then show ?thesis using reads_all_iff [OF usize, of "encode_payload v"] by simp
  qed
  have "decode_value granted input = Inr v \<longleftrightarrow> (\<exists>pb. length pb \<le> MAX_VALUE_PAYLOAD \<and>
      input = frame_bytes pb \<and>
      (\<exists>c' u'. decode_payload granted 0 (cur_new pb, 0) = Inr (v, c', u') \<and> cur_remaining c' = 0))"
    by (auto simp: decode_value_def rbind_eq_Inr frame_payload_iff [OF assms])
  also have "\<dots> \<longleftrightarrow> value_ok v \<and> length (encode_payload v) \<le> MAX_VALUE_PAYLOAD
      \<and> input = frame_bytes (encode_payload v)"
    using whole by blast
  finally show ?thesis .
qed

subsection \<open>A failed reservation only turns the answer into a resource limit\<close>

definition degrades :: "decode_error + 'a \<Rightarrow> decode_error + 'a \<Rightarrow> bool" where
  "degrades r full \<longleftrightarrow> r = full \<or> r = Inl DResourceLimit"

named_theorems degrade_intros \<open>composition of degraded results\<close>

lemma degrades_refl [degrade_intros]: "degrades r r"
  by (simp add: degrades_def)

lemma degrades_rbind [degrade_intros]:
  "degrades r r' \<Longrightarrow> (\<And>x. r' = Inr x \<Longrightarrow> degrades (f x) (g x)) \<Longrightarrow> degrades (rbind r f) (rbind r' g)"
  by (cases r') (auto simp: degrades_def)

lemma degrades_prod [degrade_intros]:
  "(\<And>a b. x = (a, b) \<Longrightarrow> degrades (f a b) (g a b)) \<Longrightarrow>
   degrades (case x of (a, b) \<Rightarrow> f a b) (case x of (a, b) \<Rightarrow> g a b)"
  by (cases x) auto

lemma degrades_if [degrade_intros]:
  "(P \<Longrightarrow> degrades a a') \<Longrightarrow> (\<not> P \<Longrightarrow> degrades b b') \<Longrightarrow>
   degrades (if P then a else b) (if P then a' else b')"
  by simp

lemma degrades_reserve [degrade_intros]: "degrades (try_reserve alloc c n) (try_reserve granted c n)"
  by (auto simp: degrades_def try_reserve_def granted_def ensure_def)

lemma degrades_read_string [degrade_intros]: "degrades (read_string alloc c) (read_string granted c)"
  unfolding read_string_def by (intro degrade_intros)

lemma degrades_header [degrade_intros]:
  "degrades (container_header alloc p st) (container_header granted p st)"
  unfolding container_header_def
  by (intro degrades_rbind degrades_prod degrades_refl degrades_reserve)

lemma degrades_rrepeat [degrade_intros]:
  "(\<And>s. degrades (f s) (g s)) \<Longrightarrow> degrades (rrepeat n f s) (rrepeat n g s)"
proof (induction n arbitrary: s)
  case (Suc n)
  show ?case unfolding rrepeat.simps by (intro degrades_rbind degrades_prod degrades_refl Suc)
qed (simp add: degrades_refl)

lemma degrades_entries_loop [degrade_intros]:
  "(\<And>c. degrades (rd c) (rd' c)) \<Longrightarrow> (\<And>s. degrades (f s) (g s)) \<Longrightarrow>
   degrades (entries_loop rd f n es s) (entries_loop rd' g n es s)"
proof (induction n arbitrary: es s)
  case (Suc n)
  obtain c u where s: "s = (c, u)" by (cases s)
  show ?case
    unfolding s entries_loop.simps by (intro degrades_rbind degrades_prod degrades_refl Suc)
qed (simp add: degrades_refl)

lemma degrades_list:
  assumes "\<And>s. Suc p \<le> MAX_NESTING_DEPTH \<Longrightarrow> degrades (f (Suc p) s) (g (Suc p) s)"
  shows "degrades (decode_list alloc f p st) (decode_list granted g p st)"
  unfolding decode_list_def
  by (intro degrades_rbind degrades_header degrades_prod degrades_rrepeat degrades_refl)
    (auto dest: container_bounds_depth intro: assms)

lemma degrades_map:
  assumes "\<And>s. Suc p \<le> MAX_NESTING_DEPTH \<Longrightarrow> degrades (f (Suc p) s) (g (Suc p) s)"
  shows "degrades (decode_map alloc f p st) (decode_map granted g p st)"
  unfolding decode_map_def
  by (intro degrades_rbind degrades_header degrades_prod degrades_entries_loop degrades_read_string
      degrades_refl)
    (auto dest: container_bounds_depth intro: assms)

lemma degrades_payload: "degrades (decode_payload alloc p st) (decode_payload granted p st)"
proof (induction "Suc MAX_NESTING_DEPTH - p" arbitrary: p st rule: less_induct)
  case less
  obtain c u where st: "st = (c, u)" by (cases st)
  have child: "Suc p \<le> MAX_NESTING_DEPTH \<Longrightarrow>
      degrades (decode_payload alloc (Suc p) s) (decode_payload granted (Suc p) s)" for s
    using less by simp
  show ?case
    unfolding st decode_payload.simps
    by (intro degrades_rbind degrades_prod degrades_if degrades_refl degrades_reserve
        degrades_read_string degrades_list degrades_map child)
qed

lemma degrades_decode_value: "degrades (decode_value alloc input) (decode_value granted input)"
  unfolding decode_value_def 
  by (intro degrades_rbind degrades_prod degrades_refl degrades_payload)

subsection \<open>Properties of complete frames\<close>

text \<open>The example used by the witnesses: a map with a list of integers and a string.\<close>

definition example_value :: val where
  "example_value =
     VMap [([0x61], VList [VUnsigned 300, VSigned (- 5), VNull]), ([0x62], VString [0x78])]"

definition example_frame :: bytes where
  "example_frame =
     [0x55, 0x53, 0x54, 0x45, 1, 1, 0, 18, 8, 2, 1, 0x61, 7, 3, 3, 0xac, 2, 4, 1, 5, 0, 1, 0x62, 6, 1, 0x78]"

lemma example_value_ok: "value_ok example_value"
  by (simp add: example_value_def value_ok_def value_limits string_ok_def utf8_valid.simps)

lemma example_encodes: "encode_value (\<lambda>_. True) example_value = Inr example_frame"
proof -
  have payload: "encode_payload example_value = drop 8 example_frame"
    by (simp add: example_value_def example_frame_def write_length_def write_uleb.simps
        write_signed_def signed_parts_def value_tags)
  have "length (encode_payload example_value) \<le> MAX_VALUE_PAYLOAD"
    by (simp add: payload example_frame_def MAX_VALUE_PAYLOAD_def)
  moreover have "frame_bytes (encode_payload example_value) = example_frame"
    by (simp add: payload frame_bytes_def example_frame_def MAGIC_def VALUE_RECORD_KIND_def
        FORMAT_MAJOR_def FORMAT_MINOR_def write_length_def write_uleb.simps)
  ultimately show ?thesis
    by (simp add: encode_value_iff [OF example_value_ok])
qed

text \<open>
  C1.  Round trip of the canonical codec: every value the checked constructors can build, once
  encoded, is decoded to the same value.
\<close>

theorem decode_encode:
  assumes "constructed v" and "encode_value reserve v = Inr bs"
  shows "decode_value granted bs = Inr v"
  using assms
  by (simp add: decode_value_iff encode_value_iff constructed_value_ok frame_bytes_usize)

theorem decode_encode_witness:
  "constructed example_value \<and> encode_value (\<lambda>_. True) example_value = Inr example_frame
     \<and> decode_value granted example_frame = Inr example_value"
  using decode_encode [OF value_ok_constructed [OF example_value_ok] example_encodes]
    value_ok_constructed [OF example_value_ok] example_encodes by blast

text \<open>
  C2.  Canonicity and validation: an input that decodes, under any allocator, is the encoding of
  the value it decodes to, and that value is one the checked constructors can build.  No two
  frames decode to the same value and no decoded value escapes a limit.
\<close>

theorem decode_canonical:
  assumes "length bs \<le> usize_max" and "decode_value alloc bs = Inr v"
  shows "constructed v \<and> encode_value (\<lambda>_. True) v = Inr bs"
proof -
  have "decode_value granted bs = Inr v"
    using degrades_decode_value [of alloc bs] assms(2) by (simp add: degrades_def)
  then show ?thesis
    using assms(1) by (simp add: decode_value_iff encode_value_iff value_ok_constructed)
qed

theorem decode_canonical_witness:
  "length example_frame \<le> usize_max \<and> decode_value granted example_frame = Inr example_value
     \<and> constructed example_value \<and> encode_value (\<lambda>_. True) example_value = Inr example_frame"
proof -
  have len: "length example_frame \<le> usize_max"
    by (simp add: example_frame_def usize_max_def)
  have dec: "decode_value granted example_frame = Inr example_value"
    using example_encodes len
    by (simp add: decode_value_iff encode_value_iff [OF example_value_ok] example_value_ok)
  show ?thesis using decode_canonical [OF len dec] len dec by blast
qed

text \<open>
  C3.  A refused memory reservation during decoding can only turn the answer into the
  resource-limit error; it never changes the decoded value or the kind of another error.
\<close>

theorem decode_value_allocation:
  "decode_value alloc input = decode_value granted input
     \<or> decode_value alloc input = Inl DResourceLimit"
  using degrades_decode_value [of alloc input] by (simp add: degrades_def)

text \<open>
  C4.  The measuring pass is exact: the computed frame length is the length of the encoding, and
  the two passes fail with the same error.
\<close>

theorem encoded_len_exact:
  assumes "constructed v"
  shows "encoded_len v = rbind (encode_value (\<lambda>_. True) v) (\<lambda>bs. Inr (length bs))"
proof (cases "payload_len v")
  case (Inr n)
  have ok: "value_ok v" using assms by (rule constructed_value_ok)
  have n: "n = length (encode_payload v)" "n \<le> MAX_VALUE_PAYLOAD"
    using Inr payload_len_iff [OF ok] by blast+
  then have "encode_value (\<lambda>_. True) v = Inr (frame_bytes (encode_payload v))"
    by (simp add: encode_value_iff [OF ok])
  then show ?thesis
    using n frame_bytes_usize [of "encode_payload v"] Inr
    by (simp add: encoded_len_def checked_add_def length_frame_bytes)
qed (simp add: encoded_len_def encode_value_def)

theorem encoded_len_exact_witness:
  "constructed example_value \<and> encoded_len example_value = Inr 26"
  using encoded_len_exact [OF value_ok_constructed [OF example_value_ok]] example_encodes
    value_ok_constructed [OF example_value_ok]
  by (simp add: example_frame_def)

end
