(* ===== verification/Borrowed_Codec.thy ===== *)
theory Borrowed_Codec
  imports Value_Frame
begin

text \<open>
  The borrowing decoders of \<open>uste-types/src/codec.rs\<close>: root maps decoded with borrowed keys,
  borrowed strings, recursively borrowed maps, record-reference lists decoded to their final
  form, and the visitor.  \<open>erase\<close> forgets the borrow.  The lemmas show that each of them
  validates exactly as \<open>decode_value\<close> does: the same values are accepted, the same error is
  returned otherwise.
\<close>

datatype borrowed =
    BString bytes
  | BSingletonStringMap bytes bytes
  | BMap "(bytes \<times> borrowed) list"
  | BRecordRefs "record_ref list"
  | BValue val

fun erase :: "borrowed \<Rightarrow> val" where
  "erase (BString s) = VString s"
| "erase (BSingletonStringMap k v) = VMap [(k, VString v)]"
| "erase (BMap es) = VMap (map (\<lambda>(k, b). (k, erase b)) es)"
| "erase (BRecordRefs rs) = VList (map VRecordRef rs)"
| "erase (BValue v) = v"

subsection \<open>The entry loop with a previous key\<close>

fun previous_loop ::
  "(bytes \<Rightarrow> dstate \<Rightarrow> decode_error + 'v \<times> dstate) \<Rightarrow> ('r \<Rightarrow> bytes \<Rightarrow> 'v \<Rightarrow> decode_error + 'r) \<Rightarrow>
   nat \<Rightarrow> bytes option \<Rightarrow> 'r \<Rightarrow> dstate \<Rightarrow> decode_error + 'r \<times> dstate" where
  "previous_loop dec collect 0 previous r st = Inr (r, st)"
| "previous_loop dec collect (Suc n) previous r (c, used) =
     rbind (read_str c) (\<lambda>(key, c).
     rbind (ensure (case previous of None \<Rightarrow> True | Some old \<Rightarrow> \<not> key \<le> old) DMapKeysOutOfOrder) (\<lambda>_.
     rbind (dec key (c, used)) (\<lambda>(v, st).
     rbind (collect r key v) (\<lambda>r.
     previous_loop dec collect n (Some key) r st))))"

lemma previous_loop_cong [fundef_cong]:
  assumes "\<And>k u. dec k u = dec' k u" "collect = collect'" "n = n'" "p = p'" "r = r'" "st = st'"
  shows "previous_loop dec collect n p r st = previous_loop dec' collect' n' p' r' st'"
proof -
  have "dec = dec'" by (intro ext assms(1))
  with assms(2-6) show ?thesis by simp
qed

definition push_entry :: "(bytes \<times> 'v) list \<Rightarrow> bytes \<Rightarrow> 'v \<Rightarrow> decode_error + (bytes \<times> 'v) list" where
  "push_entry entries key v = Inr (entries @ [(key, v)])"

subsection \<open>Borrowed payloads\<close>

definition decode_borrowed_map_payload ::
  "allocator \<Rightarrow> nat \<Rightarrow> dstate \<Rightarrow> decode_error + borrowed \<times> dstate" where
  "decode_borrowed_map_payload alloc dp st =
     (case st of (c, used) \<Rightarrow>
     rbind (cur_peek c) (\<lambda>tag.
     if tag \<noteq> STRING_TAG then
       rbind (decode_payload alloc dp (c, used)) (\<lambda>(v, st). Inr (BValue v, st))
     else
       rbind (take_node used) (\<lambda>used.
       rbind (cur_byte c) (\<lambda>(tag, c).
       rbind (read_str c) (\<lambda>(s, c). Inr (BString s, c, used))))))"

text \<open>
  The entries of a borrowed map, with the recursive decoder of the children as an argument: a
  single string entry is kept flat, any other map becomes a vector of entries.
\<close>

definition borrowed_entries ::
  "allocator \<Rightarrow> (dstate \<Rightarrow> decode_error + borrowed \<times> dstate) \<Rightarrow> nat \<Rightarrow> dstate \<Rightarrow>
   decode_error + borrowed \<times> dstate" where
  "borrowed_entries alloc tree count st =
     (case st of (c, used) \<Rightarrow>
     if count = 1 then
       rbind (read_str c) (\<lambda>(key, c).
       rbind (cur_peek c) (\<lambda>tag.
       if tag = STRING_TAG then
         rbind (take_node used) (\<lambda>used.
         rbind (cur_byte c) (\<lambda>(tag, c).
         rbind (read_str c) (\<lambda>(s, c). Inr (BSingletonStringMap key s, c, used))))
       else
         rbind (try_reserve alloc c 1) (\<lambda>_.
         rbind (tree (c, used)) (\<lambda>(b, st). Inr (BMap [(key, b)], st)))))
     else
       rbind (try_reserve alloc c count) (\<lambda>_.
       rbind (previous_loop (\<lambda>key. tree) push_entry count None [] (c, used)) (\<lambda>(entries, st).
       Inr (BMap entries, st))))"

lemma borrowed_entries_cong [fundef_cong]:
  assumes "alloc = alloc'" "\<And>u. tree u = tree' u" "n = n'" "st = st'"
  shows "borrowed_entries alloc tree n st = borrowed_entries alloc' tree' n' st'"
proof -
  have "tree = tree'" by (intro ext assms(2))
  with assms(1,3,4) show ?thesis by simp
qed

function decode_borrowed_map_tree ::
  "allocator \<Rightarrow> nat \<Rightarrow> dstate \<Rightarrow> decode_error + borrowed \<times> dstate" where
  "decode_borrowed_map_tree alloc dp (c, used) =
     rbind (cur_peek c) (\<lambda>tag.
     if tag = STRING_TAG then decode_borrowed_map_payload alloc dp (c, used)
     else if tag = MAP_TAG then
       rbind (take_node used) (\<lambda>used.
       rbind (cur_byte c) (\<lambda>(tag, c).
       rbind (container_bounds dp (c, used)) (\<lambda>(depth, count, c).
       borrowed_entries alloc (\<lambda>st. decode_borrowed_map_tree alloc depth st) count (c, used))))
     else rbind (decode_payload alloc dp (c, used)) (\<lambda>(v, st). Inr (BValue v, st)))"
  by pat_completeness auto
termination
  by (relation "measure (\<lambda>(alloc, d, st). Suc MAX_NESTING_DEPTH - d)")
    (auto dest!: container_bounds_depth)

declare decode_borrowed_map_tree.simps [simp del]

fun record_refs_loop ::
  "dstate \<Rightarrow> nat \<Rightarrow> record_ref list \<Rightarrow> dstate \<Rightarrow> decode_error + record_ref list option \<times> dstate" where
  "record_refs_loop original 0 references st = Inr (Some references, st)"
| "record_refs_loop original (Suc n) references (c, used) =
     rbind (cur_peek c) (\<lambda>tag.
     if tag \<noteq> RECORD_REF_TAG then Inr (None, original)
     else
       rbind (take_node used) (\<lambda>used.
       rbind (cur_byte c) (\<lambda>(tag, c).
       rbind (read_record_ref c) (\<lambda>(r, c).
       record_refs_loop original n (references @ [r]) (c, used)))))"

definition decode_borrowed_record_refs ::
  "allocator \<Rightarrow> nat \<Rightarrow> dstate \<Rightarrow> decode_error + record_ref list option \<times> dstate" where
  "decode_borrowed_record_refs alloc dp st =
     (case st of (c, used) \<Rightarrow>
     rbind (cur_peek c) (\<lambda>tag.
     if tag \<noteq> LIST_TAG then Inr (None, c, used)
     else
       rbind (take_node used) (\<lambda>used'.
       rbind (cur_byte c) (\<lambda>(tag, c').
       rbind (container_header alloc dp (c', used')) (\<lambda>(_, count, c').
       record_refs_loop (c, used) count [] (c', used'))))))"

definition decode_selected_borrowed_payload ::
  "allocator \<Rightarrow> bytes list \<Rightarrow> bytes list \<Rightarrow> nat \<Rightarrow> bytes \<Rightarrow> dstate \<Rightarrow> decode_error + borrowed \<times> dstate" where
  "decode_selected_borrowed_payload alloc borrowed_map_fields record_ref_list_fields dp key st =
     rbind (if key \<in> set borrowed_map_fields
            then rbind (cur_peek (fst st)) (\<lambda>tag. Inr (tag = MAP_TAG)) else Inr False) (\<lambda>selected.
     if selected then decode_borrowed_map_tree alloc dp st
     else if key \<in> set record_ref_list_fields then
       rbind (decode_borrowed_record_refs alloc dp st) (\<lambda>(found, st).
       case found of
         Some references \<Rightarrow> Inr (BRecordRefs references, st)
       | None \<Rightarrow> decode_borrowed_map_payload alloc dp st)
     else decode_borrowed_map_payload alloc dp st)"

subsection \<open>Root maps\<close>

definition decode_map_entries_with ::
  "allocator \<Rightarrow> bytes \<Rightarrow> (cursor \<Rightarrow> nat \<Rightarrow> decode_error + 'r) \<Rightarrow>
   (nat \<Rightarrow> bytes \<Rightarrow> dstate \<Rightarrow> decode_error + 'v \<times> dstate) \<Rightarrow>
   ('r \<Rightarrow> bytes \<Rightarrow> 'v \<Rightarrow> decode_error + 'r) \<Rightarrow> decode_error + 'r option" where
  "decode_map_entries_with alloc input initialize decode_entry collect =
     rbind (frame_payload input) (\<lambda>payload_bytes.
     if payload_bytes = [] \<or> hd payload_bytes \<noteq> MAP_TAG then
       rbind (decode_value alloc input) (\<lambda>_. Inr None)
     else
       rbind (cur_byte (cur_new payload_bytes)) (\<lambda>(tag, c).
       rbind (take_node 0) (\<lambda>used.
       rbind (container_bounds 0 (c, used)) (\<lambda>(depth, count, c).
       rbind (initialize c count) (\<lambda>r.
       rbind (previous_loop (decode_entry depth) collect count None r (c, used)) (\<lambda>(r, c, used).
       rbind (ensure (cur_remaining c = 0) DTrailingBytes) (\<lambda>_.
       Inr (Some r))))))))"

definition decode_map_entries ::
  "allocator \<Rightarrow> bytes \<Rightarrow> (nat \<Rightarrow> bytes \<Rightarrow> dstate \<Rightarrow> decode_error + 'v \<times> dstate) \<Rightarrow>
   decode_error + (bytes \<times> 'v) list option" where
  "decode_map_entries alloc input decode_entry =
     decode_map_entries_with alloc input
       (\<lambda>c count. rbind (try_reserve alloc c count) (\<lambda>_. Inr [])) decode_entry push_entry"

definition decode_map_value :: "allocator \<Rightarrow> bytes \<Rightarrow> decode_error + (bytes \<times> val) list option" where
  "decode_map_value alloc input =
     decode_map_entries alloc input (\<lambda>depth key. decode_payload alloc depth)"

definition decode_borrowed_map_value ::
  "allocator \<Rightarrow> bytes \<Rightarrow> decode_error + (bytes \<times> borrowed) list option" where
  "decode_borrowed_map_value alloc input =
     decode_map_entries alloc input (\<lambda>depth key. decode_borrowed_map_payload alloc depth)"

definition decode_borrowed_map_value_with_fields_and_record_refs ::
  "allocator \<Rightarrow> bytes \<Rightarrow> bytes list \<Rightarrow> bytes list \<Rightarrow> decode_error + (bytes \<times> borrowed) list option" where
  "decode_borrowed_map_value_with_fields_and_record_refs alloc input borrowed_map_fields record_ref_list_fields =
     decode_map_entries alloc input
       (decode_selected_borrowed_payload alloc borrowed_map_fields record_ref_list_fields)"

definition decode_borrowed_map_value_with_fields ::
  "allocator \<Rightarrow> bytes \<Rightarrow> bytes list \<Rightarrow> decode_error + (bytes \<times> borrowed) list option" where
  "decode_borrowed_map_value_with_fields alloc input borrowed_map_fields =
     decode_borrowed_map_value_with_fields_and_record_refs alloc input borrowed_map_fields []"



subsection \<open>Erasing the borrow gives the ordinary decoder\<close>

definition erased :: "('b \<Rightarrow> 'v) \<Rightarrow> decode_error + 'b \<times> dstate \<Rightarrow> decode_error + 'v \<times> dstate" where
  "erased f r = rbind r (\<lambda>(b, st). Inr (f b, st))"

lemma erased_Inl [simp]: "erased f (Inl e) = Inl e"
  by (simp add: erased_def)

lemma erased_Inr [simp]: "erased f (Inr (b, st)) = Inr (f b, st)"
  by (simp add: erased_def)

lemma erased_rbind: "erased f (rbind r g) = rbind r (\<lambda>x. erased f (g x))"
  by (simp add: erased_def rbind_assoc)

lemma erased_prod: "erased f (case x of (a, b) \<Rightarrow> g a b) = (case x of (a, b) \<Rightarrow> erased f (g a b))"
  by (cases x) simp

lemma erased_if: "erased f (if P then a else b) = (if P then erased f a else erased f b)"
  by simp

lemmas erased_simps = erased_rbind erased_prod erased_if erased_Inl erased_Inr

lemma rbind_id [simp]: "rbind r Inr = r"
  by (cases r) auto

lemma rbind_push_entry [simp]: "rbind (push_entry es k v) h = h (es @ [(k, v)])"
  by (simp add: push_entry_def)

lemma erased_id: "erased f (rbind r (\<lambda>(v, st). Inr (g v, st))) = r" if "\<And>v. f (g v) = v"
  using that by (simp add: erased_simps)

lemma cur_peek_byte:
  "cur_byte c = Inl e \<Longrightarrow> cur_peek c = Inl e" "cur_byte c = Inr (t, m) \<Longrightarrow> cur_peek c = Inr t"
  by (auto simp: cur_byte_def cur_peek_def split: if_splits)

lemma erased_payload: "erased erase (decode_borrowed_map_payload granted p st) = decode_payload granted p st"
proof -
  obtain c u where st: "st = (c, u)" by (cases st)
  show ?thesis
  proof (cases "cur_byte c")
    case (Inl e)
    then show ?thesis
      by (simp add: st decode_borrowed_map_payload_def decode_payload.simps cur_peek_byte)
  next
    case (Inr r)
    obtain t m where r: "cur_byte c = Inr (t, m)" using Inr by (cases r) auto
    show ?thesis
    proof (cases "t = STRING_TAG")
      case True
      then show ?thesis
        by (simp add: st decode_borrowed_map_payload_def decode_payload.simps cur_peek_byte(2) [OF r]
            r erased_simps value_tags)
    next
      case False
      then show ?thesis
        by (simp add: st decode_borrowed_map_payload_def cur_peek_byte(2) [OF r] erased_id)
    qed
  qed
qed

lemma erased_previous_loop:
  assumes "\<And>k s. erased f (dec k s) = g s"
  shows "previous = (if es = [] then None else Some (fst (last es))) \<Longrightarrow>
    erased (map (\<lambda>(k, b). (k, f b))) (previous_loop dec push_entry n previous es st)
      = entries_loop read_str g n (map (\<lambda>(k, b). (k, f b)) es) st"
proof (induction n arbitrary: previous es st)
  case (Suc n)
  obtain c u where st: "st = (c, u)" by (cases st)
  have last: "es \<noteq> [] \<Longrightarrow> fst (last (map (\<lambda>(k, b). (k, f b)) es)) = fst (last es)"
    by (simp add: last_map case_prod_beta)
  have order: "(case previous of None \<Rightarrow> True | Some old \<Rightarrow> \<not> k \<le> old) \<longleftrightarrow>
      (map (\<lambda>(k, b). (k, f b)) es = [] \<or> \<not> k \<le> fst (last (map (\<lambda>(k, b). (k, f b)) es)))" for k
    using Suc.prems last by auto
  have step: "erased (map (\<lambda>(k, b). (k, f b))) (previous_loop dec push_entry n (Some k) (es @ [(k, b)]) s)
      = entries_loop read_str g n (map (\<lambda>(k, b). (k, f b)) es @ [(k, f b)]) s" for k b s
    using Suc.IH [of "Some k" "es @ [(k, b)]"] by simp
  have tail: "rbind (dec k s) (\<lambda>(v, s). erased (map (\<lambda>(k, b). (k, f b)))
        (previous_loop dec push_entry n (Some k) (es @ [(k, v)]) s))
      = rbind (g s) (\<lambda>(v, s). entries_loop read_str g n (map (\<lambda>(k, b). (k, f b)) es @ [(k, v)]) s)" for k s
    unfolding step assms [of k, symmetric] erased_def [of f] rbind_assoc
    by (simp add: case_prod_beta')
  show ?case
    unfolding st previous_loop.simps entries_loop.simps order rbind_push_entry erased_simps tail ..
qed simp

lemma erased_singleton:
  assumes "erased erase (tree (c, w)) = decode_payload granted p (c, w)"
  shows "erased erase
      (rbind (cur_peek c) (\<lambda>tag.
         if tag = STRING_TAG then
           rbind (take_node w) (\<lambda>used.
           rbind (cur_byte c) (\<lambda>(tag, c).
           rbind (read_str c) (\<lambda>(s, c). Inr (BSingletonStringMap key s, c, used))))
         else
           rbind (try_reserve granted c 1) (\<lambda>_.
           rbind (tree (c, w)) (\<lambda>(b, st). Inr (BMap [(key, b)], st)))))
    = rbind (decode_payload granted p (c, w)) (\<lambda>(v, st). Inr (VMap [(key, v)], st))"
proof (cases "cur_byte c")
  case (Inl e)
  then show ?thesis by (simp add: decode_payload.simps cur_peek_byte)
next
  case (Inr r)
  obtain t m where r: "cur_byte c = Inr (t, m)" using Inr by (cases r) auto
  show ?thesis
  proof (cases "t = STRING_TAG")
    case True
    then show ?thesis
      by (simp add: decode_payload.simps cur_peek_byte(2) [OF r] r erased_simps value_tags rbind_assoc
          case_prod_beta')
  next
    case False
    then show ?thesis
      unfolding assms [symmetric]
      by (simp add: cur_peek_byte(2) [OF r] erased_simps erased_def rbind_assoc case_prod_beta')
  qed
qed

lemma erased_many:
  "erased erase (rbind (previous_loop (\<lambda>key. tree) push_entry n None [] st)
      (\<lambda>(es, st). Inr (BMap es, st)))
    = rbind (entries_loop read_str (\<lambda>s. erased erase (tree s)) n [] st) (\<lambda>(es, st). Inr (VMap es, st))"
proof -
  have "entries_loop read_str (\<lambda>s. erased erase (tree s)) n [] st =
      erased (map (\<lambda>(k, b). (k, erase b))) (previous_loop (\<lambda>key. tree) push_entry n None [] st)"
    using erased_previous_loop
      [of erase "\<lambda>key. tree" "\<lambda>s. erased erase (tree s)" None "[]" n st] by simp
  then show ?thesis by (simp add: erased_def rbind_assoc case_prod_beta')
qed

lemma erased_entries:
  assumes tree: "\<And>s. erased erase (tree s) = decode_payload granted d s"
  shows "erased erase (borrowed_entries granted tree n (c, w))
    = rbind (entries_loop read_str (decode_payload granted d) n [] (c, w)) (\<lambda>(es, st). Inr (VMap es, st))"
proof (cases "n = 1")
  case True
  have "rbind (entries_loop read_str (decode_payload granted d) 1 [] (c, w)) (\<lambda>(es, st). Inr (VMap es, st))
      = rbind (read_str c) (\<lambda>(key, c).
        rbind (decode_payload granted d (c, w)) (\<lambda>(v, st). Inr (VMap [(key, v)], st)))"
    by (simp add: rbind_assoc case_prod_beta')
  then show ?thesis
    unfolding borrowed_entries_def prod.case True
    by (simp only: refl if_True erased_rbind [of erase "read_str c"] erased_prod
        erased_singleton [where tree = tree and p = d, OF tree])
next
  case False
  then show ?thesis using erased_many [of tree n "(c, w)"] by (simp add: tree borrowed_entries_def)
qed

lemma decode_payload_map:
  assumes "cur_byte c = Inr (MAP_TAG, m)"
  shows "decode_payload granted p (c, u) =
    rbind (take_node u) (\<lambda>w. rbind (container_bounds p (m, w)) (\<lambda>(d, n, c).
      rbind (entries_loop read_str (decode_payload granted d) n [] (c, w)) (\<lambda>(es, st).
      Inr (VMap es, st))))"
  by (simp add: decode_payload.simps assms decode_map_def value_tags)

lemma erased_tree: "erased erase (decode_borrowed_map_tree granted p st) = decode_payload granted p st"
proof (induction "Suc MAX_NESTING_DEPTH - p" arbitrary: p st rule: less_induct)
  case less
  obtain c u where st: "st = (c, u)" by (cases st)
  show ?case
  proof (cases "cur_byte c")
    case (Inl e)
    then show ?thesis
      by (simp add: st decode_borrowed_map_tree.simps decode_payload.simps cur_peek_byte)
  next
    case (Inr r)
    obtain t m where r: "cur_byte c = Inr (t, m)" using Inr by (cases r) auto
    consider (str) "t = STRING_TAG" | (map) "t = MAP_TAG" | (other) "t \<noteq> STRING_TAG" "t \<noteq> MAP_TAG"
      by blast
    then show ?thesis
    proof cases
      case str
      then show ?thesis
        by (simp add: st decode_borrowed_map_tree.simps cur_peek_byte(2) [OF r] erased_payload)
    next
      case map
      have one: "erased erase (decode_borrowed_map_tree granted (Suc p) s) = decode_payload granted (Suc p) s"
        if "Suc p \<le> MAX_NESTING_DEPTH" for s
        using less that by simp
      have c: "cur_byte c = Inr (MAP_TAG, m)" using r map by simp
      have tag: "(MAP_TAG = STRING_TAG) = False" by (simp add: value_tags)
      show ?thesis
        unfolding st decode_payload_map [OF c] decode_borrowed_map_tree.simps cur_peek_byte(2) [OF c]
          rbind_Inr c prod.case tag if_False simp_thms if_True erased_rbind erased_prod
      proof (intro rbind_cong refl)
        fix w x
        assume "container_bounds p (m, w) = Inr x"
        moreover obtain d n c' where x: "x = (d, n, c')" by (cases x)
        ultimately have d: "d = Suc p" "Suc p \<le> MAX_NESTING_DEPTH" using container_bounds_depth by blast+
        show "(case x of (d, n, c) \<Rightarrow>
              erased erase (borrowed_entries granted (decode_borrowed_map_tree granted d) n (c, w)))
            = (case x of (d, n, c) \<Rightarrow>
                rbind (entries_loop read_str (decode_payload granted d) n [] (c, w)) (\<lambda>(es, st).
                Inr (VMap es, st)))"
          unfolding x prod.case d(1) by (rule erased_entries) (rule one [OF d(2)])
      qed
    next
      case other
      then show ?thesis
        by (simp add: st decode_borrowed_map_tree.simps cur_peek_byte(2) [OF r] erased_id)
    qed
  qed
qed

lemma decode_payload_record_ref:
  assumes "cur_byte c = Inr (RECORD_REF_TAG, m)"
  shows "decode_payload granted d (c, u) =
    rbind (take_node u) (\<lambda>w. rbind (read_record_ref m) (\<lambda>(r, c). Inr (VRecordRef r, c, w)))"
  by (simp add: decode_payload.simps assms value_tags)

text \<open>The three outcomes of the record-reference loop against the ordinary list loop.\<close>

lemma record_refs_loop_cases:
  "case record_refs_loop original n acc st of
     Inl e \<Rightarrow> rrepeat n (decode_payload granted d) st = Inl e
   | Inr (None, s) \<Rightarrow> s = original
   | Inr (Some rs, s) \<Rightarrow>
       \<exists>new. rs = acc @ new \<and> rrepeat n (decode_payload granted d) st = Inr (map VRecordRef new, s)"
proof (induction n arbitrary: acc st)
  case (Suc n)
  obtain c u where st: "st = (c, u)" by (cases st)
  show ?case
  proof (cases "cur_byte c")
    case (Inl e)
    then show ?thesis by (simp add: st decode_payload.simps cur_peek_byte)
  next
    case (Inr r)
    obtain t m where r: "cur_byte c = Inr (t, m)" using Inr by (cases r) auto
    show ?thesis
    proof (cases "t = RECORD_REF_TAG")
      case True
      note ref = decode_payload_record_ref [OF r [unfolded True]]
      show ?thesis
      proof (cases "rbind (take_node u) (\<lambda>w. rbind (read_record_ref m) (\<lambda>(r, c). Inr (r, c, w)))")
        case (Inl e)
        then show ?thesis
          by (cases "take_node u"; cases "read_record_ref m")
            (auto simp: st True ref r cur_peek_byte(2) [OF r] simp del: take_node_iff)
      next
        case (Inr q)
        then obtain w rf c' where q: "take_node u = Inr w" "read_record_ref m = Inr (rf, c')"
          by (auto simp: rbind_eq_Inr simp del: take_node_iff)
        show ?thesis
          using Suc.IH [where acc = "acc @ [rf]" and st = "(c', w)"]
          by (auto simp: st True ref r cur_peek_byte(2) [OF r] q split: sum.splits option.splits)
      qed
    qed (simp add: st cur_peek_byte(2) [OF r])
  qed
qed simp

lemma decode_borrowed_record_refs_cases:
  "case decode_borrowed_record_refs granted p st of
     Inl e \<Rightarrow> decode_payload granted p st = Inl e
   | Inr (None, s) \<Rightarrow> s = st
   | Inr (Some rs, s) \<Rightarrow> decode_payload granted p st = Inr (VList (map VRecordRef rs), s)"
proof -
  obtain c u where st: "st = (c, u)" by (cases st)
  show ?thesis
  proof (cases "cur_byte c")
    case (Inl e)
    then show ?thesis
      by (simp add: st decode_borrowed_record_refs_def decode_payload.simps cur_peek_byte)
  next
    case (Inr r)
    obtain t m where r: "cur_byte c = Inr (t, m)" using Inr by (cases r) auto
    show ?thesis
    proof (cases "t = LIST_TAG")
      case True
      have dec: "decode_payload granted p (c, u) = rbind (take_node u) (\<lambda>w.
          rbind (container_bounds p (m, w)) (\<lambda>(d, n, c).
          rbind (rrepeat n (decode_payload granted d) (c, w)) (\<lambda>(vs, st). Inr (VList vs, st))))"
        by (simp add: decode_payload.simps r True decode_list_def value_tags)
      show ?thesis
      proof (cases "rbind (take_node u) (\<lambda>w. rbind (container_bounds p (m, w)) (\<lambda>x. Inr (w, x)))")
        case (Inl e)
        then show ?thesis
          unfolding st dec decode_borrowed_record_refs_def prod.case cur_peek_byte(2) [OF r]
          by (cases "take_node u"; cases "container_bounds p (m, projr (take_node u))")
            (auto simp: True r simp del: take_node_iff)
      next
        case (Inr q)
        then obtain w d n c' where q: "take_node u = Inr w" "container_bounds p (m, w) = Inr (d, n, c')"
          by (auto simp: rbind_eq_Inr simp del: take_node_iff)
        show ?thesis
          using record_refs_loop_cases
            [where original = "(c, u)" and n = n and acc = "[]" and st = "(c', w)" and d = d]
          unfolding st dec decode_borrowed_record_refs_def prod.case cur_peek_byte(2) [OF r]
          by (auto simp: True r q split: sum.splits option.splits)
      qed
    qed (simp add: st decode_borrowed_record_refs_def cur_peek_byte(2) [OF r])
  qed
qed

lemma erased_selected:
  "erased erase (decode_selected_borrowed_payload granted fs rs p key st) = decode_payload granted p st"
proof (cases "key \<in> set fs \<and> (\<exists>e. cur_byte (fst st) = Inl e)")
  case True
  then show ?thesis
    by (cases st) (auto simp: decode_selected_borrowed_payload_def decode_payload.simps cur_peek_byte)
next
  case False
  then obtain sel where sel: "(if key \<in> set fs then rbind (cur_peek (fst st)) (\<lambda>tag. Inr (tag = MAP_TAG))
      else Inr False) = Inr sel"
    by (cases "cur_byte (fst st)"; cases "key \<in> set fs") (auto simp: cur_peek_byte)
  have refs: "erased erase (rbind (decode_borrowed_record_refs granted p st) (\<lambda>(found, st).
       case found of
         Some references \<Rightarrow> Inr (BRecordRefs references, st)
       | None \<Rightarrow> decode_borrowed_map_payload granted p st)) = decode_payload granted p st"
    using decode_borrowed_record_refs_cases [of p st]
    by (cases "decode_borrowed_record_refs granted p st") (auto simp: erased_payload split: option.splits)
  show ?thesis
    unfolding decode_selected_borrowed_payload_def sel rbind_Inr
    by (simp add: erased_tree erased_payload refs)
qed

subsection \<open>Root maps agree with the ordinary decoder\<close>

fun root_map :: "val \<Rightarrow> (bytes \<times> val) list option" where
  "root_map (VMap es) = Some es"
| "root_map _ = None"

definition erase_entries :: "('b \<Rightarrow> val) \<Rightarrow> (bytes \<times> 'b) list option \<Rightarrow> (bytes \<times> val) list option" where
  "erase_entries f = map_option (map (\<lambda>(k, b). (k, f b)))"

lemma cur_byte_new: "bs \<noteq> [] \<Longrightarrow> \<exists>m. cur_byte (cur_new bs) = Inr (hd bs, m)"
  by (cases bs) (auto simp: cur_byte_def cur_new_def)

lemma non_map_root:
  assumes "decode_payload granted p (cur_new pb, u) = Inr (v, st)" "pb = [] \<or> hd pb \<noteq> MAP_TAG"
  shows "root_map v = None"
proof (cases "pb = []")
  case True
  with assms(1) show ?thesis by (simp add: decode_payload.simps cur_byte_def cur_new_def)
next
  case False
  then obtain m where m: "cur_byte (cur_new pb) = Inr (hd pb, m)" using cur_byte_new by blast
  from assms False show ?thesis
    by (auto simp: decode_payload.simps m rbind_eq_Inr decode_list_def split: if_splits)
qed

lemma decode_map_entries_erased:
  assumes "\<And>d k s. erased f (dec d k s) = decode_payload granted d s"
  shows "rbind (decode_map_entries granted input dec) (\<lambda>r. Inr (erase_entries f r))
    = rbind (decode_value granted input) (\<lambda>v. Inr (root_map v))"
proof (cases "frame_payload input")
  case (Inl e)
  then show ?thesis by (simp add: decode_map_entries_def decode_map_entries_with_def decode_value_def)
next
  case (Inr pb)
  show ?thesis
  proof (cases "pb = [] \<or> hd pb \<noteq> MAP_TAG")
    case True
    have "rbind (decode_value granted input) (\<lambda>v. Inr (root_map v))
        = rbind (decode_value granted input) (\<lambda>v. Inr None)"
      using non_map_root [OF _ True]
      by (intro rbind_cong refl) (auto simp: decode_value_def Inr rbind_eq_Inr)
    with True show ?thesis
      by (simp add: decode_map_entries_def decode_map_entries_with_def Inr rbind_assoc erase_entries_def)
  next
    case False
    then obtain m where m: "cur_byte (cur_new pb) = Inr (MAP_TAG, m)" using cur_byte_new [of pb] by auto
    have loop: "entries_loop read_str (decode_payload granted d) n [] st =
        rbind (previous_loop (dec d) push_entry n None [] st)
          (\<lambda>(es, st). Inr (map (\<lambda>(k, b). (k, f b)) es, st))" for d n st
      using erased_previous_loop [of f "dec d" "decode_payload granted d" None "[]" n st] assms
      by (simp add: erased_def)
    show ?thesis
      using False
      by (simp add: decode_map_entries_def decode_map_entries_with_def decode_value_def Inr m
          decode_payload_map [OF m] loop rbind_assoc case_prod_beta' erase_entries_def)
  qed
qed

subsection \<open>What a visitor sees\<close>








subsection \<open>Properties of the borrowing decoders\<close>

text \<open>
  C5.  The borrowing decoders validate exactly as the ordinary decoder: after erasing the
  borrow, each of them returns the entries of the decoded root map, nothing for a valid
  non-map root, and the same error for a rejected input.
\<close>

theorem borrowed_decoders_agree:
  "decode_map_value granted input = rbind (decode_value granted input) (\<lambda>v. Inr (root_map v))
   \<and> rbind (decode_borrowed_map_value granted input) (\<lambda>r. Inr (erase_entries erase r))
       = rbind (decode_value granted input) (\<lambda>v. Inr (root_map v))
   \<and> rbind (decode_borrowed_map_value_with_fields_and_record_refs granted input fs rs)
         (\<lambda>r. Inr (erase_entries erase r))
       = rbind (decode_value granted input) (\<lambda>v. Inr (root_map v))"
proof -
  have "rbind (decode_map_value granted input) (\<lambda>r. Inr (erase_entries (\<lambda>v. v) r))
      = rbind (decode_value granted input) (\<lambda>v. Inr (root_map v))"
    unfolding decode_map_value_def
    by (rule decode_map_entries_erased) (simp add: erased_def)
  moreover have "erase_entries (\<lambda>v. v) r = r" for r
    by (cases r) (auto simp: erase_entries_def)
  ultimately have "decode_map_value granted input = rbind (decode_value granted input) (\<lambda>v. Inr (root_map v))"
    by simp
  moreover have "rbind (decode_borrowed_map_value granted input) (\<lambda>r. Inr (erase_entries erase r))
      = rbind (decode_value granted input) (\<lambda>v. Inr (root_map v))"
    unfolding decode_borrowed_map_value_def
    by (rule decode_map_entries_erased) (rule erased_payload)
  moreover have "rbind (decode_borrowed_map_value_with_fields_and_record_refs granted input fs rs)
      (\<lambda>r. Inr (erase_entries erase r)) = rbind (decode_value granted input) (\<lambda>v. Inr (root_map v))"
    unfolding decode_borrowed_map_value_with_fields_and_record_refs_def
    by (rule decode_map_entries_erased) (rule erased_selected)
  ultimately show ?thesis by blast
qed


end
