(* ===== verification/Civil_Time.thy ===== *)
theory Civil_Time
  imports Identity
begin

text \<open>
  The calendar arithmetic of \<open>uste-time/src/normalize.rs\<close>: days from civil dates, civil date and
  time from epoch seconds, and instants from scaled integers.  Both directions of the calendar
  arithmetic are inverse on all of the proleptic Gregorian calendar.
\<close>

section \<open>Definitions\<close>

text \<open>Rust's \<open>/\<close> and \<open>%\<close> on signed integers truncate towards zero.\<close>

definition tdiv :: "int \<Rightarrow> int \<Rightarrow> int" where
  "tdiv a b = sgn a * sgn b * (\<bar>a\<bar> div \<bar>b\<bar>)"

definition trem :: "int \<Rightarrow> int \<Rightarrow> int" where
  "trem a b = a - tdiv a b * b"

definition days_from_civil :: "int \<Rightarrow> int \<Rightarrow> int \<Rightarrow> int" where
  "days_from_civil year month day =
     (let adjusted_year = year - (if month \<le> 2 then 1 else 0);
          era = adjusted_year div 400;
          year_of_era = adjusted_year - era * 400;
          shifted_month = month + (if month > 2 then - 3 else 9);
          day_of_year = tdiv (153 * shifted_month + 2) 5 + day - 1;
          day_of_era = year_of_era * 365 + tdiv year_of_era 4 - tdiv year_of_era 100 + day_of_year
      in era * 146097 + day_of_era - 719468)"

definition civil_from_epoch :: "int \<Rightarrow> int \<times> int \<times> int \<times> int \<times> int \<times> int" where
  "civil_from_epoch seconds =
     (let days = seconds div 86400;
          seconds_of_day = seconds mod 86400;
          shifted_days = days + 719468;
          era = shifted_days div 146097;
          day_of_era = shifted_days - era * 146097;
          year_of_era = tdiv (day_of_era - tdiv day_of_era 1460 + tdiv day_of_era 36524
                              - tdiv day_of_era 146096) 365;
          year = year_of_era + era * 400;
          day_of_year = day_of_era
            - (365 * year_of_era + tdiv year_of_era 4 - tdiv year_of_era 100);
          month_prime = tdiv (5 * day_of_year + 2) 153;
          day = day_of_year - tdiv (153 * month_prime + 2) 5 + 1;
          month = month_prime + (if month_prime < 10 then 3 else - 9);
          year = year + (if month \<le> 2 then 1 else 0)
      in (year, month, day, tdiv seconds_of_day 3600, tdiv (trem seconds_of_day 3600) 60,
          trem seconds_of_day 60))"

text \<open>The proleptic Gregorian calendar.\<close>

definition leap_year :: "int \<Rightarrow> bool" where
  "leap_year y \<longleftrightarrow> 4 dvd y \<and> (\<not> 100 dvd y \<or> 400 dvd y)"

definition days_in_month :: "int \<Rightarrow> int \<Rightarrow> int" where
  "days_in_month y m =
     (if m = 2 then if leap_year y then 29 else 28
      else if m = 4 \<or> m = 6 \<or> m = 9 \<or> m = 11 then 30 else 31)"

definition valid_date :: "int \<Rightarrow> int \<Rightarrow> int \<Rightarrow> bool" where
  "valid_date y m d \<longleftrightarrow> 1 \<le> m \<and> m \<le> 12 \<and> 1 \<le> d \<and> d \<le> days_in_month y m"

definition valid_time :: "int \<Rightarrow> int \<Rightarrow> int \<Rightarrow> bool" where
  "valid_time h mi s \<longleftrightarrow> 0 \<le> h \<and> h \<le> 23 \<and> 0 \<le> mi \<and> mi \<le> 59 \<and> 0 \<le> s \<and> s \<le> 59"

section \<open>Division\<close>

lemma tdiv_nonneg [simp]: "0 \<le> a \<Longrightarrow> 0 < b \<Longrightarrow> tdiv a b = a div b"
  by (cases "a = 0") (simp_all add: tdiv_def)

lemma trem_nonneg [simp]: "0 \<le> a \<Longrightarrow> 0 < b \<Longrightarrow> trem a b = a mod b"
  by (simp add: trem_def minus_div_mult_eq_mod)

lemma div_unique: "b * q \<le> a \<Longrightarrow> a < b * q + b \<Longrightarrow> a div b = q" for a b q :: int
  using int_div_pos_eq [of a b q "a - b * q"] by simp

section \<open>The year within an era\<close>

text \<open>
  A day of an era of 400 years, counted from March, as the century, the four-year cycle within the
  century, the year within the cycle and the day within the year.
\<close>

definition era_parts :: "int \<Rightarrow> int \<Rightarrow> int \<Rightarrow> int \<Rightarrow> bool" where
  "era_parts c q z t \<longleftrightarrow>
     0 \<le> c \<and> c \<le> 3 \<and> 0 \<le> q \<and> q \<le> 24 \<and> 0 \<le> z \<and> z \<le> 3 \<and> 0 \<le> t \<and> t \<le> 365
     \<and> (t = 365 \<longrightarrow> z = 3 \<and> (q \<noteq> 24 \<or> c = 3))"

definition parts_day :: "int \<Rightarrow> int \<Rightarrow> int \<Rightarrow> int \<Rightarrow> int" where
  "parts_day c q z t = 36524 * c + 1461 * q + 365 * z + t"

definition parts_year :: "int \<Rightarrow> int \<Rightarrow> int \<Rightarrow> int" where
  "parts_year c q z = 100 * c + 4 * q + z"

lemma era_parts_exist:
  assumes "0 \<le> doe" "doe \<le> 146096"
  obtains c q z t where "era_parts c q z t" "doe = parts_day c q z t"
proof -
  define c where "c = min 3 (doe div 36524)"
  define r where "r = doe - 36524 * c"
  define q where "q = r div 1461"
  define s where "s = r mod 1461"
  define z where "z = min 3 (s div 365)"
  define t where "t = s - 365 * z"
  have c: "0 \<le> c" "c \<le> 3" "0 \<le> r" "r \<le> 36524" "r = 36524 \<longrightarrow> c = 3"
    using assms unfolding c_def r_def by (auto simp: min_def)
  have q: "0 \<le> q" "q \<le> 24" "r = 1461 * q + s" "0 \<le> s" "s \<le> 1460"
    using c unfolding q_def s_def by auto
  have z: "0 \<le> z" "z \<le> 3" "0 \<le> t" "t \<le> 365" "t = 365 \<longrightarrow> z = 3 \<and> s = 1460"
    using q unfolding z_def t_def by (auto simp: min_def)
  have "t = 365 \<longrightarrow> q \<noteq> 24 \<or> c = 3" using z(5) q(3) c(5) by auto
  then have "era_parts c q z t" using c q z unfolding era_parts_def by simp
  moreover have "doe = parts_day c q z t" using q(3) unfolding parts_day_def t_def r_def by simp
  ultimately show ?thesis using that by blast
qed

lemma era_parts_bounds:
  assumes "era_parts c q z t"
  shows "0 \<le> parts_day c q z t" "parts_day c q z t \<le> 146096"
    and "0 \<le> parts_year c q z" "parts_year c q z \<le> 399"
  using assms unfolding era_parts_def parts_day_def parts_year_def by auto

lemma parts_year_div:
  assumes "era_parts c q z t"
  shows "parts_year c q z div 4 = 25 * c + q" "parts_year c q z div 100 = c"
  using assms unfolding era_parts_def parts_year_def by (auto intro!: div_unique)

lemma parts_day_year:
  assumes "era_parts c q z t"
  shows "365 * parts_year c q z + parts_year c q z div 4 - parts_year c q z div 100 + t
    = parts_day c q z t"
  unfolding parts_year_div [OF assms] by (simp add: parts_year_def parts_day_def)

lemma year_of_era:
  assumes "era_parts c q z t" "doe = parts_day c q z t"
  shows "(doe - doe div 1460 + doe div 36524 - doe div 146096) div 365 = parts_year c q z"
proof -
  note parts = assms(1) [unfolded era_parts_def] and doe = assms(2) [unfolded parts_day_def]
  define e where "e = 24 * c + q + 365 * z + t"
  have "doe = 1460 * (25 * c + q) + e" "0 \<le> e" "e < 2920" using parts doe unfolding e_def by auto
  then have d1: "doe div 1460 = 25 * c + q + (if 1460 \<le> e then 1 else 0)"
    by (auto intro!: div_unique)
  have d2: "doe div 36524 - doe div 146096 = c"
  proof (cases "doe = 146096")
    case True
    then have "c = 3" using parts doe by auto
    with True show ?thesis by simp
  next
    case False
    have "doe div 146096 = 0" using parts doe False by (intro div_pos_pos_trivial) auto
    moreover have "doe div 36524 = c" using parts doe False by (intro div_unique) auto
    ultimately show ?thesis by simp
  qed
  have "doe - doe div 1460 + doe div 36524 - doe div 146096
      = 365 * parts_year c q z + (t - (if 1460 \<le> e then 1 else 0))"
    using d1 d2 doe unfolding parts_year_def by simp
  moreover have "0 \<le> t - (if 1460 \<le> e then 1 else 0)" "t - (if 1460 \<le> e then 1 else 0) < 365"
    using parts unfolding e_def by auto
  ultimately show ?thesis by (intro div_unique) simp_all
qed

section \<open>Months counted from March\<close>

definition month_start :: "int \<Rightarrow> int" where
  "month_start mp = (153 * mp + 2) div 5"

definition month_number :: "int \<Rightarrow> int" where
  "month_number mp = mp + (if mp < 10 then 3 else - 9)"

lemma month_prime_cases:
  assumes "0 \<le> mp" "mp \<le> (11 :: int)"
  shows "mp \<in> {0, 1, 2, 3, 4, 5, 6, 7, 8, 9, 10, 11}"
  using assms unfolding insert_iff empty_iff by presburger

lemma month_prime_range:
  assumes "0 \<le> t" "t \<le> (365 :: int)"
  shows "0 \<le> (5 * t + 2) div 153 \<and> (5 * t + 2) div 153 \<le> 11"
  using assms by auto

lemma month_of_day:
  assumes "0 \<le> t" "t \<le> 365" "mp = (5 * t + 2) div 153"
  shows "1 \<le> t - month_start mp + 1"
    and "month_number mp \<noteq> 2 \<Longrightarrow> t - month_start mp + 1 \<le> days_in_month y (month_number mp)"
    and "month_number mp = 2 \<Longrightarrow> t - month_start mp + 1 = t - 336 \<and> t - 336 \<le> 29"
proof -
  have t: "153 * mp \<le> 5 * t + 2" "5 * t + 2 < 153 * mp + 153"
    using assms(3) by auto
  have "mp \<in> {0, 1, 2, 3, 4, 5, 6, 7, 8, 9, 10, 11}"
    using month_prime_range [OF assms(1,2)] assms(3) by (intro month_prime_cases) simp_all
  with t assms(2) show "1 \<le> t - month_start mp + 1"
    and "month_number mp \<noteq> 2 \<Longrightarrow> t - month_start mp + 1 \<le> days_in_month y (month_number mp)"
    and "month_number mp = 2 \<Longrightarrow> t - month_start mp + 1 = t - 336 \<and> t - 336 \<le> 29"
    unfolding month_start_def month_number_def days_in_month_def by auto
qed

lemma day_of_month:
  assumes "0 \<le> mp" "mp \<le> 11" "1 \<le> d" "d \<le> days_in_month y (month_number mp)"
    and "t = month_start mp + d - 1"
  shows "(5 * t + 2) div 153 = mp" "0 \<le> t" "t \<le> 365"
    and "t = 365 \<Longrightarrow> month_number mp = 2 \<and> leap_year y"
proof -
  have "mp \<in> {0, 1, 2, 3, 4, 5, 6, 7, 8, 9, 10, 11}" using assms(1,2) by (rule month_prime_cases)
  then have *: "153 * mp \<le> 5 * t + 2 \<and> 5 * t + 2 < 153 * mp + 153 \<and> t \<le> 365
      \<and> (t = 365 \<longrightarrow> mp = 11 \<and> leap_year y)"
    using assms(3-5) unfolding month_start_def month_number_def days_in_month_def
    by (elim insertE emptyE) (simp_all split: if_splits)
  then show "(5 * t + 2) div 153 = mp" by (intro div_unique) simp_all
  show "0 \<le> t" "t \<le> 365" using * assms(1) by simp_all
  show "t = 365 \<Longrightarrow> month_number mp = 2 \<and> leap_year y" using * by (simp add: month_number_def)
qed

lemma leap_year_parts:
  assumes "0 \<le> c" "c \<le> 3" "0 \<le> q" "q \<le> 24" "0 \<le> z" "z \<le> 3"
  shows "leap_year (parts_year c q z + era * 400 + 1) \<longleftrightarrow> z = 3 \<and> (q \<noteq> 24 \<or> c = 3)"
proof -
  let ?y = "parts_year c q z + era * 400 + 1"
  have "4 dvd ?y \<longleftrightarrow> 4 dvd 4 * (25 * c + q + era * 100) + (z + 1)"
    by (simp add: parts_year_def algebra_simps)
  also have "\<dots> \<longleftrightarrow> 4 dvd z + 1" by (rule dvd_add_right_iff) simp
  also have "\<dots> \<longleftrightarrow> z = 3" using assms zdvd_imp_le [of 4 "z + 1"] by auto
  finally have d4: "4 dvd ?y \<longleftrightarrow> z = 3" .
  have d100: "100 dvd ?y \<longleftrightarrow> q = 24" if "z = 3"
  proof -
    have "100 dvd ?y \<longleftrightarrow> 100 dvd 100 * (c + era * 4) + 4 * (q + 1)"
      using that by (simp add: parts_year_def algebra_simps)
    also have "\<dots> \<longleftrightarrow> 100 dvd 4 * (q + 1)" by (rule dvd_add_right_iff) simp
    also have "\<dots> \<longleftrightarrow> q = 24" using assms zdvd_imp_le [of 100 "4 * (q + 1)"] by auto
    finally show ?thesis .
  qed
  have d400: "400 dvd ?y \<longleftrightarrow> c = 3" if "z = 3" "q = 24"
  proof -
    have "400 dvd ?y \<longleftrightarrow> 400 dvd 400 * era + 100 * (c + 1)"
      using that by (simp add: parts_year_def algebra_simps)
    also have "\<dots> \<longleftrightarrow> 400 dvd 100 * (c + 1)" by (rule dvd_add_right_iff) simp
    also have "\<dots> \<longleftrightarrow> c = 3" using assms zdvd_imp_le [of 400 "100 * (c + 1)"] by auto
    finally show ?thesis .
  qed
  show ?thesis unfolding leap_year_def using d4 d100 d400 by blast
qed

section \<open>Both directions in terms of the parts\<close>

lemma civil_from_epoch_parts:
  assumes parts: "era_parts c q z t"
    and s: "s = (era * 146097 + parts_day c q z t - 719468) * 86400 + sod" "0 \<le> sod" "sod < 86400"
    and mp: "mp = (5 * t + 2) div 153"
  shows "civil_from_epoch s =
    (parts_year c q z + era * 400 + (if month_number mp \<le> 2 then 1 else 0), month_number mp,
     t - month_start mp + 1, sod div 3600, sod mod 3600 div 60, sod mod 60)"
proof -
  note b = era_parts_bounds [OF parts]
  have t: "0 \<le> t" "t \<le> 365" using parts by (simp_all add: era_parts_def)
  have days: "s div 86400 = era * 146097 + parts_day c q z t - 719468"
    using s by (intro div_unique) simp_all
  have "s mod 86400 = s - s div 86400 * 86400" by (rule minus_div_mult_eq_mod [symmetric])
  also have "\<dots> = s - (era * 146097 + parts_day c q z t - 719468) * 86400" by (simp only: days)
  also have "\<dots> = sod" using s(1) by simp
  finally have rest: "s mod 86400 = sod" .
  have era: "(era * 146097 + parts_day c q z t) div 146097 = era" using b by (intro div_unique) simp_all
  let ?d = "parts_day c q z t"
  have le: "?d div 1460 \<le> ?d" "?d div 146096 \<le> ?d div 36524" "0 \<le> ?d div 36524"
    using b by (auto intro: zdiv_mono2)
  have yoe: "tdiv (?d - tdiv ?d 1460 + tdiv ?d 36524 - tdiv ?d 146096) 365 = parts_year c q z"
    using year_of_era [OF parts refl] b le by simp
  have doy: "?d - (365 * parts_year c q z + tdiv (parts_year c q z) 4 - tdiv (parts_year c q z) 100) = t"
    using parts_day_year [OF parts] b by simp
  have "0 \<le> mp" using month_prime_range [OF t] mp by simp
  then show ?thesis
    using t s(2,3) unfolding civil_from_epoch_def Let_def days rest
    by (simp add: era yoe doy month_start_def month_number_def flip: mp)
qed

lemma month_number_inverse:
  assumes "0 \<le> mp" "mp \<le> 11"
  shows "month_number mp + (if month_number mp > 2 then - 3 else 9) = mp"
    and "1 \<le> month_number mp" "month_number mp \<le> 12"
  using assms unfolding month_number_def by auto

lemma days_from_civil_parts:
  assumes parts: "era_parts c q z t" and mp: "0 \<le> mp" "mp \<le> 11" "t = month_start mp + d - 1"
  shows "days_from_civil (parts_year c q z + era * 400 + (if month_number mp \<le> 2 then 1 else 0))
      (month_number mp) d = era * 146097 + parts_day c q z t - 719468"
proof -
  note b = era_parts_bounds [OF parts]
  have era: "(parts_year c q z + era * 400) div 400 = era" using b by (intro div_unique) simp_all
  have day: "tdiv (153 * mp + 2) 5 = month_start mp" using mp(1) by (simp add: month_start_def)
  show ?thesis
    using parts_day_year [OF parts] b mp(3)
    unfolding days_from_civil_def Let_def month_number_inverse(1) [OF mp(1,2)]
    by (simp add: era day)
qed

lemma epoch_parts:
  obtains era c q z t sod where "era_parts c q z t"
    and "s = (era * 146097 + parts_day c q z t - 719468) * 86400 + sod" "0 \<le> sod" "sod < 86400"
proof -
  define sod where "sod = s mod 86400"
  define era where "era = (s div 86400 + 719468) div 146097"
  obtain c q z t where parts: "era_parts c q z t" "(s div 86400 + 719468) mod 146097 = parts_day c q z t"
    by (rule era_parts_exist [of "(s div 86400 + 719468) mod 146097"]) auto
  have day: "s div 86400 = era * 146097 + parts_day c q z t - 719468"
    using div_mult_mod_eq [of "s div 86400 + 719468" 146097] parts(2) unfolding era_def by simp
  have s: "s = (era * 146097 + parts_day c q z t - 719468) * 86400 + sod" "0 \<le> sod" "sod < 86400"
    using div_mult_mod_eq [of s 86400] unfolding sod_def day by simp_all
  from that [OF parts(1) this] show ?thesis .
qed

lemma time_of_day:
  assumes "0 \<le> sod" "sod < (86400 :: int)"
  shows "valid_time (sod div 3600) (sod mod 3600 div 60) (sod mod 60)"
    and "sod div 3600 * 3600 + sod mod 3600 div 60 * 60 + sod mod 60 = sod"
proof -
  have "sod mod 3600 mod 60 = sod mod 60" by (simp add: mod_mod_cancel)
  then show "sod div 3600 * 3600 + sod mod 3600 div 60 * 60 + sod mod 60 = sod"
    using div_mult_mod_eq [of sod 3600] div_mult_mod_eq [of "sod mod 3600" 60] by linarith
  have "sod mod 3600 < 3600" by simp
  then have "sod mod 3600 div 60 \<le> 59" by linarith
  then show "valid_time (sod div 3600) (sod mod 3600 div 60) (sod mod 60)"
    using assms unfolding valid_time_def by auto
qed

lemma time_of_parts:
  assumes "valid_time h mi s" "sod = h * 3600 + mi * 60 + s"
  shows "0 \<le> sod" "sod < 86400" "sod div 3600 = h" "sod mod 3600 div 60 = mi" "sod mod 60 = s"
proof -
  note v = assms(1) [unfolded valid_time_def]
  show h: "0 \<le> sod" "sod < 86400" "sod div 3600 = h"
    using v assms(2) by (auto intro!: div_unique)
  have m: "sod mod 3600 = mi * 60 + s"
    using minus_div_mult_eq_mod [of sod 3600] h(3) assms(2) by simp
  then show "sod mod 3600 div 60 = mi" using v by (auto intro!: div_unique)
  have "sod mod 60 = sod mod 3600 mod 60" by (simp add: mod_mod_cancel)
  also have "\<dots> = s" using v by (simp add: m)
  finally show "sod mod 60 = s" .
qed

section \<open>The calendar arithmetic is exact\<close>

definition epoch_of_civil :: "int \<times> int \<times> int \<times> int \<times> int \<times> int \<Rightarrow> int" where
  "epoch_of_civil = (\<lambda>(y, m, d, h, mi, s). days_from_civil y m d * 86400 + h * 3600 + mi * 60 + s)"

definition valid_civil :: "int \<times> int \<times> int \<times> int \<times> int \<times> int \<Rightarrow> bool" where
  "valid_civil = (\<lambda>(y, m, d, h, mi, s). valid_date y m d \<and> valid_time h mi s)"

lemma civil_from_epoch_valid:
  "valid_civil (civil_from_epoch s) \<and> epoch_of_civil (civil_from_epoch s) = s"
proof -
  obtain era c q z t sod where parts: "era_parts c q z t"
    and s: "s = (era * 146097 + parts_day c q z t - 719468) * 86400 + sod" "0 \<le> sod" "sod < 86400"
    by (rule epoch_parts)
  define mp where "mp = (5 * t + 2) div 153"
  have t: "0 \<le> t" "t \<le> 365" using parts by (simp_all add: era_parts_def)
  have mp: "0 \<le> mp" "mp \<le> 11" using month_prime_range [OF t] unfolding mp_def by simp_all
  let ?y = "parts_year c q z + era * 400 + (if month_number mp \<le> 2 then 1 else 0)"
  let ?d = "t - month_start mp + 1"
  note md = month_of_day [OF t mp_def]
  have date: "valid_date ?y (month_number mp) ?d"
  proof (cases "month_number mp = 2")
    case True
    have "leap_year ?y" if "t = 365"
      using parts that True leap_year_parts [of c q z era] by (simp add: era_parts_def)
    with md(1) md(3) [OF True] True t(2) show ?thesis
      unfolding valid_date_def days_in_month_def by (cases "t = 365") auto
  next
    case False
    then show ?thesis
      using md(1) md(2) [OF False, of ?y] month_number_inverse(2,3) [OF mp] by (simp add: valid_date_def)
  qed
  have "days_from_civil ?y (month_number mp) ?d = era * 146097 + parts_day c q z t - 719468"
    using mp by (intro days_from_civil_parts [OF parts]) simp_all
  with date time_of_day [OF s(2,3)] s(1) show ?thesis
    unfolding civil_from_epoch_parts [OF parts s mp_def] epoch_of_civil_def valid_civil_def by simp
qed

lemma year_parts:
  assumes "0 \<le> yoe" "yoe \<le> 399"
  shows "0 \<le> yoe div 100" "yoe div 100 \<le> 3" "0 \<le> yoe mod 100 div 4" "yoe mod 100 div 4 \<le> 24"
    and "0 \<le> yoe mod 4" "yoe mod 4 \<le> 3"
    and "yoe = parts_year (yoe div 100) (yoe mod 100 div 4) (yoe mod 4)"
proof -
  have "yoe mod 100 mod 4 = yoe mod 4" by (simp add: mod_mod_cancel)
  then show "yoe = parts_year (yoe div 100) (yoe mod 100 div 4) (yoe mod 4)"
    using div_mult_mod_eq [of yoe 100] div_mult_mod_eq [of "yoe mod 100" 4]
    unfolding parts_year_def by linarith
  have "yoe mod 100 < 100" by simp
  then show "yoe mod 100 div 4 \<le> 24" by linarith
qed (use assms in auto)

lemma date_parts:
  assumes "valid_date y m d"
  obtains era c q z t mp where "era_parts c q z t" "0 \<le> mp" "mp \<le> 11" "month_number mp = m"
    and "t = month_start mp + d - 1" "mp = (5 * t + 2) div 153"
    and "y = parts_year c q z + era * 400 + (if m \<le> 2 then 1 else 0)"
proof -
  define mp where "mp = m + (if m > 2 then - 3 else 9)"
  define yy where "yy = y - (if m \<le> 2 then 1 else 0)"
  have date: "1 \<le> m" "m \<le> 12" "1 \<le> d" "d \<le> days_in_month y m"
    using assms by (simp_all add: valid_date_def)
  have mp: "0 \<le> mp" "mp \<le> 11" "month_number mp = m"
    using date unfolding mp_def month_number_def by auto
  define t where "t = month_start mp + d - 1"
  note dm = day_of_month [OF mp(1,2) date(3) date(4) [folded mp(3)] t_def]
  define yoe era where "yoe = yy mod 400" and "era = yy div 400"
  define c q z where "c = yoe div 100" and "q = yoe mod 100 div 4" and "z = yoe mod 4"
  have "0 \<le> yoe" "yoe \<le> 399" unfolding yoe_def by simp_all
  note cqz = year_parts [OF this, folded c_def q_def z_def]
  have y: "y = parts_year c q z + era * 400 + (if m \<le> 2 then 1 else 0)"
    using cqz(7) div_mult_mod_eq [of yy 400] unfolding yoe_def era_def yy_def by simp
  have "z = 3 \<and> (q \<noteq> 24 \<or> c = 3)" if "t = 365"
  proof -
    have "m = 2" "leap_year y" using dm(4) [OF that] mp(3) by simp_all
    then show ?thesis using leap_year_parts [OF cqz(1-6), of era] y by simp
  qed
  then have "era_parts c q z t" using cqz dm(2,3) by (simp add: era_parts_def)
  from that [OF this mp t_def dm(1) [symmetric] y] show ?thesis .
qed

lemma civil_from_epoch_inverse:
  assumes "valid_civil (y, m, d, h, mi, s)"
  shows "civil_from_epoch (epoch_of_civil (y, m, d, h, mi, s)) = (y, m, d, h, mi, s)"
proof -
  have date: "valid_date y m d" and time: "valid_time h mi s"
    using assms by (simp_all add: valid_civil_def)
  obtain era c q z t mp where parts: "era_parts c q z t"
    and mp: "0 \<le> mp" "mp \<le> 11" "month_number mp = m"
    and t: "t = month_start mp + d - 1" "mp = (5 * t + 2) div 153"
    and y: "y = parts_year c q z + era * 400 + (if m \<le> 2 then 1 else 0)"
    using date by (rule date_parts)
  define sod where "sod = h * 3600 + mi * 60 + s"
  note sod = time_of_parts [OF time sod_def]
  have "epoch_of_civil (y, m, d, h, mi, s)
      = (era * 146097 + parts_day c q z t - 719468) * 86400 + sod"
    using days_from_civil_parts [OF parts mp(1,2) t(1), of era] y mp(3)
    by (simp add: epoch_of_civil_def sod_def)
  from civil_from_epoch_parts [OF parts this sod(1,2) t(2)]
  show ?thesis using y sod t(1) mp(3) by simp
qed

lemma days_from_civil_bounds:
  assumes "valid_date y m d" "- 9999 \<le> y" "y \<le> 9999"
  shows "- 5000000 \<le> days_from_civil y m d" "days_from_civil y m d \<le> 5000000"
proof -
  obtain era c q z t mp where parts: "era_parts c q z t"
    and mp: "0 \<le> mp" "mp \<le> 11" "month_number mp = m"
    and t: "t = month_start mp + d - 1" "mp = (5 * t + 2) div 153"
    and y: "y = parts_year c q z + era * 400 + (if m \<le> 2 then 1 else 0)"
    using assms(1) by (rule date_parts)
  note b = era_parts_bounds [OF parts]
  have "- 26 \<le> era" "era \<le> 25" using y assms(2,3) b by (auto split: if_splits)
  then show "- 5000000 \<le> days_from_civil y m d" "days_from_civil y m d \<le> 5000000"
    using days_from_civil_parts [OF parts mp(1,2) t(1), of era] y mp(3) b by auto
qed

lemma january_february:
  assumes "0 \<le> t" "t \<le> 365"
  shows "month_number ((5 * t + 2) div 153) \<le> 2 \<longleftrightarrow> 306 \<le> t"
  using assms unfolding month_number_def by auto

lemma civil_year_range:
  "1 \<le> fst (civil_from_epoch s) \<and> fst (civil_from_epoch s) \<le> 9999
   \<longleftrightarrow> MIN_EPOCH_SECONDS \<le> s \<and> s \<le> MAX_EPOCH_SECONDS"
proof -
  obtain era c q z t sod where parts: "era_parts c q z t"
    and s: "s = (era * 146097 + parts_day c q z t - 719468) * 86400 + sod" "0 \<le> sod" "sod < 86400"
    by (rule epoch_parts)
  have t: "0 \<le> t" "t \<le> 365" using parts by (simp_all add: era_parts_def)
  have year: "fst (civil_from_epoch s) = parts_year c q z + era * 400 + (if 306 \<le> t then 1 else 0)"
    unfolding civil_from_epoch_parts [OF parts s refl] using january_february [OF t] by simp
  have range: "MIN_EPOCH_SECONDS \<le> s \<and> s \<le> MAX_EPOCH_SECONDS
      \<longleftrightarrow> 306 \<le> era * 146097 + parts_day c q z t \<and> era * 146097 + parts_day c q z t \<le> 3652364"
    using s unfolding MIN_EPOCH_SECONDS_def MAX_EPOCH_SECONDS_def by auto
  note b = era_parts_bounds [OF parts] and p = parts [unfolded era_parts_def]
  have low: "1 \<le> parts_year c q z + era * 400 + (if 306 \<le> t then 1 else 0)
      \<longleftrightarrow> 306 \<le> era * 146097 + parts_day c q z t"
  proof (cases "era = 0")
    case True
    show ?thesis
      using p unfolding True parts_year_def parts_day_def by auto
  next
    case False
    then consider "era \<le> - 1" | "1 \<le> era" by linarith
    then show ?thesis by cases (use b in auto)
  qed
  have high: "parts_year c q z + era * 400 + (if 306 \<le> t then 1 else 0) \<le> 9999
      \<longleftrightarrow> era * 146097 + parts_day c q z t \<le> 3652364"
  proof (cases "era = 24")
    case True
    show ?thesis
      using p unfolding True parts_year_def parts_day_def by auto
  next
    case False
    then consider "era \<le> 23" | "25 \<le> era" by linarith
    then show ?thesis by cases (use b in auto)
  qed
  show ?thesis unfolding year range low high ..
qed


text \<open>C19. The calendar arithmetic is exact on the whole proleptic Gregorian calendar.  The civil date
  and time computed for a second are a valid date and a valid time, and converting them back gives
  the second; every valid civil date and time is recovered from its second; and the admitted
  range of instants is exactly the years 1 to 9999.\<close>

theorem civil_calendar_exact:
  "(valid_civil civil \<longrightarrow> civil_from_epoch (epoch_of_civil civil) = civil)
   \<and> valid_civil (civil_from_epoch s) \<and> epoch_of_civil (civil_from_epoch s) = s
   \<and> (1 \<le> fst (civil_from_epoch s) \<and> fst (civil_from_epoch s) \<le> 9999
      \<longleftrightarrow> MIN_EPOCH_SECONDS \<le> s \<and> s \<le> MAX_EPOCH_SECONDS)"
  using civil_from_epoch_inverse civil_from_epoch_valid civil_year_range by (cases civil) blast

theorem civil_calendar_exact_witness:
  "valid_civil (2000, 2, 29, 23, 59, 59)
   \<and> civil_from_epoch (epoch_of_civil (2000, 2, 29, 23, 59, 59)) = (2000, 2, 29, 23, 59, 59)"
  using civil_calendar_exact [of "(2000, 2, 29, 23, 59, 59)"]
  by (simp add: valid_civil_def valid_date_def valid_time_def days_in_month_def leap_year_def)


end
