(* ===== verification/Time_Model.thy ===== *)
theory Time_Model
  imports Civil_Time Values
begin

text \<open>
  The source envelopes of \<open>uste-time/src/model.rs\<close>: what was received, how it was interpreted, what
  it resolved to, and the consistency check every envelope passes when it is built.  Text is the
  byte list of its UTF-8 encoding; a \<open>BoundedString\<close> is such a list within its limit.
\<close>

section \<open>Text constants\<close>

definition ascii :: "string \<Rightarrow> bytes" where
  "ascii s = map of_char s"

lemma ascii_inject [simp]: "ascii s = ascii t \<longleftrightarrow> s = t"
proof -
  have "inj (of_char :: char \<Rightarrow> u8)"
  proof (rule injI)
    fix a b :: char
    assume "(of_char a :: u8) = of_char b"
    then have "unat (of_char a :: u8) = unat (of_char b :: u8)" by simp
    moreover have "unat (of_char c :: u8) = of_char c" for c :: char
    proof -
      have "(of_char c :: u8) = of_nat (of_char c)" by (cases c) simp
      moreover have "(of_char c :: nat) < 256" by simp
      ultimately show ?thesis by (simp add: unat_of_nat take_bit_nat_eq_self)
    qed
    ultimately show "a = b" by (simp add: of_char_eq_iff)
  qed
  then show ?thesis by (simp add: ascii_def inj_map_eq_map)
qed

lemma length_ascii [simp]: "length (ascii s) = length s"
  by (simp add: ascii_def)

definition ENVELOPE_PROFILE :: bytes where "ENVELOPE_PROFILE = ascii ''uste-time-envelope-v1''"
definition NORMALIZATION_PROFILE :: bytes where "NORMALIZATION_PROFILE = ascii ''posix-utc-v1''"
definition PARSER_PROFILE :: bytes where "PARSER_PROFILE = ascii ''strict-rfc3339-v1''"
definition CALENDAR_PROFILE :: bytes where "CALENDAR_PROFILE = ascii ''proleptic-gregorian-v1''"
definition TZDB_VERSION :: bytes where "TZDB_VERSION = ascii ''2026c''"

definition TZDB_PROFILE_DIGEST :: bytes where
  "TZDB_PROFILE_DIGEST =
     [0x8e, 0x18, 0xc4, 0xfd, 0x3a, 0xad, 0x2c, 0x58, 0xd4, 0x53, 0x40, 0xe3, 0x56, 0xa0, 0x22, 0x29,
      0xce, 0x68, 0x11, 0xc8, 0x34, 0x27, 0xc5, 0xb0, 0x86, 0xad, 0x44, 0x68, 0xb7, 0x58, 0x22, 0x09]"

definition MAX_ORIGINAL_BYTES :: nat where "MAX_ORIGINAL_BYTES = 4096"
definition MAX_LOCATOR_BYTES :: nat where "MAX_LOCATOR_BYTES = 4096"
definition MAX_ZONE_BYTES :: nat where "MAX_ZONE_BYTES = 255"
definition MAX_ASSUMPTION_BYTES :: nat where "MAX_ASSUMPTION_BYTES = 1024"
definition MAX_ASSUMPTIONS :: nat where "MAX_ASSUMPTIONS = 16"

lemmas time_limits =
  MAX_ORIGINAL_BYTES_def MAX_LOCATOR_BYTES_def MAX_ZONE_BYTES_def MAX_ASSUMPTION_BYTES_def
  MAX_ASSUMPTIONS_def

section \<open>Data\<close>

datatype timestamp_role =
  SourceEvent | SourceCreated | SourceModified | SourcePublished | Received | CommitObservation
  | DerivationAvailable | SimulationAnchor

datatype epoch_unit = Seconds | Milliseconds | Microseconds | Nanoseconds

datatype time_scale = PosixUtc | UtcLeapAware | Tai | Gps | Smeared | ScaleUnknown

datatype fold_choice = Earlier | Later

datatype source_precision =
  PrecisionUnknown | Date | Second | FractionDigits nat | EpochUnit epoch_unit

datatype clock_uncertainty = UncertaintyUnknown | BoundedNanoseconds nat nat

datatype resolution_status =
  StatusResolved | StatusMissing | StatusAmbiguous | StatusInvalid | StatusUnsupported

datatype resolution_reason =
  Accepted | MissingValue | MissingZone | DateOnlyWithoutPolicy | UnitRequired | InvalidSyntax
  | OutOfRange | UnknownOffset | LeapSecond | UnsupportedTimeScale | UnknownZone | FoldChoiceRequired
  | UnnecessaryFoldChoice | NonexistentLocalTime | OffsetZoneConflict

record timezone_profile =
  tz_version :: bytes
  tz_digest :: bytes

definition PINNED :: timezone_profile where
  "PINNED = \<lparr>tz_version = TZDB_VERSION, tz_digest = TZDB_PROFILE_DIGEST\<rparr>"

text \<open>The errors of the crate.  \<open>TPanicked\<close> is not one of them: it stands for the panic of an \<open>expect\<close>.\<close>

datatype time_error =
    TFieldTooLarge string nat nat
  | TInvalidEnvelope
  | TInvalidEncoding
  | TUnsupportedProfile
  | TPinnedProfileUnavailable
  | TResourceLimit
  | TPanicked

definition bounded :: "bytes \<Rightarrow> nat \<Rightarrow> string \<Rightarrow> time_error + bytes" where
  "bounded v maximum field =
     (if length v > maximum then Inl (TFieldTooLarge field (length v) maximum)
      else (case check_inline_length (length v) of Inl _ \<Rightarrow> Inl TResourceLimit | Inr _ \<Rightarrow> Inr v))"

record source_descriptor =
  sd_artifact :: record_ref
  sd_artifact_version :: nat
  sd_locator :: bytes

definition source_descriptor_new ::
  "record_ref \<Rightarrow> nat \<Rightarrow> bytes \<Rightarrow> time_error + source_descriptor" where
  "source_descriptor_new artifact artifact_version locator =
     (if artifact_version = 0 then Inl TInvalidEnvelope
      else
        rbind (bounded locator MAX_LOCATOR_BYTES ''locator'') (\<lambda>locator.
        Inr \<lparr>sd_artifact = artifact, sd_artifact_version = artifact_version, sd_locator = locator\<rparr>))"

record authorized_assumption =
  aa_statement :: bytes
  aa_authority :: record_ref

definition authorized_assumption_new ::
  "bytes \<Rightarrow> record_ref \<Rightarrow> time_error + authorized_assumption" where
  "authorized_assumption_new statement authority =
     rbind (bounded statement MAX_ASSUMPTION_BYTES ''assumption'') (\<lambda>statement.
     Inr \<lparr>aa_statement = statement, aa_authority = authority\<rparr>)"

record time_interpretation =
  ti_scale :: time_scale
  ti_epoch_unit :: "epoch_unit option"
  ti_supplied_offset :: "int option"
  ti_zone :: "bytes option"
  ti_fold :: "fold_choice option"

datatype resolution =
    Resolved utc_instant int
  | Missing resolution_reason
  | Ambiguous resolution_reason
  | Invalid resolution_reason
  | Unsupported resolution_reason

fun status_of :: "resolution \<Rightarrow> resolution_status" where
  "status_of (Resolved _ _) = StatusResolved"
| "status_of (Missing _) = StatusMissing"
| "status_of (Ambiguous _) = StatusAmbiguous"
| "status_of (Invalid _) = StatusInvalid"
| "status_of (Unsupported _) = StatusUnsupported"

fun reason_of :: "resolution \<Rightarrow> resolution_reason" where
  "reason_of (Resolved _ _) = Accepted"
| "reason_of (Missing reason) = reason"
| "reason_of (Ambiguous reason) = reason"
| "reason_of (Invalid reason) = reason"
| "reason_of (Unsupported reason) = reason"

fun instant_of :: "resolution \<Rightarrow> utc_instant option" where
  "instant_of (Resolved instant _) = Some instant"
| "instant_of _ = None"

fun effective_offset_seconds :: "resolution \<Rightarrow> int option" where
  "effective_offset_seconds (Resolved _ offset) = Some offset"
| "effective_offset_seconds _ = None"

record timestamp_envelope =
  te_source :: source_descriptor
  te_role :: timestamp_role
  te_original :: bytes
  te_interpretation :: time_interpretation
  te_resolution :: resolution
  te_precision :: source_precision
  te_uncertainty :: clock_uncertainty
  te_assumptions :: "authorized_assumption list"
  te_timezone_profile :: "timezone_profile option"

section \<open>The consistency check\<close>

definition valid_offset :: "int \<Rightarrow> bool" where
  "valid_offset offset \<longleftrightarrow> offset \<ge> - 86340 \<and> offset \<le> 86340 \<and> trem offset 60 = 0"

fun resolution_reason_matches :: "resolution \<Rightarrow> bool" where
  "resolution_reason_matches (Resolved _ _) = True"
| "resolution_reason_matches (Missing reason) = (reason = MissingValue)"
| "resolution_reason_matches (Ambiguous reason) =
     (reason \<in> {MissingZone, DateOnlyWithoutPolicy, UnknownOffset, FoldChoiceRequired})"
| "resolution_reason_matches (Invalid reason) =
     (reason \<in> {UnitRequired, InvalidSyntax, OutOfRange, UnknownZone, UnnecessaryFoldChoice,
                NonexistentLocalTime, OffsetZoneConflict})"
| "resolution_reason_matches (Unsupported reason) = (reason \<in> {LeapSecond, UnsupportedTimeScale})"

fun is_resolved :: "resolution \<Rightarrow> bool" where
  "is_resolved (Resolved _ _) = True"
| "is_resolved _ = False"

fun is_missing :: "resolution \<Rightarrow> bool" where
  "is_missing (Missing _) = True"
| "is_missing _ = False"

fun wall_precision :: "source_precision \<Rightarrow> bool" where
  "wall_precision Second = True"
| "wall_precision (FractionDigits _) = True"
| "wall_precision _ = False"

fun is_epoch_precision :: "source_precision \<Rightarrow> bool" where
  "is_epoch_precision (EpochUnit _) = True"
| "is_epoch_precision _ = False"

definition empty_interpretation :: "time_interpretation \<Rightarrow> bool" where
  "empty_interpretation i \<longleftrightarrow>
     ti_epoch_unit i = None \<and> ti_supplied_offset i = None \<and> ti_zone i = None \<and> ti_fold i = None"


definition semantic_shape_matches ::
  "time_interpretation \<Rightarrow> resolution \<Rightarrow> source_precision \<Rightarrow> bytes \<Rightarrow> bool" where
  "semantic_shape_matches i r p original =
     (if r = Missing MissingValue then
        original = [] \<and> ti_scale i = ScaleUnknown \<and> empty_interpretation i \<and> p = PrecisionUnknown
      else if p = Date then
        ti_scale i = PosixUtc \<and> empty_interpretation i
          \<and> (r = Ambiguous DateOnlyWithoutPolicy \<or> r = Invalid InvalidSyntax)
      else if ti_scale i \<noteq> PosixUtc then
        ti_supplied_offset i = None \<and> ti_zone i = None \<and> ti_fold i = None
          \<and> r = Unsupported UnsupportedTimeScale
      else if r = Unsupported UnsupportedTimeScale then False
      else if ti_epoch_unit i \<noteq> None then
        (case r of
           Resolved _ offset \<Rightarrow> offset = 0
         | Invalid reason \<Rightarrow> reason = OutOfRange
         | _ \<Rightarrow> False)
      else
        (case r of
           Invalid UnitRequired \<Rightarrow> empty_interpretation i \<and> p = PrecisionUnknown
         | Unsupported LeapSecond \<Rightarrow> wall_precision p
         | Ambiguous UnknownOffset \<Rightarrow> empty_interpretation i \<and> wall_precision p
         | Ambiguous MissingZone \<Rightarrow> empty_interpretation i \<and> wall_precision p
         | Ambiguous FoldChoiceRequired \<Rightarrow> ti_zone i \<noteq> None \<and> ti_fold i = None \<and> wall_precision p
         | Invalid UnknownZone \<Rightarrow> ti_zone i \<noteq> None \<and> wall_precision p
         | Invalid NonexistentLocalTime \<Rightarrow> ti_zone i \<noteq> None \<and> wall_precision p
         | Invalid UnnecessaryFoldChoice \<Rightarrow> ti_fold i \<noteq> None \<and> wall_precision p
         | Invalid OffsetZoneConflict \<Rightarrow>
             ti_zone i \<noteq> None \<and> ti_supplied_offset i \<noteq> None \<and> wall_precision p
         | Invalid InvalidSyntax \<Rightarrow> p = PrecisionUnknown
         | Invalid OutOfRange \<Rightarrow>
             (ti_zone i \<noteq> None \<or> ti_supplied_offset i \<noteq> None) \<and> wall_precision p
         | Resolved _ _ \<Rightarrow> wall_precision p
         | _ \<Rightarrow> False))"

definition envelope_checked ::
  "source_descriptor \<Rightarrow> timestamp_role \<Rightarrow> bytes \<Rightarrow> time_interpretation \<Rightarrow> resolution \<Rightarrow>
   source_precision \<Rightarrow> clock_uncertainty \<Rightarrow> authorized_assumption list \<Rightarrow> timezone_profile option \<Rightarrow>
   time_error + timestamp_envelope" where
  "envelope_checked source role original i r p uncertainty assumptions tz =
     (if length assumptions > MAX_ASSUMPTIONS
         \<or> (case p of FractionDigits n \<Rightarrow> n = 0 \<or> n \<ge> 10 | _ \<Rightarrow> False)
         \<or> (case (p, ti_epoch_unit i) of (EpochUnit left, Some right) \<Rightarrow> left \<noteq> right | _ \<Rightarrow> False)
         \<or> is_epoch_precision p \<noteq> (ti_epoch_unit i \<noteq> None)
         \<or> (case ti_supplied_offset i of None \<Rightarrow> False | Some offset \<Rightarrow> \<not> valid_offset offset)
             \<and> r \<noteq> Invalid InvalidSyntax
         \<or> (case ti_zone i of None \<Rightarrow> False | Some zone \<Rightarrow> length zone > MAX_ZONE_BYTES)
         \<or> (case tz of None \<Rightarrow> False | Some profile \<Rightarrow> profile \<noteq> PINNED)
         \<or> (tz \<noteq> None) \<noteq> (ti_zone i \<noteq> None)
         \<or> (case effective_offset_seconds r of None \<Rightarrow> False
             | Some offset \<Rightarrow> \<not> (- 93599 \<le> offset \<and> offset \<le> 93599))
         \<or> is_resolved r \<and> ti_scale i \<noteq> PosixUtc
         \<or> is_resolved r \<and> (p = PrecisionUnknown \<or> p = Date)
         \<or> is_resolved r
             \<and> (case ti_supplied_offset i of None \<Rightarrow> False
                 | Some supplied \<Rightarrow> effective_offset_seconds r \<noteq> Some supplied)
         \<or> p = Date \<and> \<not> (r = Ambiguous DateOnlyWithoutPolicy \<or> r = Invalid InvalidSyntax)
         \<or> is_missing r \<and> p \<noteq> PrecisionUnknown
         \<or> ti_epoch_unit i \<noteq> None
             \<and> (ti_zone i \<noteq> None \<or> ti_fold i \<noteq> None \<or> ti_supplied_offset i \<noteq> None
                 \<or> (case r of Resolved _ offset \<Rightarrow> offset \<noteq> 0 | _ \<Rightarrow> False))
         \<or> ti_epoch_unit i = None \<and> is_resolved r \<and> ti_zone i = None \<and> ti_supplied_offset i = None
         \<or> is_resolved r \<and> ti_fold i \<noteq> None \<and> ti_zone i = None
         \<or> \<not> semantic_shape_matches i r p original
         \<or> \<not> resolution_reason_matches r
      then Inl TInvalidEnvelope
      else
        rbind (bounded original MAX_ORIGINAL_BYTES ''original'') (\<lambda>original.
        Inr \<lparr>te_source = source, te_role = role, te_original = original, te_interpretation = i,
             te_resolution = r, te_precision = p, te_uncertainty = uncertainty,
             te_assumptions = assumptions, te_timezone_profile = tz\<rparr>))"


end
