(* ===== verification/Spatial_Model.thy ===== *)
theory Spatial_Model
  imports Time_Model
begin

text \<open>
  The spatial primitives of \<open>uste-types/src/spatial.rs\<close> and the spatial records of
  \<open>uste-spatial/src/model.rs\<close> with their checking constructors.  A nanometre count is a 128-bit
  integer and an angle a 64-bit one, both kept as integers with their range stated where it
  matters; a radius is an unsigned 128-bit word; a \<open>SpatialVersion\<close> is a \<open>NonZeroU64\<close>, a natural
  in the range \<open>1 .. u64::MAX\<close>.
\<close>

section \<open>Primitives\<close>

definition MAX_FRAME_DEPTH :: nat where "MAX_FRAME_DEPTH = 32"
definition HALF_TURN_NANODEGREES :: int where "HALF_TURN_NANODEGREES = 180000000000"
definition QUARTER_TURN_NANODEGREES :: int where "QUARTER_TURN_NANODEGREES = 90000000000"

lemmas turns = HALF_TURN_NANODEGREES_def QUARTER_TURN_NANODEGREES_def

datatype spatial_primitive_error =
  PInvalidVersion | PVersionExhausted | PInvalidLatitude | PInvalidLongitude | PInvalidBounds

type_synonym spatial_version = nat

definition version_ok :: "spatial_version \<Rightarrow> bool" where
  "version_ok v \<longleftrightarrow> 1 \<le> v \<and> v \<le> usize_max"

definition VERSION_FIRST :: spatial_version where "VERSION_FIRST = 1"

definition version_new :: "nat \<Rightarrow> spatial_primitive_error + spatial_version" where
  "version_new v = (if v = 0 then Inl PInvalidVersion else Inr v)"

definition version_checked_next :: "spatial_version \<Rightarrow> spatial_primitive_error + spatial_version" where
  "version_checked_next v =
     (case checked_add v 1 of Some n \<Rightarrow> version_new n | None \<Rightarrow> Inl PVersionExhausted)"

datatype versioned_ref = VersionedRef (vr_record: record_ref) (vr_version: spatial_version)

definition longitude_new :: "int \<Rightarrow> spatial_primitive_error + int" where
  "longitude_new v =
     (if v < - HALF_TURN_NANODEGREES \<or> v > HALF_TURN_NANODEGREES then Inl PInvalidLongitude
      else if v = HALF_TURN_NANODEGREES then Inr (- HALF_TURN_NANODEGREES)
      else Inr v)"

definition latitude_new :: "int \<Rightarrow> spatial_primitive_error + int" where
  "latitude_new v =
     (if v < - QUARTER_TURN_NANODEGREES \<or> v > QUARTER_TURN_NANODEGREES then Inl PInvalidLatitude
      else Inr v)"

definition is_pole :: "int \<Rightarrow> bool" where
  "is_pole latitude \<longleftrightarrow>
     latitude = - QUARTER_TURN_NANODEGREES \<or> latitude = QUARTER_TURN_NANODEGREES"

datatype local_point2 = LocalPoint2 (lp2_x: int) (lp2_y: int)

datatype local_point3 = LocalPoint3 (lp3_x: int) (lp3_y: int) (lp3_z: int)

datatype geographic_point =
  GeographicPoint (gp_longitude: int) (gp_latitude: int) (gp_height: "int option")

definition geographic_point_new :: "int \<Rightarrow> int \<Rightarrow> int option \<Rightarrow> geographic_point" where
  "geographic_point_new longitude latitude height =
     GeographicPoint (if is_pole latitude then 0 else longitude) latitude height"

datatype local_box2 = LocalBox2 (lb2_min: local_point2) (lb2_max: local_point2)

definition local_box2_new :: "local_point2 \<Rightarrow> local_point2 \<Rightarrow> spatial_primitive_error + local_box2" where
  "local_box2_new lo hi =
     (if lp2_x lo > lp2_x hi \<or> lp2_y lo > lp2_y hi then Inl PInvalidBounds
      else Inr (LocalBox2 lo hi))"

datatype local_box3 = LocalBox3 (lb3_min: local_point3) (lb3_max: local_point3)

definition local_box3_new :: "local_point3 \<Rightarrow> local_point3 \<Rightarrow> spatial_primitive_error + local_box3" where
  "local_box3_new lo hi =
     (if lp3_x lo > lp3_x hi \<or> lp3_y lo > lp3_y hi \<or> lp3_z lo > lp3_z hi then Inl PInvalidBounds
      else Inr (LocalBox3 lo hi))"

datatype geographic_box =
  GeographicBox (gb_west: int) (gb_east: int) (gb_south: int) (gb_north: int)

definition geographic_box_new ::
  "int \<Rightarrow> int \<Rightarrow> int \<Rightarrow> int \<Rightarrow> spatial_primitive_error + geographic_box" where
  "geographic_box_new west east south north =
     (if south > north then Inl PInvalidBounds else Inr (GeographicBox west east south north))"

datatype spatial_position =
  Local2 local_point2 | Local3 local_point3 | Geographic geographic_point

datatype coordinate_system = GeographicWgs84 | LocalCartesian2 | LocalCartesian3

datatype axis_order = LongitudeLatitude | Xy | Xyz

datatype handedness = Right

datatype length_unit = Nanometre

datatype angular_unit = Nanodegree

datatype vertical_reference = Wgs84Ellipsoid

datatype coordinate_profile = CoordinateProfile (profile_system: coordinate_system)

definition profile_axis_order :: "coordinate_profile \<Rightarrow> axis_order" where
  "profile_axis_order p =
     (case profile_system p of
        GeographicWgs84 \<Rightarrow> LongitudeLatitude | LocalCartesian2 \<Rightarrow> Xy | LocalCartesian3 \<Rightarrow> Xyz)"

definition profile_handedness :: "coordinate_profile \<Rightarrow> handedness option" where
  "profile_handedness p =
     (case profile_system p of
        GeographicWgs84 \<Rightarrow> None | LocalCartesian2 \<Rightarrow> Some Right | LocalCartesian3 \<Rightarrow> Some Right)"

definition profile_length_unit :: "coordinate_profile \<Rightarrow> length_unit" where
  "profile_length_unit p = Nanometre"

definition profile_angular_unit :: "coordinate_profile \<Rightarrow> angular_unit option" where
  "profile_angular_unit p =
     (case profile_system p of
        GeographicWgs84 \<Rightarrow> Some Nanodegree | LocalCartesian2 \<Rightarrow> None | LocalCartesian3 \<Rightarrow> None)"

definition profile_vertical_reference :: "coordinate_profile \<Rightarrow> vertical_reference option" where
  "profile_vertical_reference p =
     (case profile_system p of
        GeographicWgs84 \<Rightarrow> Some Wgs84Ellipsoid | LocalCartesian2 \<Rightarrow> None | LocalCartesian3 \<Rightarrow> None)"

definition profile_accepts :: "coordinate_profile \<Rightarrow> spatial_position \<Rightarrow> bool" where
  "profile_accepts p position =
     (case (profile_system p, position) of
        (GeographicWgs84, Geographic _) \<Rightarrow> True
      | (LocalCartesian2, Local2 _) \<Rightarrow> True
      | (LocalCartesian3, Local3 _) \<Rightarrow> True
      | _ \<Rightarrow> False)"

section \<open>Records\<close>

definition MAX_SESSION_BYTES :: nat where "MAX_SESSION_BYTES = 255"
definition MAX_OBSERVATIONS_PER_RESULT :: nat where "MAX_OBSERVATIONS_PER_RESULT = 100000"
definition MAX_SPATIAL_BATCH_RECORDS :: nat where "MAX_SPATIAL_BATCH_RECORDS = 10000"
definition MAX_SPATIAL_CATALOG_ENTRIES :: nat where "MAX_SPATIAL_CATALOG_ENTRIES = 1000000"
definition MAX_SPATIAL_CATALOG_LOGICAL_BYTES :: nat where
  "MAX_SPATIAL_CATALOG_LOGICAL_BYTES = 64 * 1024 * 1024"

lemmas spatial_limits =
  MAX_SESSION_BYTES_def MAX_OBSERVATIONS_PER_RESULT_def MAX_SPATIAL_BATCH_RECORDS_def
  MAX_SPATIAL_CATALOG_ENTRIES_def MAX_SPATIAL_CATALOG_LOGICAL_BYTES_def MAX_FRAME_DEPTH_def

datatype spatial_error =
    SInvalidVersion | SVersionExhausted | SVersionConflict | SScopeMismatch | SMissingWorld
  | SMissingFrame | SMissingFrameVersion | SMissingGeometryVersion | SMissingObservation
  | SInvalidRootFrame | SInvalidPredecessor | SInvalidSession | SInvalidObservation
  | SInvalidCorrection | SIncompatibleFrame | SFrameCycle | SResourceLimit | SDuplicateRecord
  | SSourceEventConflict | SInvalidEncoding | SUnsupportedProfile

fun from_primitive :: "spatial_primitive_error \<Rightarrow> spatial_error" where
  "from_primitive PInvalidVersion = SInvalidVersion"
| "from_primitive PVersionExhausted = SVersionExhausted"
| "from_primitive PInvalidLatitude = SInvalidEncoding"
| "from_primitive PInvalidLongitude = SInvalidEncoding"
| "from_primitive PInvalidBounds = SInvalidEncoding"

definition same_scope :: "record_ref \<Rightarrow> record_ref \<Rightarrow> spatial_error + unit" where
  "same_scope left right =
     (if rr_database left = rr_database right \<and> rr_namespace left = rr_namespace right then Inr ()
      else Inl SScopeMismatch)"

definition same_source_scope :: "record_ref \<Rightarrow> source_event_ref \<Rightarrow> spatial_error + unit" where
  "same_source_scope left right =
     (if rr_database left = ns_database (se_scope right)
         \<and> rr_namespace left = ns_namespace (se_scope right) then Inr ()
      else Inl SScopeMismatch)"

record world_definition =
  wd_id :: record_ref
  wd_version :: spatial_version
  wd_root_frame :: versioned_ref

definition world_new ::
  "record_ref \<Rightarrow> spatial_version \<Rightarrow> versioned_ref \<Rightarrow> spatial_error + world_definition" where
  "world_new rid version root_frame =
     rbind (same_scope rid (vr_record root_frame)) (\<lambda>_.
     Inr \<lparr>wd_id = rid, wd_version = version, wd_root_frame = root_frame\<rparr>)"

datatype frame_parent = FrameParent (fp_frame: versioned_ref) (fp_transform: versioned_ref)

record frame_definition =
  fd_id :: record_ref
  fd_version :: spatial_version
  fd_world :: record_ref
  fd_profile :: coordinate_profile
  fd_parent :: "frame_parent option"

definition fd_kind :: "frame_definition \<Rightarrow> coordinate_system" where
  "fd_kind f = profile_system (fd_profile f)"

definition frame_new ::
  "record_ref \<Rightarrow> spatial_version \<Rightarrow> record_ref \<Rightarrow> coordinate_system \<Rightarrow> frame_parent option \<Rightarrow>
   spatial_error + frame_definition" where
  "frame_new rid version world kind parent =
     rbind (same_scope rid world) (\<lambda>_.
     rbind (case parent of
         None \<Rightarrow> Inr ()
       | Some p \<Rightarrow>
           rbind (same_scope rid (vr_record (fp_frame p))) (\<lambda>_.
           rbind (same_scope rid (vr_record (fp_transform p))) (\<lambda>_.
           ensure (vr_record (fp_frame p) \<noteq> rid) SFrameCycle))) (\<lambda>_.
     Inr \<lparr>fd_id = rid, fd_version = version, fd_world = world, fd_profile = CoordinateProfile kind,
          fd_parent = parent\<rparr>))"

datatype geometry =
    GLocalPoint2 local_point2
  | GLocalPoint3 local_point3
  | GGeographicPoint geographic_point
  | GLocalBox2 local_box2
  | GLocalBox3 local_box3
  | GGeographicBox geographic_box

fun geometry_point :: "geometry \<Rightarrow> spatial_position option" where
  "geometry_point (GLocalPoint2 p) = Some (Local2 p)"
| "geometry_point (GLocalPoint3 p) = Some (Local3 p)"
| "geometry_point (GGeographicPoint p) = Some (Geographic p)"
| "geometry_point _ = None"

fun accepts_geometry :: "coordinate_system \<Rightarrow> geometry \<Rightarrow> bool" where
  "accepts_geometry GeographicWgs84 (GGeographicPoint _) = True"
| "accepts_geometry GeographicWgs84 (GGeographicBox _) = True"
| "accepts_geometry LocalCartesian2 (GLocalPoint2 _) = True"
| "accepts_geometry LocalCartesian2 (GLocalBox2 _) = True"
| "accepts_geometry LocalCartesian3 (GLocalPoint3 _) = True"
| "accepts_geometry LocalCartesian3 (GLocalBox3 _) = True"
| "accepts_geometry _ _ = False"

datatype position_uncertainty = PositionUnknown | Radial u128

record geometry_version =
  gv_id :: record_ref
  gv_version :: spatial_version
  gv_world :: record_ref
  gv_frame :: versioned_ref
  gv_geometry :: geometry
  gv_precision :: position_uncertainty
  gv_predecessor :: "versioned_ref option"

definition geometry_version_new ::
  "record_ref \<Rightarrow> spatial_version \<Rightarrow> record_ref \<Rightarrow> versioned_ref \<Rightarrow> geometry \<Rightarrow> position_uncertainty \<Rightarrow>
   versioned_ref option \<Rightarrow> spatial_error + geometry_version" where
  "geometry_version_new rid version world frame geometry precision predecessor =
     rbind (same_scope rid world) (\<lambda>_.
     rbind (same_scope rid (vr_record frame)) (\<lambda>_.
     rbind (ensure (case predecessor of
         None \<Rightarrow> True
       | Some p \<Rightarrow> \<not> (vr_record p \<noteq> rid \<or> vr_version p \<ge> version)) SInvalidPredecessor) (\<lambda>_.
     Inr \<lparr>gv_id = rid, gv_version = version, gv_world = world, gv_frame = frame, gv_geometry = geometry,
          gv_precision = precision, gv_predecessor = predecessor\<rparr>)))"

datatype observation_key =
  ObservationKey (key_source: record_ref) (key_session: bytes) (key_event: source_event_ref)

definition observation_key_new ::
  "record_ref \<Rightarrow> bytes \<Rightarrow> source_event_ref \<Rightarrow> spatial_error + observation_key" where
  "observation_key_new source session event =
     rbind (same_source_scope source event) (\<lambda>_.
     rbind (ensure (\<not> (session = [] \<or> length session > MAX_SESSION_BYTES)) SInvalidSession) (\<lambda>_.
     case check_inline_length (length session) of
       Inl _ \<Rightarrow> Inl SResourceLimit
     | Inr _ \<Rightarrow> Inr (ObservationKey source session event)))"

record position_observation =
  po_id :: record_ref
  po_entity :: record_ref
  po_world :: record_ref
  po_frame :: versioned_ref
  po_key :: observation_key
  po_evidence :: record_ref
  po_source_time :: timestamp_envelope
  po_position :: spatial_position
  po_uncertainty :: position_uncertainty
  po_correction_of :: "record_ref option"

definition observation_new ::
  "record_ref \<Rightarrow> record_ref \<Rightarrow> record_ref \<Rightarrow> versioned_ref \<Rightarrow> observation_key \<Rightarrow> record_ref \<Rightarrow>
   timestamp_envelope \<Rightarrow> spatial_position \<Rightarrow> position_uncertainty \<Rightarrow> record_ref option \<Rightarrow>
   spatial_error + position_observation" where
  "observation_new rid entity world frame key evidence source_time position uncertainty correction_of =
     rbind (rfold (\<lambda>reference _. same_scope rid reference)
       [entity, world, vr_record frame, key_source key, evidence] ()) (\<lambda>_.
     rbind (same_source_scope rid (key_event key)) (\<lambda>_.
     rbind (ensure (\<not> (te_role source_time \<noteq> SourceEvent
         \<or> sd_artifact (te_source source_time) \<noteq> evidence)) SInvalidObservation) (\<lambda>_.
     rbind (case correction_of of
         None \<Rightarrow> Inr ()
       | Some previous \<Rightarrow>
           rbind (same_scope rid previous) (\<lambda>_. ensure (previous \<noteq> rid) SInvalidCorrection)) (\<lambda>_.
     Inr \<lparr>po_id = rid, po_entity = entity, po_world = world, po_frame = frame, po_key = key,
          po_evidence = evidence, po_source_time = source_time, po_position = position,
          po_uncertainty = uncertainty, po_correction_of = correction_of\<rparr>))))"

type_synonym observation_references = "record_ref list"

definition observation_references_new ::
  "record_ref list \<Rightarrow> spatial_error + observation_references" where
  "observation_references_new observations =
     (if length observations > MAX_OBSERVATIONS_PER_RESULT then Inl SResourceLimit
      else
        let observations = remdups_adj (sort observations) in
        if length observations < 2 then Inl SInvalidObservation else Inr observations)"

datatype position_knowledge =
    KnowledgeUnknown
  | Observed record_ref
  | Estimated record_ref
  | Simulated record_ref
  | Conflicting observation_references

definition is_unknown :: "position_knowledge \<Rightarrow> bool" where
  "is_unknown k \<longleftrightarrow> (case k of KnowledgeUnknown \<Rightarrow> True | _ \<Rightarrow> False)"

datatype spatial_record =
    World world_definition
  | Frame frame_definition
  | GeometryRecord geometry_version
  | Observation position_observation

fun record_id :: "spatial_record \<Rightarrow> record_ref" where
  "record_id (World w) = wd_id w"
| "record_id (Frame f) = fd_id f"
| "record_id (GeometryRecord g) = gv_id g"
| "record_id (Observation obs) = po_id obs"

fun order_key :: "spatial_record \<Rightarrow> nat \<times> record_ref \<times> nat" where
  "order_key (World w) = (0, wd_id w, wd_version w)"
| "order_key (Frame f) = (1, fd_id f, fd_version f)"
| "order_key (GeometryRecord g) = (2, gv_id g, gv_version g)"
| "order_key (Observation obs) = (3, po_id obs, 0)"

section \<open>The derived orders\<close>

instantiation source_event_ref :: linorder
begin

definition less_eq_source_event_ref :: "source_event_ref \<Rightarrow> source_event_ref \<Rightarrow> bool" where
  "less_eq_source_event_ref a b \<longleftrightarrow>
     (se_scope a, se_source_event a) \<le> (se_scope b, se_source_event b)"

definition less_source_event_ref :: "source_event_ref \<Rightarrow> source_event_ref \<Rightarrow> bool" where
  "less_source_event_ref a b \<longleftrightarrow>
     (se_scope a, se_source_event a) < (se_scope b, se_source_event b)"

instance
  by standard
    (auto simp: less_eq_source_event_ref_def less_source_event_ref_def intro: source_event_ref.expand)

end

instantiation observation_key :: linorder
begin

definition less_eq_observation_key :: "observation_key \<Rightarrow> observation_key \<Rightarrow> bool" where
  "less_eq_observation_key a b \<longleftrightarrow>
     (key_source a, key_session a, key_event a) \<le> (key_source b, key_session b, key_event b)"

definition less_observation_key :: "observation_key \<Rightarrow> observation_key \<Rightarrow> bool" where
  "less_observation_key a b \<longleftrightarrow>
     (key_source a, key_session a, key_event a) < (key_source b, key_session b, key_event b)"

instance
  by standard
    (auto simp: less_eq_observation_key_def less_observation_key_def intro: observation_key.expand)

end

section \<open>What the constructors enforce\<close>

lemma version_new_iff: "version_new n = Inr v \<longleftrightarrow> v = n \<and> n \<noteq> 0"
  by (auto simp: version_new_def)

lemma version_checked_next_iff: "version_checked_next v = Inr n \<longleftrightarrow> n = Suc v \<and> v < usize_max"
  by (auto simp: version_checked_next_def version_new_def checked_add_def)

lemma rr_scope_iff: "rr_scope a = rr_scope b \<longleftrightarrow> rr_database a = rr_database b \<and> rr_namespace a = rr_namespace b"
  by (auto simp: rr_database_def rr_namespace_def intro: namespace_ref.expand)

lemma same_scope_iff: "same_scope a b = Inr u \<longleftrightarrow> rr_scope b = rr_scope a"
  by (auto simp: same_scope_def rr_scope_iff)

lemma same_source_scope_iff: "same_source_scope a b = Inr u \<longleftrightarrow> se_scope b = rr_scope a"
  by (auto simp: same_source_scope_def rr_database_def rr_namespace_def intro: namespace_ref.expand)

lemmas scope_iffs = same_scope_iff same_source_scope_iff

lemma world_new_iff:
  "world_new rid v root = Inr w \<longleftrightarrow>
     w = \<lparr>wd_id = rid, wd_version = v, wd_root_frame = root\<rparr> \<and> rr_scope (vr_record root) = rr_scope rid"
  by (auto simp: world_new_def rbind_iffs scope_iffs)

lemma frame_new_iff:
  "frame_new rid v world kind parent = Inr f \<longleftrightarrow>
     f = \<lparr>fd_id = rid, fd_version = v, fd_world = world, fd_profile = CoordinateProfile kind,
          fd_parent = parent\<rparr>
     \<and> rr_scope world = rr_scope rid
     \<and> (case parent of None \<Rightarrow> True | Some p \<Rightarrow> rr_scope (vr_record (fp_frame p)) = rr_scope rid
         \<and> rr_scope (vr_record (fp_transform p)) = rr_scope rid \<and> vr_record (fp_frame p) \<noteq> rid)"
  by (auto simp: frame_new_def rbind_iffs scope_iffs split: option.splits)

lemma geometry_version_new_iff:
  "geometry_version_new rid v world frame geometry precision predecessor = Inr g \<longleftrightarrow>
     g = \<lparr>gv_id = rid, gv_version = v, gv_world = world, gv_frame = frame, gv_geometry = geometry,
          gv_precision = precision, gv_predecessor = predecessor\<rparr>
     \<and> rr_scope world = rr_scope rid \<and> rr_scope (vr_record frame) = rr_scope rid
     \<and> (case predecessor of None \<Rightarrow> True | Some p \<Rightarrow> vr_record p = rid \<and> vr_version p < v)"
  by (auto simp: geometry_version_new_def rbind_iffs scope_iffs split: option.splits)

lemma observation_key_new_iff:
  "observation_key_new source session event = Inr k \<longleftrightarrow>
     k = ObservationKey source session event \<and> se_scope event = rr_scope source
     \<and> session \<noteq> [] \<and> length session \<le> MAX_SESSION_BYTES"
  by (auto simp: observation_key_new_def rbind_iffs scope_iffs check_inline_length_def spatial_limits
      value_limits split: sum.splits)

lemma observation_new_iff:
  "observation_new rid entity world frame key evidence t position u correction = Inr obs \<longleftrightarrow>
     obs = \<lparr>po_id = rid, po_entity = entity, po_world = world, po_frame = frame, po_key = key,
          po_evidence = evidence, po_source_time = t, po_position = position, po_uncertainty = u,
          po_correction_of = correction\<rparr>
     \<and> rr_scope entity = rr_scope rid \<and> rr_scope world = rr_scope rid
     \<and> rr_scope (vr_record frame) = rr_scope rid \<and> rr_scope (key_source key) = rr_scope rid
     \<and> rr_scope evidence = rr_scope rid \<and> se_scope (key_event key) = rr_scope rid
     \<and> te_role t = SourceEvent \<and> sd_artifact (te_source t) = evidence
     \<and> (case correction of None \<Rightarrow> True | Some p \<Rightarrow> rr_scope p = rr_scope rid \<and> p \<noteq> rid)"
  by (auto simp: observation_new_def rbind_iffs scope_iffs split: option.splits)

section \<open>Property\<close>

text \<open>
  C31.  Accepted geographic coordinates have one representation per place: two accepted pairs of
  angles give the same point exactly when they name the same place, that is the same latitude and,
  away from the poles, longitudes that differ by whole turns.
\<close>

theorem geographic_point_canonical:
  assumes "longitude_new a = Inr lon" "longitude_new b = Inr lon'"
    and "latitude_new p = Inr lat" "latitude_new q = Inr lat'"
  shows "geographic_point_new lon lat h = geographic_point_new lon' lat' h' \<longleftrightarrow>
    p = q \<and> h = h' \<and> (is_pole p \<or> 2 * HALF_TURN_NANODEGREES dvd a - b)"
proof -
  have lat: "lat = p" "lat' = q"
    using assms(3,4) by (auto simp: latitude_new_def split: if_splits)
  have a: "- HALF_TURN_NANODEGREES \<le> lon" "lon < HALF_TURN_NANODEGREES"
      "a = lon \<or> a = lon + 2 * HALF_TURN_NANODEGREES"
    using assms(1) by (auto simp: longitude_new_def turns split: if_splits)
  have b: "- HALF_TURN_NANODEGREES \<le> lon'" "lon' < HALF_TURN_NANODEGREES"
      "b = lon' \<or> b = lon' + 2 * HALF_TURN_NANODEGREES"
    using assms(2) by (auto simp: longitude_new_def turns split: if_splits)
  have "2 * HALF_TURN_NANODEGREES dvd a - b \<longleftrightarrow> 2 * HALF_TURN_NANODEGREES dvd lon - lon'"
    using a(3) b(3) by (elim disjE) (simp_all add: dvd_add_left_iff dvd_diff_left_iff
        add_diff_eq diff_add_eq [symmetric] diff_diff_eq [symmetric])
  moreover have "2 * HALF_TURN_NANODEGREES dvd lon - lon' \<longleftrightarrow> lon = lon'"
  proof
    assume "2 * HALF_TURN_NANODEGREES dvd lon - lon'"
    moreover have "\<bar>lon - lon'\<bar> < 2 * HALF_TURN_NANODEGREES" using a b by (simp add: turns)
    ultimately have "lon - lon' = 0"
      using dvd_imp_le_int [of "lon - lon'" "2 * HALF_TURN_NANODEGREES"] by (auto simp: turns)
    then show "lon = lon'" by simp
  qed simp
  ultimately show ?thesis using lat by (auto simp: geographic_point_new_def)
qed

theorem geographic_point_canonical_witness:
  "geographic_point_new (projr (longitude_new 180000000000)) 0 None
     = geographic_point_new (projr (longitude_new (- 180000000000))) 0 None
   \<and> geographic_point_new (projr (longitude_new 5)) 90000000000 (Some 7)
     = geographic_point_new (projr (longitude_new 9)) 90000000000 (Some 7)"
proof -
  have eq: "longitude_new 180000000000 = Inr (- 180000000000)"
      "longitude_new (- 180000000000) = Inr (- 180000000000)" "latitude_new 0 = Inr 0"
      "longitude_new 5 = Inr 5" "longitude_new 9 = Inr 9" "latitude_new 90000000000 = Inr 90000000000"
    by (simp_all add: longitude_new_def latitude_new_def turns)
  show ?thesis
    using geographic_point_canonical [OF eq(1,2,3,3), of None None]
      geographic_point_canonical [OF eq(4,5,6,6), of "Some 7" "Some 7"]
    by (simp add: eq is_pole_def turns)
qed

end
