(* ===== verification/BTree_Map.thy ===== *)
theory BTree_Map
  imports Prelude
begin

text \<open>
  \<open>std::collections::BTreeMap\<close> as the list of its entries in key order, with the operations the
  engine uses.  \<open>key_map\<close> is the contract its clients rely on; the list interprets it.  The
  bounded insertion, a pattern several components repeat, is proved once inside the contract.
\<close>

type_synonym ('k, 'v) bmap = "('k \<times> 'v) list"

definition bm_ok :: "('k::linorder, 'v) bmap \<Rightarrow> bool" where
  "bm_ok m \<longleftrightarrow> sorted_wrt (<) (map fst m)"

definition bm_get :: "('k, 'v) bmap \<Rightarrow> 'k \<Rightarrow> 'v option" where
  "bm_get m k = map_of m k"

fun bm_insert :: "'k::linorder \<Rightarrow> 'v \<Rightarrow> ('k, 'v) bmap \<Rightarrow> ('k, 'v) bmap" where
  "bm_insert k v [] = [(k, v)]"
| "bm_insert k v ((a, b) # m) =
     (if k < a then (k, v) # (a, b) # m
      else if k = a then (k, v) # m
      else (a, b) # bm_insert k v m)"

definition bm_remove :: "'k \<Rightarrow> ('k, 'v) bmap \<Rightarrow> ('k, 'v) bmap" where
  "bm_remove k m = filter (\<lambda>e. fst e \<noteq> k) m"

definition bm_bounded_insert ::
  "nat \<Rightarrow> 'e \<Rightarrow> 'k::linorder \<Rightarrow> 'v \<Rightarrow> ('k, 'v) bmap \<Rightarrow> 'e + ('k, 'v) bmap" where
  "bm_bounded_insert cap e k v m =
     (if bm_get m k = None \<and> cap \<le> length m then Inl e else Inr (bm_insert k v m))"

lemma bm_get_Nil [simp]: "bm_get [] k = None"
  by (simp add: bm_get_def)

lemma bm_ok_Nil [simp]: "bm_ok []"
  by (simp add: bm_ok_def)

lemma bm_ok_Cons: "bm_ok (e # m) \<longleftrightarrow> (\<forall>k \<in> fst ` set m. fst e < k) \<and> bm_ok m"
  by (auto simp: bm_ok_def)

lemma bm_ok_distinct: "bm_ok m \<Longrightarrow> distinct (map fst m)"
  by (simp add: bm_ok_def strict_sorted_iff)

lemma bm_keys_insert: "fst ` set (bm_insert k v m) = insert k (fst ` set m)"
  by (induction k v m rule: bm_insert.induct) auto

lemma bm_get_insert: "bm_ok m \<Longrightarrow> bm_get (bm_insert k v m) = (bm_get m)(k \<mapsto> v)"
proof (induction k v m rule: bm_insert.induct)
  case (2 k v a b m)
  have "bm_ok m" using "2.prems" by (simp add: bm_ok_Cons)
  with "2.IH" show ?case by (auto simp: bm_get_def fun_eq_iff)
qed (simp add: bm_get_def fun_eq_iff)

lemma bm_ok_insert: "bm_ok m \<Longrightarrow> bm_ok (bm_insert k v m)"
proof (induction k v m rule: bm_insert.induct)
  case (2 k v a b m)
  then show ?case by (auto simp: bm_ok_Cons bm_keys_insert intro: less_trans)
qed (simp add: bm_ok_Cons)

lemma bm_get_remove: "bm_get (bm_remove k m) = (bm_get m)(k := None)"
  by (induction m) (auto simp: bm_get_def bm_remove_def fun_eq_iff)

lemma bm_ok_remove: "bm_ok m \<Longrightarrow> bm_ok (bm_remove k m)"
  unfolding bm_ok_def bm_remove_def by (induction m) auto

lemma bm_get_Some_iff: "bm_ok m \<Longrightarrow> bm_get m k = Some v \<longleftrightarrow> (k, v) \<in> set m"
  unfolding bm_get_def by (simp add: bm_ok_distinct)

lemma bm_get_None_iff: "bm_get m k = None \<longleftrightarrow> k \<notin> fst ` set m"
  unfolding bm_get_def by (rule map_of_eq_None_iff)

lemma bm_length_insert:
  "bm_ok m \<Longrightarrow> length (bm_insert k v m) = (if bm_get m k = None then Suc (length m) else length m)"
proof (induction k v m rule: bm_insert.induct)
  case (2 k v a b m)
  have "bm_ok m" and less: "\<forall>x \<in> fst ` set m. a < x" using "2.prems" by (simp_all add: bm_ok_Cons)
  moreover have "k < a \<Longrightarrow> bm_get m k = None" using less by (auto simp: bm_get_None_iff)
  ultimately show ?case using "2.IH" by (auto simp: bm_get_def)
qed simp

text \<open>Two ordered maps with the same lookups are the same map.\<close>

lemma bm_entries: "bm_ok m \<Longrightarrow> m = map (\<lambda>k. (k, the (bm_get m k))) (map fst m)"
proof -
  assume "bm_ok m"
  then have "(k, the (bm_get m k)) = (k, v)" if "(k, v) \<in> set m" for k v
    using that by (simp flip: bm_get_Some_iff)
  then show ?thesis by (auto intro!: map_idI [symmetric])
qed

lemma bm_ext:
  assumes "bm_ok m" "bm_ok n" "bm_get m = bm_get n"
  shows "m = n"
proof -
  have "set (map fst m) = set (map fst n)"
    using assms(3) bm_get_None_iff [of m] bm_get_None_iff [of n] by (auto simp: set_eq_iff)
  then have "map fst m = map fst n"
    using assms(1,2) by (intro sorted_distinct_set_unique) (auto simp: bm_ok_def strict_sorted_iff)
  then show ?thesis
    using bm_entries [OF assms(1)] bm_entries [OF assms(2)] assms(3) by simp
qed

locale key_map =
  fixes empty :: "'m"
    and insert :: "'k \<Rightarrow> 'v \<Rightarrow> 'm \<Rightarrow> 'm"
    and remove :: "'k \<Rightarrow> 'm \<Rightarrow> 'm"
    and get :: "'m \<Rightarrow> 'k \<Rightarrow> 'v option"
    and card :: "'m \<Rightarrow> nat"
    and ok :: "'m \<Rightarrow> bool"
  assumes ok_empty: "ok empty"
    and ok_insert: "ok m \<Longrightarrow> ok (insert k v m)"
    and ok_remove: "ok m \<Longrightarrow> ok (remove k m)"
    and get_empty: "get empty k = None"
    and get_insert: "ok m \<Longrightarrow> get (insert k v m) = (get m)(k \<mapsto> v)"
    and get_remove: "ok m \<Longrightarrow> get (remove k m) = (get m)(k := None)"
    and card_insert: "ok m \<Longrightarrow> card (insert k v m) = (if get m k = None then Suc (card m) else card m)"
begin

text \<open>An insertion refused at the capacity keeps the capacity and every value predicate.\<close>

lemma bounded_insert_keeps:
  assumes "ok m" "card m \<le> cap" "\<And>k v. get m k = Some v \<Longrightarrow> P k v" "P k v"
    and "\<not> (get m k = None \<and> cap \<le> card m)"
  shows "ok (insert k v m) \<and> card (insert k v m) \<le> cap
    \<and> (\<forall>k' v'. get (insert k v m) k' = Some v' \<longrightarrow> P k' v')"
  using assms by (auto simp: ok_insert card_insert get_insert split: if_splits)

lemma insert_other: "ok m \<Longrightarrow> k' \<noteq> k \<Longrightarrow> get (insert k v m) k' = get m k'"
  by (simp add: get_insert)

end

interpretation bt: key_map "[]" bm_insert bm_remove bm_get length bm_ok
  by unfold_locales
    (simp_all add: bm_ok_insert bm_ok_remove bm_get_insert bm_get_remove bm_length_insert)

lemma bm_bounded_insert_keeps:
  assumes "bm_bounded_insert cap e k v m = Inr m'" "bm_ok m" "length m \<le> cap"
    and "\<And>k v. bm_get m k = Some v \<Longrightarrow> P k v" "P k v"
  shows "bm_ok m' \<and> length m' \<le> cap \<and> (\<forall>k' v'. bm_get m' k' = Some v' \<longrightarrow> P k' v')"
  using bt.bounded_insert_keeps [of m cap P k v] assms
  by (auto simp: bm_bounded_insert_def split: if_splits)

end
