(* ===== verification/Field_Codec.thy ===== *)
theory Field_Codec
  imports Value_Frame BTree_Map Time_Model
begin

text \<open>
  Records as canonical maps.  The record codecs of the engine share one scheme, repeated in each
  crate with its own error type: a record is written as a \<open>CanonicalMap\<close> of named fields and read
  back by moving the map into a \<open>BTreeMap\<close>, removing every expected field and refusing what is
  left.  The scheme is modelled here with the error as an argument, from the copy of
  \<open>uste-time/src/codec.rs\<close>.  \<open>value_codec\<close> is the contract of such a codec; a codec of values gives
  a codec of byte frames once and for all.
\<close>

section \<open>Writing and reading fields\<close>

definition map_err :: "('e \<Rightarrow> 'f) \<Rightarrow> 'e + 'a \<Rightarrow> 'f + 'a" where
  "map_err f r = (case r of Inl e \<Rightarrow> Inl (f e) | Inr x \<Rightarrow> Inr x)"

definition text_value :: "'e \<Rightarrow> bytes \<Rightarrow> 'e + val" where
  "text_value limit s = map_err (\<lambda>_. limit) (string_new s)"

definition optional_text :: "'e \<Rightarrow> bytes option \<Rightarrow> 'e + val" where
  "optional_text limit s = (case s of None \<Rightarrow> Inr VNull | Some s \<Rightarrow> text_value limit s)"

text \<open>The literal keys of a record, as the bytes they stand for.\<close>

definition named :: "(string \<times> val) list \<Rightarrow> (bytes \<times> val) list" where
  "named entries = map (\<lambda>(key, v). (ascii key, v)) entries"

definition map_value :: "'e \<Rightarrow> (string \<times> val) list \<Rightarrow> 'e + val" where
  "map_value limit entries =
     rbind (rfold (\<lambda>(key, v) out.
         rbind (map_err (\<lambda>_. limit) (check_inline_length (length key))) (\<lambda>_. Inr (out @ [(key, v)])))
       (named entries) []) (\<lambda>entries.
     map_err (\<lambda>_. limit) (map_new entries))"

type_synonym fields = "(bytes, val) bmap"

definition fields_new :: "'e \<Rightarrow> val \<Rightarrow> 'e + fields" where
  "fields_new e v =
     (case v of VMap es \<Rightarrow> Inr (fold (\<lambda>(key, x). bm_insert key x) es []) | _ \<Rightarrow> Inl e)"

definition field_take :: "'e \<Rightarrow> string \<Rightarrow> fields \<Rightarrow> 'e + val \<times> fields" where
  "field_take e key fs =
     rbind (ok_or (bm_get fs (ascii key)) e) (\<lambda>v. Inr (v, bm_remove (ascii key) fs))"

definition field_finish :: "'e \<Rightarrow> fields \<Rightarrow> 'e + unit" where
  "field_finish e fs = ensure (fs = []) e"

definition take_text :: "'e \<Rightarrow> val \<Rightarrow> 'e + bytes" where
  "take_text e v = (case v of VString s \<Rightarrow> Inr s | _ \<Rightarrow> Inl e)"

definition take_optional_text :: "'e \<Rightarrow> val \<Rightarrow> 'e + bytes option" where
  "take_optional_text e v = (case v of VNull \<Rightarrow> Inr None | VString s \<Rightarrow> Inr (Some s) | _ \<Rightarrow> Inl e)"

definition take_bytes :: "'e \<Rightarrow> val \<Rightarrow> 'e + bytes" where
  "take_bytes e v = (case v of VBytes bs \<Rightarrow> Inr bs | _ \<Rightarrow> Inl e)"

definition take_record :: "'e \<Rightarrow> val \<Rightarrow> 'e + record_ref" where
  "take_record e v = (case v of VRecordRef r \<Rightarrow> Inr r | _ \<Rightarrow> Inl e)"

definition take_u64 :: "'e \<Rightarrow> val \<Rightarrow> 'e + nat" where
  "take_u64 e v =
     (case v of VUnsigned n \<Rightarrow> if unat n \<le> usize_max then Inr (unat n) else Inl e | _ \<Rightarrow> Inl e)"

definition take_optional_i32 :: "'e \<Rightarrow> val \<Rightarrow> 'e + int option" where
  "take_optional_i32 e v =
     (case v of
        VNull \<Rightarrow> Inr None
      | VSigned i \<Rightarrow> if - (2 ^ 31) \<le> i \<and> i < 2 ^ 31 then Inr (Some i) else Inl e
      | _ \<Rightarrow> Inl e)"

definition take_optional_instant :: "'e \<Rightarrow> val \<Rightarrow> 'e + utc_instant option" where
  "take_optional_instant e v = (case v of VNull \<Rightarrow> Inr None | VInstant i \<Rightarrow> Inr (Some i) | _ \<Rightarrow> Inl e)"

text \<open>\<open>Option::map\<close> followed by \<open>transpose\<close>.\<close>

definition transpose_map :: "('a \<Rightarrow> 'e + 'b) \<Rightarrow> 'a option \<Rightarrow> 'e + 'b option" where
  "transpose_map f x = (case x of None \<Rightarrow> Inr None | Some y \<Rightarrow> rbind (f y) (\<lambda>z. Inr (Some z)))"

text \<open>\<open>iter().map(f).collect::<Result<Vec<_>, _>>()\<close>.\<close>

fun collect_map :: "('a \<Rightarrow> 'e + 'b) \<Rightarrow> 'a list \<Rightarrow> 'e + 'b list" where
  "collect_map f [] = Inr []"
| "collect_map f (x # xs) = rbind (f x) (\<lambda>y. rbind (collect_map f xs) (\<lambda>ys. Inr (y # ys)))"

subsection \<open>Inversion\<close>

named_theorems field_iffs \<open>inversion of the field readers and writers\<close>

lemma map_err_eq_Inr [field_iffs]: "map_err f r = Inr x \<longleftrightarrow> r = Inr x"
  by (cases r) (auto simp: map_err_def)

lemma map_err_Inr [simp]: "map_err f (Inr x) = Inr x"
  by (simp add: map_err_def)

lemma map_err_Inl [simp]: "map_err f (Inl e) = Inl (f e)"
  by (simp add: map_err_def)

lemma text_value_iff [field_iffs]:
  "text_value limit s = Inr v \<longleftrightarrow> v = VString s \<and> length s \<le> MAX_INLINE_BYTES"
  by (auto simp: text_value_def string_new_def check_inline_length_def field_iffs rbind_iffs)

lemma optional_text_iff [field_iffs]:
  "optional_text limit s = Inr v \<longleftrightarrow>
     (case s of None \<Rightarrow> v = VNull | Some s \<Rightarrow> v = VString s \<and> length s \<le> MAX_INLINE_BYTES)"
  by (cases s) (auto simp: optional_text_def field_iffs)

lemma take_text_iff [field_iffs]: "take_text e v = Inr s \<longleftrightarrow> v = VString s"
  by (cases v) (auto simp: take_text_def)

lemma take_optional_text_iff [field_iffs]:
  "take_optional_text e v = Inr s \<longleftrightarrow> (case s of None \<Rightarrow> v = VNull | Some s \<Rightarrow> v = VString s)"
  by (cases v) (auto simp: take_optional_text_def split: option.splits)

lemma take_bytes_iff [field_iffs]: "take_bytes e v = Inr bs \<longleftrightarrow> v = VBytes bs"
  by (cases v) (auto simp: take_bytes_def)

lemma take_record_iff [field_iffs]: "take_record e v = Inr r \<longleftrightarrow> v = VRecordRef r"
  by (cases v) (auto simp: take_record_def)

lemma unat_word_of_nat_u128: "n \<le> usize_max \<Longrightarrow> unat (word_of_nat n :: u128) = n"
  by (simp add: unat_of_nat usize_max_def take_bit_nat_eq_self)

lemma take_u64_iff [field_iffs]:
  "take_u64 e v = Inr n \<longleftrightarrow> v = VUnsigned (word_of_nat n) \<and> n \<le> usize_max"
  by (cases v) (auto simp: take_u64_def unat_word_of_nat_u128)

lemma take_optional_i32_iff [field_iffs]:
  "take_optional_i32 e v = Inr s \<longleftrightarrow>
     (case s of None \<Rightarrow> v = VNull | Some i \<Rightarrow> v = VSigned i \<and> - (2 ^ 31) \<le> i \<and> i < 2 ^ 31)"
  by (cases v) (auto simp: take_optional_i32_def split: option.splits)

lemma take_optional_instant_iff [field_iffs]:
  "take_optional_instant e v = Inr s \<longleftrightarrow> (case s of None \<Rightarrow> v = VNull | Some i \<Rightarrow> v = VInstant i)"
  by (cases v) (auto simp: take_optional_instant_def split: option.splits)

lemma transpose_map_iff [field_iffs]:
  "transpose_map f x = Inr y \<longleftrightarrow>
     (case x of None \<Rightarrow> y = None | Some a \<Rightarrow> (\<exists>b. f a = Inr b \<and> y = Some b))"
  by (cases x) (auto simp: transpose_map_def rbind_iffs)

lemma field_take_iff [field_iffs]:
  "field_take e key fs = Inr (v, fs') \<longleftrightarrow>
     bm_get fs (ascii key) = Some v \<and> fs' = bm_remove (ascii key) fs"
  by (auto simp: field_take_def rbind_iffs)

lemma collect_map_iff [field_iffs]:
  "collect_map f xs = Inr ys \<longleftrightarrow> list_all2 (\<lambda>x y. f x = Inr y) xs ys"
  by (induction xs arbitrary: ys) (auto simp: rbind_iffs list_all2_Cons1)

lemma take_simps:
  "take_text e (VString s) = Inr s" "take_optional_text e VNull = Inr None"
  "take_optional_text e (VString s) = Inr (Some s)" "take_bytes e (VBytes s) = Inr s"
  "take_record e (VRecordRef r) = Inr r" "take_optional_i32 e VNull = Inr None"
  "n \<le> usize_max \<Longrightarrow> take_u64 e (VUnsigned (word_of_nat n)) = Inr n"
  "- (2 ^ 31) \<le> i \<Longrightarrow> i < 2 ^ 31 \<Longrightarrow> take_optional_i32 e (VSigned i) = Inr (Some i)"
  "take_optional_instant e VNull = Inr None" "take_optional_instant e (VInstant t) = Inr (Some t)"
  by (simp_all add: field_iffs)

subsection \<open>Ordered fields\<close>

lemma bm_fold_insert:
  assumes "bm_ok (acc @ es)"
  shows "fold (\<lambda>(key, x). bm_insert key x) es acc = acc @ es"
  using assms
proof (induction es arbitrary: acc)
  case (Cons e es)
  have "bm_insert (fst e) (snd e) acc = acc @ [e]"
    using Cons.prems
  proof (induction acc)
    case (Cons a acc)
    then have "fst a < fst e" by (simp add: bm_ok_Cons)
    with Cons show ?case by (cases a) (auto simp: bm_ok_Cons)
  qed simp
  with Cons show ?case by (simp add: case_prod_beta')
qed simp

lemma fields_new_sorted: "bm_ok es \<Longrightarrow> fields_new e (VMap es) = Inr es"
  using bm_fold_insert [of "[]" es] by (simp add: fields_new_def)

lemma fields_new_iff:
  assumes "value_wf v"
  shows "fields_new e v = Inr fs \<longleftrightarrow> v = VMap fs"
proof (cases v)
  case (VMap es)
  then have "bm_ok es" using assms by (simp add: bm_ok_def)
  then show ?thesis using VMap fields_new_sorted [of es e] by auto
qed (auto simp: fields_new_def)

text \<open>A map all of whose fields were expected, and whose expected fields have these values.\<close>

lemma fields_exact:
  assumes "bm_ok fs" "bm_ok es" "\<And>k v. (k, v) \<in> set es \<Longrightarrow> bm_get fs k = Some v"
    and "\<And>k v. (k, v) \<in> set fs \<Longrightarrow> k \<in> fst ` set es"
  shows "fs = es"
proof (rule bm_ext [OF assms(1,2)])
  show "bm_get fs = bm_get es"
  proof
    fix k
    show "bm_get fs k = bm_get es k"
    proof (cases "k \<in> fst ` set es")
      case True
      then obtain v where "(k, v) \<in> set es" by auto
      with assms(2,3) show ?thesis by (metis bm_get_Some_iff)
    next
      case False
      with assms(4) have "k \<notin> fst ` set fs" by auto
      with False show ?thesis by (metis bm_get_None_iff)
    qed
  qed
qed

section \<open>Sizes\<close>

text \<open>
  \<open>val_in d n p v\<close>: \<open>v\<close> is well formed, nests at most \<open>d\<close> containers, has at most \<open>n\<close> nodes and at
  most \<open>p\<close> payload bytes.  The bounds of a record are uniform in its fields.
\<close>

definition val_in :: "nat \<Rightarrow> nat \<Rightarrow> nat \<Rightarrow> val \<Rightarrow> bool" where
  "val_in d n p v \<longleftrightarrow>
     value_wf v \<and> depth v \<le> d \<and> node_count v \<le> n \<and> length (encode_payload v) \<le> p"

named_theorems val_in_intros \<open>bounds of the values of record fields\<close>

lemma val_in_mono: "val_in d n p v \<Longrightarrow> d \<le> d' \<Longrightarrow> n \<le> n' \<Longrightarrow> p \<le> p' \<Longrightarrow> val_in d' n' p' v"
  by (auto simp: val_in_def)

lemma val_in_wf: "val_in d n p v \<Longrightarrow> value_wf v"
  by (simp add: val_in_def)

lemma length_write_length_le: "length (write_length n) \<le> 19"
  using uleb_len_le [of "word_of_nat n"] by (simp add: length_write_length)

lemma length_write_uleb_le: "length (write_uleb n) \<le> 19"
  using uleb_len_le [of n] by (simp add: length_write_uleb)

lemma val_in_null [val_in_intros]: "1 \<le> n \<Longrightarrow> 1 \<le> p \<Longrightarrow> val_in d n p VNull"
  by (simp add: val_in_def)

lemma val_in_unsigned [val_in_intros]: "1 \<le> n \<Longrightarrow> 20 \<le> p \<Longrightarrow> val_in d n p (VUnsigned w)"
  using length_write_uleb_le [of w] by (simp add: val_in_def)

lemma val_in_string:
  "string_ok s \<Longrightarrow> 1 \<le> n \<Longrightarrow> 20 + length s \<le> p \<Longrightarrow> val_in d n p (VString s)"
  using length_write_length_le [of "length s"] by (simp add: val_in_def)

lemma val_in_bytes [val_in_intros]:
  "length s \<le> MAX_INLINE_BYTES \<Longrightarrow> 1 \<le> n \<Longrightarrow> 20 + length s \<le> p \<Longrightarrow> val_in d n p (VBytes s)"
  using length_write_length_le [of "length s"] by (simp add: val_in_def)

lemma val_in_signed [val_in_intros]:
  "- (2 ^ 127) \<le> i \<Longrightarrow> i < 2 ^ 127 \<Longrightarrow> 1 \<le> n \<Longrightarrow> 21 \<le> p \<Longrightarrow> val_in d n p (VSigned i)"
  using uleb_len_le [of "snd (signed_parts i)"] by (simp add: val_in_def flip: length_write_signed)

lemma val_in_record [val_in_intros]:
  "record_ref_ok r \<Longrightarrow> 1 \<le> n \<Longrightarrow> 52 \<le> p \<Longrightarrow> val_in d n p (VRecordRef r)"
  by (simp add: val_in_def length_write_record_ref)

lemma val_in_instant [val_in_intros]:
  "instant_ok i \<Longrightarrow> 1 \<le> n \<Longrightarrow> 60 \<le> p \<Longrightarrow> val_in d n p (VInstant i)"
  using uleb_len_le [of "snd (signed_parts (instant_seconds i))"]
    length_write_uleb_le [of "word_of_nat (instant_nanoseconds i)"]
  by (simp add: val_in_def write_instant_def flip: length_write_signed)

lemma sum_list_map_le: "(\<And>x. x \<in> set xs \<Longrightarrow> f x \<le> k) \<Longrightarrow> sum_list (map f xs) \<le> length xs * k" for k :: nat
  by (induction xs) (auto intro: add_mono)

lemma val_in_list [val_in_intros]:
  assumes "\<And>v. v \<in> set vs \<Longrightarrow> val_in d n p v" "length vs \<le> MAX_COLLECTION_ENTRIES"
    and "Suc (length vs * n) \<le> n'" "20 + length vs * p \<le> p'"
  shows "val_in (Suc d) n' p' (VList vs)"
proof -
  have "sum_list (map node_count vs) \<le> length vs * n"
    using assms(1) by (intro sum_list_map_le) (simp add: val_in_def)
  moreover have "sum_list (map (length \<circ> encode_payload) vs) \<le> length vs * p"
    using assms(1) by (intro sum_list_map_le) (simp add: val_in_def)
  moreover have "fold max (map depth vs) 0 \<le> d"
    using assms(1) by (simp add: fold_max_le val_in_def)
  ultimately show ?thesis
    using assms length_write_length_le [of "length vs"]
    by (auto simp: val_in_def length_concat comp_def)
qed

lemma val_in_map:
  assumes "bm_ok es" "\<And>k v. (k, v) \<in> set es \<Longrightarrow> string_ok k \<and> length k \<le> 64 \<and> val_in d n p v"
    and "length es \<le> MAX_COLLECTION_ENTRIES"
    and "Suc (length es * n) \<le> n'" "20 + length es * (83 + p) \<le> p'"
  shows "val_in (Suc d) n' p' (VMap es)"
proof -
  have "sum_list (map (\<lambda>(k, v). node_count v) es) \<le> length es * n"
    using assms(2) by (intro sum_list_map_le) (auto simp: val_in_def)
  moreover have "sum_list (map (\<lambda>(k, v). length (write_length (length k) @ k @ encode_payload v)) es)
      \<le> length es * (83 + p)"
  proof (intro sum_list_map_le)
    fix x
    assume "x \<in> set es"
    with assms(2) [of "fst x" "snd x"] length_write_length_le [of "length (fst x)"]
    show "(case x of (k, v) \<Rightarrow> length (write_length (length k) @ k @ encode_payload v)) \<le> 83 + p"
      by (cases x) (auto simp: val_in_def)
  qed
  moreover have "fold max (map (\<lambda>(k, v). depth v) es) 0 \<le> d"
    using assms(2) by (auto simp: fold_max_le val_in_def)
  ultimately show ?thesis
    using assms length_write_length_le [of "length es"]
    by (auto simp: val_in_def length_concat comp_def bm_ok_def case_prod_beta')
qed

subsection \<open>Constant keys\<close>

lemma utf8_ascii: "(\<forall>b \<in> set s. b < 0x80) \<Longrightarrow> utf8_valid s"
  by (induction s) (auto simp: utf8_valid.simps)

definition plain_key :: "string \<Rightarrow> bool" where
  "plain_key s \<longleftrightarrow> length s \<le> 64 \<and> (\<forall>c \<in> set s. (of_char c :: nat) < 128)"

lemma plain_key_ok: "plain_key s \<Longrightarrow> string_ok (ascii s) \<and> length (ascii s) \<le> 64"
proof -
  assume plain: "plain_key s"
  have "(of_char c :: u8) < 0x80" if "c \<in> set s" for c
  proof -
    have "(of_char c :: u8) = of_nat (of_char c)" by (cases c) simp
    with plain that show ?thesis
      by (auto simp: plain_key_def word_less_nat_alt unat_of_nat take_bit_nat_eq_self)
  qed
  then have "utf8_valid (ascii s)" by (intro utf8_ascii) (auto simp: ascii_def)
  with plain show ?thesis by (simp add: plain_key_def string_ok_def MAX_INLINE_BYTES_def)
qed

definition plain_keys :: "string list \<Rightarrow> bool" where
  "plain_keys ks \<longleftrightarrow> list_all plain_key ks \<and> sorted_wrt (\<lambda>s t. ascii s < ascii t) ks"

lemma named_simps [simp]:
  "length (named es) = length es" "map fst (named es) = map (ascii \<circ> fst) es"
  "named es = [] \<longleftrightarrow> es = []" "named es = named es' \<longleftrightarrow> es = es'"
proof -
  have "inj (\<lambda>(key, v :: val). (ascii key, v))" by (auto simp: inj_on_def)
  then show "named es = named es' \<longleftrightarrow> es = es'" by (simp add: named_def inj_map_eq_map)
qed (auto simp: named_def comp_def)

lemma set_named: "(k, v) \<in> set (named es) \<longleftrightarrow> (\<exists>key. k = ascii key \<and> (key, v) \<in> set es)"
  by (auto simp: named_def)

lemma plain_keys_named: "plain_keys (map fst es) \<Longrightarrow> bm_ok (named es)"
  by (simp add: plain_keys_def bm_ok_def sorted_wrt_map comp_def)

lemma plain_keys_ok:
  "plain_keys (map fst es) \<Longrightarrow> (k, v) \<in> set (named es) \<Longrightarrow> string_ok k \<and> length k \<le> 64"
  using plain_key_ok by (fastforce simp: plain_keys_def list_all_iff set_named)

lemma bm_get_named: "bm_get (named es) (ascii key) = map_of es key"
  by (induction es) (auto simp: bm_get_def named_def)

lemma bm_remove_named:
  "bm_remove (ascii key) (named es) = named (filter (\<lambda>e. fst e \<noteq> key) es)"
  by (induction es) (auto simp: bm_remove_def named_def)

lemma val_in_record_map:
  assumes "plain_keys (map fst es)" "list_all (val_in d n p) (map snd es)"
    and "length es \<le> MAX_COLLECTION_ENTRIES"
    and "Suc (length es * n) \<le> n'" "20 + length es * (83 + p) \<le> p'"
  shows "val_in (Suc d) n' p' (VMap (named es))"
  using assms
  by (intro val_in_map plain_keys_named) (fastforce simp: plain_keys_ok set_named list_all_iff)+

lemma push_keys:
  "(\<forall>(k, v) \<in> set es. length k \<le> MAX_INLINE_BYTES) \<Longrightarrow>
   rfold (\<lambda>(key, v) out. rbind (map_err (\<lambda>_. limit) (check_inline_length (length key)))
      (\<lambda>_. Inr (out @ [(key, v)]))) es acc = Inr (acc @ es)"
  by (induction es arbitrary: acc) (auto simp: check_inline_length_def)

lemma map_value_named:
  assumes "plain_keys (map fst es)"
  shows "map_value limit es = Inr v \<longleftrightarrow> v = VMap (named es) \<and> length es \<le> MAX_COLLECTION_ENTRIES
    \<and> depth v \<le> MAX_NESTING_DEPTH \<and> node_count v \<le> MAX_VALUE_NODES"
proof -
  have ok: "bm_ok (named es)" using assms by (rule plain_keys_named)
  have "length k \<le> MAX_INLINE_BYTES" if "(k, v) \<in> set (named es)" for k v
    using plain_keys_ok [OF assms that] by (simp add: string_ok_def)
  then have "rfold (\<lambda>(key, v) out. rbind (map_err (\<lambda>_. limit) (check_inline_length (length key)))
      (\<lambda>_. Inr (out @ [(key, v)]))) (named es) [] = Inr (named es)"
    using push_keys [of "named es" limit "[]"] by auto
  moreover have "sort_key fst (named es) = named es" "sorted_wrt (<) (map fst (named es))"
    using ok by (auto simp: bm_ok_def intro!: sort_key_id_if_sorted strict_sorted_imp_sorted)
  ultimately show ?thesis
    unfolding map_value_def by (simp add: field_iffs value_ok_map_iff del: named_simps(2))
qed

lemma record_encodes:
  assumes "plain_keys (map fst es)" "list_all (val_in d n p) (map snd es)"
    and "Suc (length es * n) \<le> n'" "20 + length es * (83 + p) \<le> p'"
    and "Suc d \<le> MAX_NESTING_DEPTH" "n' \<le> MAX_VALUE_NODES" "length es \<le> MAX_COLLECTION_ENTRIES"
  shows "map_value limit es = Inr (VMap (named es)) \<and> val_in (Suc d) n' p' (VMap (named es))"
proof -
  have "val_in (Suc d) n' p' (VMap (named es))"
    using assms by (intro val_in_record_map) auto
  with assms show ?thesis by (auto simp: map_value_named val_in_def)
qed

subsection \<open>Reading back\<close>

lemma field_take_named:
  "field_take e key (named es) =
     (case map_of es key of None \<Rightarrow> Inl e | Some v \<Rightarrow> Inr (v, named (filter (\<lambda>e. fst e \<noteq> key) es)))"
  by (simp add: field_take_def bm_get_named bm_remove_named split: option.split)

lemma field_finish_named: "field_finish e (named es) = (if es = [] then Inr () else Inl e)"
  by (cases es) (auto simp: field_finish_def)

lemma fields_new_named: "plain_keys (map fst es) \<Longrightarrow> fields_new e (VMap (named es)) = Inr (named es)"
  by (intro fields_new_sorted plain_keys_named)

lemmas read_named = fields_new_named field_take_named field_finish_named take_simps

text \<open>Every field of the map is one of these.\<close>

definition only_fields :: "fields \<Rightarrow> string list \<Rightarrow> bool" where
  "only_fields fs keys \<longleftrightarrow> fst ` set fs \<subseteq> ascii ` set keys"

lemma only_fields_remove: "only_fields (bm_remove (ascii key) fs) keys \<longleftrightarrow> only_fields fs (key # keys)"
  by (auto simp: only_fields_def bm_remove_def)

lemma field_finish_only: "field_finish e fs = Inr u \<longleftrightarrow> only_fields fs []"
  by (auto simp: field_finish_def only_fields_def)

lemmas taken_simps = bm_get_remove only_fields_remove field_finish_only

lemma fields_named:
  assumes "value_wf (VMap fs)" "plain_keys (map fst es)"
    and "\<And>key v. (key, v) \<in> set es \<Longrightarrow> bm_get fs (ascii key) = Some v"
    and "\<And>k v. (k, v) \<in> set fs \<Longrightarrow> k \<in> (ascii \<circ> fst) ` set es"
  shows "fs = named es"
proof (rule fields_exact)
  show "bm_ok fs" using assms(1) by (simp add: bm_ok_def)
  show "bm_ok (named es)" using assms(2) by (rule plain_keys_named)
  show "bm_get fs k = Some v" if "(k, v) \<in> set (named es)" for k v
    using that assms(3) by (auto simp: set_named)
  show "k \<in> fst ` set (named es)" if "(k, v) \<in> set fs" for k v
    using assms(4) [OF that] by (force simp: named_def)
qed

lemma taken_named:
  assumes "value_wf (VMap fs)" "plain_keys (map fst es)"
    and "list_all (\<lambda>(key, v). bm_get fs (ascii key) = Some v) es"
    and "only_fields fs keys" "set keys = fst ` set es"
  shows "fs = named es \<and> list_all value_wf (map snd es)"
proof
  show "fs = named es"
    using assms(3-5) by (intro fields_named assms(1,2)) (force simp: list_all_iff only_fields_def)+
  with assms(1) show "list_all value_wf (map snd es)"
    by (fastforce simp: list_all_iff set_named)
qed

section \<open>The contract of a record codec\<close>

text \<open>
  Every admissible record is written, as a value within the bounds, and a value is read exactly
  when it is what the writer makes of an admissible record.
\<close>

locale value_codec =
  fixes enc :: "'a \<Rightarrow> 'e + val"
    and dec :: "val \<Rightarrow> 'e + 'a"
    and ok :: "'a \<Rightarrow> bool"
    and d n p :: nat
  assumes enc_in: "ok x \<Longrightarrow> \<exists>v. enc x = Inr v \<and> val_in d n p v"
    and dec_iff: "value_wf v \<Longrightarrow> dec v = Inr x \<longleftrightarrow> ok x \<and> enc x = Inr v"
begin

lemma dec_enc: "ok x \<Longrightarrow> enc x = Inr v \<Longrightarrow> dec v = Inr x"
  using enc_in [of x] dec_iff [of v x] by (auto dest: val_in_wf)

lemma enc_bounds: "ok x \<Longrightarrow> enc x = Inr v \<Longrightarrow> val_in d n p v"
  using enc_in by fastforce

lemma enc_inject: "ok x \<Longrightarrow> ok y \<Longrightarrow> enc x = Inr v \<Longrightarrow> enc y = Inr v \<Longrightarrow> x = y"
  using dec_enc [of x v] dec_enc [of y v] by simp

lemma written: "ok x \<Longrightarrow> enc x = Inr (projr (enc x))"
  using enc_in by fastforce

lemma rbind_written: "ok x \<Longrightarrow> rbind (enc x) f = f (projr (enc x))"
  using enc_in by fastforce

lemma written_in: "ok x \<Longrightarrow> val_in d n p (projr (enc x))"
  using enc_in by fastforce

lemma written_read: "ok x \<Longrightarrow> dec (projr (enc x)) = Inr x"
  using written by (intro dec_enc)

lemma read_written: "value_wf v \<Longrightarrow> dec v = Inr x \<Longrightarrow> ok x \<and> v = projr (enc x)"
  by (simp add: dec_iff)

text \<open>Framed with the canonical value codec, a record codec is a strict codec of byte strings.\<close>

lemma framed:
  assumes bounds: "d \<le> MAX_NESTING_DEPTH" "n \<le> MAX_VALUE_NODES" "p \<le> MAX_VALUE_PAYLOAD"
    and "length bs \<le> usize_max"
  shows "(\<exists>v. decode_value granted bs = Inr v \<and> dec v = Inr x) \<longleftrightarrow>
    ok x \<and> (\<exists>v. enc x = Inr v \<and> encode_value (\<lambda>_. True) v = Inr bs)"
proof -
  have "value_ok v" if "ok x" "enc x = Inr v" for v
    using enc_bounds [OF that] bounds by (auto simp: val_in_def value_ok_def)
  then show ?thesis
    using dec_iff by (auto simp: decode_value_iff [OF assms(4)] encode_value_iff value_ok_def)
qed

lemma framed_total:
  assumes bounds: "d \<le> MAX_NESTING_DEPTH" "n \<le> MAX_VALUE_NODES" "p \<le> MAX_VALUE_PAYLOAD"
    and "ok x"
  obtains v bs where "enc x = Inr v" "encode_value (\<lambda>_. True) v = Inr bs"
    "length bs \<le> p + 26" "length bs \<le> usize_max"
proof -
  obtain v where v: "enc x = Inr v" "val_in d n p v" using enc_in [OF assms(4)] by blast
  then have "value_ok v" "length (encode_payload v) \<le> MAX_VALUE_PAYLOAD"
    using bounds by (auto simp: val_in_def value_ok_def)
  moreover have "length (frame_bytes (encode_payload v)) \<le> p + 26"
    using v(2) uleb_len_le [of "word_of_nat (length (encode_payload v))"]
    by (simp add: length_frame_bytes val_in_def MAGIC_def)
  ultimately show ?thesis
    using that v(1) frame_bytes_usize by (simp add: encode_value_iff)
qed

end

text \<open>A codec of records with a fixed list of entries.\<close>

lemma value_codecI:
  assumes "\<And>x. ok x \<Longrightarrow> enc x = Inr (VMap (named (entries x))) \<and> val_in d n p (VMap (named (entries x)))"
    and "\<And>x. ok x \<Longrightarrow> dec (VMap (named (entries x))) = Inr x"
    and "\<And>v x. value_wf v \<Longrightarrow> dec v = Inr x \<Longrightarrow> ok x \<and> v = VMap (named (entries x))"
  shows "value_codec enc dec ok d n p"
  by unfold_locales (use assms in force)+

end
