(* ===== verification/Time_Codec.thy ===== *)
theory Time_Codec
  imports Field_Codec
begin

text \<open>
  The stored form of timestamp envelopes, \<open>uste-time/src/codec.rs\<close>: an envelope is a canonical map
  that pins its profiles; a stored interpretation is read back without parsing the original token
  again or consulting a zone.
\<close>

section \<open>Names\<close>

fun role_name :: "timestamp_role \<Rightarrow> bytes" where
  "role_name SourceEvent = ascii ''source_event''"
| "role_name SourceCreated = ascii ''source_created''"
| "role_name SourceModified = ascii ''source_modified''"
| "role_name SourcePublished = ascii ''source_published''"
| "role_name Received = ascii ''received''"
| "role_name CommitObservation = ascii ''commit_observation''"
| "role_name DerivationAvailable = ascii ''derivation_available''"
| "role_name SimulationAnchor = ascii ''simulation_anchor''"

definition decode_role :: "bytes \<Rightarrow> time_error + timestamp_role" where
  "decode_role s =
     (if s = ascii ''source_event'' then Inr SourceEvent
      else if s = ascii ''source_created'' then Inr SourceCreated
      else if s = ascii ''source_modified'' then Inr SourceModified
      else if s = ascii ''source_published'' then Inr SourcePublished
      else if s = ascii ''received'' then Inr Received
      else if s = ascii ''commit_observation'' then Inr CommitObservation
      else if s = ascii ''derivation_available'' then Inr DerivationAvailable
      else if s = ascii ''simulation_anchor'' then Inr SimulationAnchor
      else Inl TInvalidEnvelope)"

fun epoch_unit_name :: "epoch_unit \<Rightarrow> bytes" where
  "epoch_unit_name Seconds = ascii ''seconds''"
| "epoch_unit_name Milliseconds = ascii ''milliseconds''"
| "epoch_unit_name Microseconds = ascii ''microseconds''"
| "epoch_unit_name Nanoseconds = ascii ''nanoseconds''"

definition decode_epoch_unit :: "bytes \<Rightarrow> time_error + epoch_unit" where
  "decode_epoch_unit s =
     (if s = ascii ''seconds'' then Inr Seconds
      else if s = ascii ''milliseconds'' then Inr Milliseconds
      else if s = ascii ''microseconds'' then Inr Microseconds
      else if s = ascii ''nanoseconds'' then Inr Nanoseconds
      else Inl TInvalidEnvelope)"

fun scale_name :: "time_scale \<Rightarrow> bytes" where
  "scale_name PosixUtc = ascii ''posix_utc''"
| "scale_name UtcLeapAware = ascii ''utc_leap_aware''"
| "scale_name Tai = ascii ''tai''"
| "scale_name Gps = ascii ''gps''"
| "scale_name Smeared = ascii ''smeared''"
| "scale_name ScaleUnknown = ascii ''unknown''"

definition decode_scale :: "bytes \<Rightarrow> time_error + time_scale" where
  "decode_scale s =
     (if s = ascii ''posix_utc'' then Inr PosixUtc
      else if s = ascii ''utc_leap_aware'' then Inr UtcLeapAware
      else if s = ascii ''tai'' then Inr Tai
      else if s = ascii ''gps'' then Inr Gps
      else if s = ascii ''smeared'' then Inr Smeared
      else if s = ascii ''unknown'' then Inr ScaleUnknown
      else Inl TInvalidEnvelope)"

fun fold_name :: "fold_choice \<Rightarrow> bytes" where
  "fold_name Earlier = ascii ''earlier''"
| "fold_name Later = ascii ''later''"

definition decode_fold :: "bytes \<Rightarrow> time_error + fold_choice" where
  "decode_fold s =
     (if s = ascii ''earlier'' then Inr Earlier
      else if s = ascii ''later'' then Inr Later
      else Inl TInvalidEnvelope)"

fun status_name :: "resolution_status \<Rightarrow> bytes" where
  "status_name StatusResolved = ascii ''resolved''"
| "status_name StatusMissing = ascii ''missing''"
| "status_name StatusAmbiguous = ascii ''ambiguous''"
| "status_name StatusInvalid = ascii ''invalid''"
| "status_name StatusUnsupported = ascii ''unsupported''"

definition decode_status :: "bytes \<Rightarrow> time_error + resolution_status" where
  "decode_status s =
     (if s = ascii ''resolved'' then Inr StatusResolved
      else if s = ascii ''missing'' then Inr StatusMissing
      else if s = ascii ''ambiguous'' then Inr StatusAmbiguous
      else if s = ascii ''invalid'' then Inr StatusInvalid
      else if s = ascii ''unsupported'' then Inr StatusUnsupported
      else Inl TInvalidEnvelope)"

fun reason_name :: "resolution_reason \<Rightarrow> bytes" where
  "reason_name Accepted = ascii ''accepted''"
| "reason_name MissingValue = ascii ''missing_value''"
| "reason_name MissingZone = ascii ''missing_zone''"
| "reason_name DateOnlyWithoutPolicy = ascii ''date_only_without_policy''"
| "reason_name UnitRequired = ascii ''unit_required''"
| "reason_name InvalidSyntax = ascii ''invalid_syntax''"
| "reason_name OutOfRange = ascii ''out_of_range''"
| "reason_name UnknownOffset = ascii ''unknown_offset''"
| "reason_name LeapSecond = ascii ''leap_second''"
| "reason_name UnsupportedTimeScale = ascii ''unsupported_time_scale''"
| "reason_name UnknownZone = ascii ''unknown_zone''"
| "reason_name FoldChoiceRequired = ascii ''fold_choice_required''"
| "reason_name UnnecessaryFoldChoice = ascii ''unnecessary_fold_choice''"
| "reason_name NonexistentLocalTime = ascii ''nonexistent_local_time''"
| "reason_name OffsetZoneConflict = ascii ''offset_zone_conflict''"

definition decode_reason :: "bytes \<Rightarrow> time_error + resolution_reason" where
  "decode_reason s =
     (if s = ascii ''accepted'' then Inr Accepted
      else if s = ascii ''missing_value'' then Inr MissingValue
      else if s = ascii ''missing_zone'' then Inr MissingZone
      else if s = ascii ''date_only_without_policy'' then Inr DateOnlyWithoutPolicy
      else if s = ascii ''unit_required'' then Inr UnitRequired
      else if s = ascii ''invalid_syntax'' then Inr InvalidSyntax
      else if s = ascii ''out_of_range'' then Inr OutOfRange
      else if s = ascii ''unknown_offset'' then Inr UnknownOffset
      else if s = ascii ''leap_second'' then Inr LeapSecond
      else if s = ascii ''unsupported_time_scale'' then Inr UnsupportedTimeScale
      else if s = ascii ''unknown_zone'' then Inr UnknownZone
      else if s = ascii ''fold_choice_required'' then Inr FoldChoiceRequired
      else if s = ascii ''unnecessary_fold_choice'' then Inr UnnecessaryFoldChoice
      else if s = ascii ''nonexistent_local_time'' then Inr NonexistentLocalTime
      else if s = ascii ''offset_zone_conflict'' then Inr OffsetZoneConflict
      else Inl TInvalidEnvelope)"

section \<open>Parts of an envelope\<close>

definition time_text :: "bytes \<Rightarrow> time_error + val" where
  "time_text s = text_value TResourceLimit s"

definition time_map :: "(string \<times> val) list \<Rightarrow> time_error + val" where
  "time_map entries = map_value TResourceLimit entries"

definition expect_text :: "val \<Rightarrow> bytes \<Rightarrow> time_error + unit" where
  "expect_text v expected =
     rbind (take_text TInvalidEnvelope v) (\<lambda>s. ensure (s = expected) TUnsupportedProfile)"

definition encode_source :: "source_descriptor \<Rightarrow> time_error + val" where
  "encode_source source =
     rbind (time_text (sd_locator source)) (\<lambda>locator.
     time_map
       [(''artifact'', VRecordRef (sd_artifact source)),
        (''artifact_version'', VUnsigned (word_of_nat (sd_artifact_version source))),
        (''locator'', locator)])"

definition decode_source :: "val \<Rightarrow> time_error + source_descriptor" where
  "decode_source v =
     rbind (fields_new TInvalidEnvelope v) (\<lambda>fields.
     rbind (field_take TInvalidEnvelope ''artifact'' fields) (\<lambda>(x, fields).
     rbind (take_record TInvalidEnvelope x) (\<lambda>artifact.
     rbind (field_take TInvalidEnvelope ''artifact_version'' fields) (\<lambda>(x, fields).
     rbind (take_u64 TInvalidEnvelope x) (\<lambda>version.
     rbind (field_take TInvalidEnvelope ''locator'' fields) (\<lambda>(x, fields).
     rbind (take_text TInvalidEnvelope x) (\<lambda>locator.
     rbind (field_finish TInvalidEnvelope fields) (\<lambda>_.
     source_descriptor_new artifact version locator))))))))"

definition encode_interpretation :: "time_interpretation \<Rightarrow> time_error + val" where
  "encode_interpretation i =
     rbind (optional_text TResourceLimit (map_option epoch_unit_name (ti_epoch_unit i))) (\<lambda>unit.
     rbind (optional_text TResourceLimit (map_option fold_name (ti_fold i))) (\<lambda>fold_text.
     rbind (time_text (scale_name (ti_scale i))) (\<lambda>scale.
     rbind (optional_text TResourceLimit (ti_zone i)) (\<lambda>zone.
     time_map
       [(''epoch_unit'', unit),
        (''fold'', fold_text),
        (''scale'', scale),
        (''supplied_offset_seconds'',
          case ti_supplied_offset i of None \<Rightarrow> VNull | Some offset \<Rightarrow> VSigned offset),
        (''zone'', zone)]))))"

definition decode_interpretation :: "val \<Rightarrow> time_error + time_interpretation" where
  "decode_interpretation v =
     rbind (fields_new TInvalidEnvelope v) (\<lambda>fields.
     rbind (field_take TInvalidEnvelope ''epoch_unit'' fields) (\<lambda>(x, fields).
     rbind (take_optional_text TInvalidEnvelope x) (\<lambda>s.
     rbind (transpose_map decode_epoch_unit s) (\<lambda>unit.
     rbind (field_take TInvalidEnvelope ''fold'' fields) (\<lambda>(x, fields).
     rbind (take_optional_text TInvalidEnvelope x) (\<lambda>s.
     rbind (transpose_map decode_fold s) (\<lambda>fold_value.
     rbind (field_take TInvalidEnvelope ''scale'' fields) (\<lambda>(x, fields).
     rbind (take_text TInvalidEnvelope x) (\<lambda>s.
     rbind (decode_scale s) (\<lambda>scale.
     rbind (field_take TInvalidEnvelope ''supplied_offset_seconds'' fields) (\<lambda>(x, fields).
     rbind (take_optional_i32 TInvalidEnvelope x) (\<lambda>offset.
     rbind (field_take TInvalidEnvelope ''zone'' fields) (\<lambda>(x, fields).
     rbind (take_optional_text TInvalidEnvelope x) (\<lambda>s.
     rbind (transpose_map (\<lambda>z. bounded z MAX_ZONE_BYTES ''zone'') s) (\<lambda>zone.
     rbind (field_finish TInvalidEnvelope fields) (\<lambda>_.
     Inr \<lparr>ti_scale = scale, ti_epoch_unit = unit, ti_supplied_offset = offset, ti_zone = zone,
          ti_fold = fold_value\<rparr>))))))))))))))))"

definition encode_resolution :: "resolution \<Rightarrow> time_error + val" where
  "encode_resolution r =
     rbind (time_text (reason_name (reason_of r))) (\<lambda>reason.
     rbind (time_text (status_name (status_of r))) (\<lambda>status.
     time_map
       [(''effective_offset_seconds'',
          case effective_offset_seconds r of None \<Rightarrow> VNull | Some offset \<Rightarrow> VSigned offset),
        (''instant'', case instant_of r of None \<Rightarrow> VNull | Some i \<Rightarrow> VInstant i),
        (''reason'', reason),
        (''status'', status)]))"

definition resolution_from ::
  "resolution_status \<Rightarrow> resolution_reason \<Rightarrow> utc_instant option \<Rightarrow> int option \<Rightarrow> time_error + resolution" where
  "resolution_from status reason instant offset =
     (case (status, instant, offset) of
        (StatusResolved, Some i, Some offset) \<Rightarrow>
          if reason = Accepted then Inr (Resolved i offset) else Inl TInvalidEnvelope
      | (StatusMissing, None, None) \<Rightarrow> Inr (Missing reason)
      | (StatusAmbiguous, None, None) \<Rightarrow> Inr (Ambiguous reason)
      | (StatusInvalid, None, None) \<Rightarrow> Inr (Invalid reason)
      | (StatusUnsupported, None, None) \<Rightarrow> Inr (Unsupported reason)
      | _ \<Rightarrow> Inl TInvalidEnvelope)"

definition decode_resolution :: "val \<Rightarrow> time_error + resolution" where
  "decode_resolution v =
     rbind (fields_new TInvalidEnvelope v) (\<lambda>fields.
     rbind (field_take TInvalidEnvelope ''effective_offset_seconds'' fields) (\<lambda>(x, fields).
     rbind (take_optional_i32 TInvalidEnvelope x) (\<lambda>offset.
     rbind (field_take TInvalidEnvelope ''instant'' fields) (\<lambda>(x, fields).
     rbind (take_optional_instant TInvalidEnvelope x) (\<lambda>instant.
     rbind (field_take TInvalidEnvelope ''reason'' fields) (\<lambda>(x, fields).
     rbind (take_text TInvalidEnvelope x) (\<lambda>s.
     rbind (decode_reason s) (\<lambda>reason.
     rbind (field_take TInvalidEnvelope ''status'' fields) (\<lambda>(x, fields).
     rbind (take_text TInvalidEnvelope x) (\<lambda>s.
     rbind (decode_status s) (\<lambda>status.
     rbind (field_finish TInvalidEnvelope fields) (\<lambda>_.
     resolution_from status reason instant offset))))))))))))"

definition encode_precision :: "source_precision \<Rightarrow> time_error + val" where
  "encode_precision p =
     rbind (case p of
         PrecisionUnknown \<Rightarrow> Inr (ascii ''unknown'', VNull)
       | Date \<Rightarrow> Inr (ascii ''date'', VNull)
       | Second \<Rightarrow> Inr (ascii ''second'', VNull)
       | FractionDigits digits \<Rightarrow> Inr (ascii ''fraction_digits'', VUnsigned (word_of_nat digits))
       | EpochUnit unit \<Rightarrow>
           rbind (time_text (epoch_unit_name unit)) (\<lambda>unit. Inr (ascii ''epoch_unit'', unit)))
     (\<lambda>(kind, detail).
     rbind (time_text kind) (\<lambda>kind.
     time_map [(''detail'', detail), (''kind'', kind)]))"

definition decode_precision :: "val \<Rightarrow> time_error + source_precision" where
  "decode_precision v =
     rbind (fields_new TInvalidEnvelope v) (\<lambda>fields.
     rbind (field_take TInvalidEnvelope ''detail'' fields) (\<lambda>(detail, fields).
     rbind (field_take TInvalidEnvelope ''kind'' fields) (\<lambda>(x, fields).
     rbind (take_text TInvalidEnvelope x) (\<lambda>kind.
     rbind (field_finish TInvalidEnvelope fields) (\<lambda>_.
     case detail of
       VNull \<Rightarrow>
         if kind = ascii ''unknown'' then Inr PrecisionUnknown
         else if kind = ascii ''date'' then Inr Date
         else if kind = ascii ''second'' then Inr Second
         else Inl TInvalidEnvelope
     | VUnsigned digits \<Rightarrow>
         if kind = ascii ''fraction_digits'' \<and> unat digits \<le> 255 then Inr (FractionDigits (unat digits))
         else Inl TInvalidEnvelope
     | VString unit \<Rightarrow>
         if kind = ascii ''epoch_unit'' then
           rbind (decode_epoch_unit unit) (\<lambda>unit. Inr (EpochUnit unit))
         else Inl TInvalidEnvelope
     | _ \<Rightarrow> Inl TInvalidEnvelope)))))"

definition encode_clock_uncertainty :: "clock_uncertainty \<Rightarrow> time_error + val" where
  "encode_clock_uncertainty u =
     (let (kind, before, after) =
        (case u of
           UncertaintyUnknown \<Rightarrow> (ascii ''unknown'', VNull, VNull)
         | BoundedNanoseconds before after \<Rightarrow>
             (ascii ''bounded_nanoseconds'', VUnsigned (word_of_nat before), VUnsigned (word_of_nat after))) in
     rbind (time_text kind) (\<lambda>kind.
     time_map [(''after'', after), (''before'', before), (''kind'', kind)]))"

definition decode_clock_uncertainty :: "val \<Rightarrow> time_error + clock_uncertainty" where
  "decode_clock_uncertainty v =
     rbind (fields_new TInvalidEnvelope v) (\<lambda>fields.
     rbind (field_take TInvalidEnvelope ''after'' fields) (\<lambda>(after, fields).
     rbind (field_take TInvalidEnvelope ''before'' fields) (\<lambda>(before, fields).
     rbind (field_take TInvalidEnvelope ''kind'' fields) (\<lambda>(x, fields).
     rbind (take_text TInvalidEnvelope x) (\<lambda>kind.
     rbind (field_finish TInvalidEnvelope fields) (\<lambda>_.
     case (before, after) of
       (VNull, VNull) \<Rightarrow>
         if kind = ascii ''unknown'' then Inr UncertaintyUnknown else Inl TInvalidEnvelope
     | (VUnsigned before, VUnsigned after) \<Rightarrow>
         if kind = ascii ''bounded_nanoseconds'' then
           rbind (take_u64 TInvalidEnvelope (VUnsigned before)) (\<lambda>before.
           rbind (take_u64 TInvalidEnvelope (VUnsigned after)) (\<lambda>after.
           Inr (BoundedNanoseconds before after)))
         else Inl TInvalidEnvelope
     | _ \<Rightarrow> Inl TInvalidEnvelope))))))"

definition encode_assumption :: "authorized_assumption \<Rightarrow> time_error + val" where
  "encode_assumption a =
     rbind (time_text (aa_statement a)) (\<lambda>statement.
     time_map [(''authority'', VRecordRef (aa_authority a)), (''statement'', statement)])"

definition decode_assumption :: "val \<Rightarrow> time_error + authorized_assumption" where
  "decode_assumption v =
     rbind (fields_new TInvalidEnvelope v) (\<lambda>fields.
     rbind (field_take TInvalidEnvelope ''authority'' fields) (\<lambda>(x, fields).
     rbind (take_record TInvalidEnvelope x) (\<lambda>authority.
     rbind (field_take TInvalidEnvelope ''statement'' fields) (\<lambda>(x, fields).
     rbind (take_text TInvalidEnvelope x) (\<lambda>statement.
     rbind (field_finish TInvalidEnvelope fields) (\<lambda>_.
     authorized_assumption_new statement authority))))))"

definition encode_assumptions :: "authorized_assumption list \<Rightarrow> time_error + val" where
  "encode_assumptions assumptions =
     rbind (collect_map encode_assumption assumptions) (\<lambda>vs.
     map_err (\<lambda>_. TResourceLimit) (list_new vs))"

definition decode_assumptions :: "val \<Rightarrow> time_error + authorized_assumption list" where
  "decode_assumptions v =
     (case v of
        VList vs \<Rightarrow>
          if length vs > MAX_ASSUMPTIONS then Inl TInvalidEnvelope
          else collect_map decode_assumption vs
      | _ \<Rightarrow> Inl TInvalidEnvelope)"

definition encode_timezone :: "timezone_profile option \<Rightarrow> time_error + val" where
  "encode_timezone profile =
     (case profile of
        None \<Rightarrow> Inr VNull
      | Some profile \<Rightarrow>
          if profile = PINNED then
            rbind (map_err (\<lambda>_. TResourceLimit) (bytes_new (tz_digest profile))) (\<lambda>digest.
            rbind (time_text (tz_version profile)) (\<lambda>version.
            time_map [(''digest'', digest), (''version'', version)]))
          else Inl TUnsupportedProfile)"

definition decode_timezone :: "val \<Rightarrow> time_error + timezone_profile option" where
  "decode_timezone v =
     (if v = VNull then Inr None
      else
        rbind (fields_new TInvalidEnvelope v) (\<lambda>fields.
        rbind (field_take TInvalidEnvelope ''digest'' fields) (\<lambda>(x, fields).
        rbind (take_bytes TInvalidEnvelope x) (\<lambda>digest.
        rbind (field_take TInvalidEnvelope ''version'' fields) (\<lambda>(x, fields).
        rbind (take_text TInvalidEnvelope x) (\<lambda>version.
        rbind (field_finish TInvalidEnvelope fields) (\<lambda>_.
        if version \<noteq> TZDB_VERSION \<or> digest \<noteq> TZDB_PROFILE_DIGEST then Inl TUnsupportedProfile
        else Inr (Some PINNED))))))))"

section \<open>Envelopes\<close>

definition envelope_to_value :: "timestamp_envelope \<Rightarrow> time_error + val" where
  "envelope_to_value e =
     rbind (encode_assumptions (te_assumptions e)) (\<lambda>assumptions.
     rbind (time_text CALENDAR_PROFILE) (\<lambda>calendar_profile.
     rbind (time_text ENVELOPE_PROFILE) (\<lambda>envelope_profile.
     rbind (encode_interpretation (te_interpretation e)) (\<lambda>interpretation.
     rbind (time_text NORMALIZATION_PROFILE) (\<lambda>normalization_profile.
     rbind (time_text (te_original e)) (\<lambda>original.
     rbind (time_text PARSER_PROFILE) (\<lambda>parser_profile.
     rbind (encode_precision (te_precision e)) (\<lambda>precision.
     rbind (encode_resolution (te_resolution e)) (\<lambda>resolution.
     rbind (time_text (role_name (te_role e))) (\<lambda>role.
     rbind (encode_source (te_source e)) (\<lambda>source.
     rbind (encode_timezone (te_timezone_profile e)) (\<lambda>timezone_profile.
     rbind (encode_clock_uncertainty (te_uncertainty e)) (\<lambda>uncertainty.
     time_map
       [(''assumptions'', assumptions),
        (''calendar_profile'', calendar_profile),
        (''envelope_profile'', envelope_profile),
        (''interpretation'', interpretation),
        (''normalization_profile'', normalization_profile),
        (''original'', original),
        (''parser_profile'', parser_profile),
        (''precision'', precision),
        (''resolution'', resolution),
        (''role'', role),
        (''source'', source),
        (''timezone_profile'', timezone_profile),
        (''uncertainty'', uncertainty)])))))))))))))"

definition envelope_from_value :: "val \<Rightarrow> time_error + timestamp_envelope" where
  "envelope_from_value v =
     rbind (fields_new TInvalidEnvelope v) (\<lambda>root.
     rbind (field_take TInvalidEnvelope ''calendar_profile'' root) (\<lambda>(x, root).
     rbind (expect_text x CALENDAR_PROFILE) (\<lambda>_.
     rbind (field_take TInvalidEnvelope ''envelope_profile'' root) (\<lambda>(x, root).
     rbind (expect_text x ENVELOPE_PROFILE) (\<lambda>_.
     rbind (field_take TInvalidEnvelope ''normalization_profile'' root) (\<lambda>(x, root).
     rbind (expect_text x NORMALIZATION_PROFILE) (\<lambda>_.
     rbind (field_take TInvalidEnvelope ''parser_profile'' root) (\<lambda>(x, root).
     rbind (expect_text x PARSER_PROFILE) (\<lambda>_.
     rbind (field_take TInvalidEnvelope ''assumptions'' root) (\<lambda>(x, root).
     rbind (decode_assumptions x) (\<lambda>assumptions.
     rbind (field_take TInvalidEnvelope ''interpretation'' root) (\<lambda>(x, root).
     rbind (decode_interpretation x) (\<lambda>interpretation.
     rbind (field_take TInvalidEnvelope ''original'' root) (\<lambda>(x, root).
     rbind (take_text TInvalidEnvelope x) (\<lambda>original.
     rbind (field_take TInvalidEnvelope ''precision'' root) (\<lambda>(x, root).
     rbind (decode_precision x) (\<lambda>precision.
     rbind (field_take TInvalidEnvelope ''resolution'' root) (\<lambda>(x, root).
     rbind (decode_resolution x) (\<lambda>resolution.
     rbind (field_take TInvalidEnvelope ''role'' root) (\<lambda>(x, root).
     rbind (take_text TInvalidEnvelope x) (\<lambda>s.
     rbind (decode_role s) (\<lambda>role.
     rbind (field_take TInvalidEnvelope ''source'' root) (\<lambda>(x, root).
     rbind (decode_source x) (\<lambda>source.
     rbind (field_take TInvalidEnvelope ''timezone_profile'' root) (\<lambda>(x, root).
     rbind (decode_timezone x) (\<lambda>timezone_profile.
     rbind (field_take TInvalidEnvelope ''uncertainty'' root) (\<lambda>(x, root).
     rbind (decode_clock_uncertainty x) (\<lambda>uncertainty.
     rbind (field_finish TInvalidEnvelope root) (\<lambda>_.
     envelope_checked source role original interpretation resolution precision uncertainty assumptions
       timezone_profile)))))))))))))))))))))))))))))"

definition encode_envelope :: "(nat \<Rightarrow> bool) \<Rightarrow> timestamp_envelope \<Rightarrow> time_error + bytes" where
  "encode_envelope reserve e =
     rbind (envelope_to_value e) (\<lambda>v.
     map_err (\<lambda>err. case err of EResourceLimit \<Rightarrow> TResourceLimit | _ \<Rightarrow> TInvalidEnvelope)
       (encode_value reserve v))"

definition decode_envelope :: "allocator \<Rightarrow> bytes \<Rightarrow> time_error + timestamp_envelope" where
  "decode_envelope alloc input =
     rbind (map_err (\<lambda>_. TInvalidEncoding) (decode_value alloc input)) envelope_from_value"

section \<open>The names are read back\<close>

lemma name_iffs [field_iffs]:
  "decode_role s = Inr role \<longleftrightarrow> s = role_name role"
  "decode_epoch_unit s = Inr unit \<longleftrightarrow> s = epoch_unit_name unit"
  "decode_scale s = Inr scale \<longleftrightarrow> s = scale_name scale"
  "decode_fold s = Inr choice \<longleftrightarrow> s = fold_name choice"
  "decode_status s = Inr status \<longleftrightarrow> s = status_name status"
  "decode_reason s = Inr reason \<longleftrightarrow> s = reason_name reason"
  subgoal by (cases role) (auto simp: decode_role_def)
  subgoal by (cases unit) (auto simp: decode_epoch_unit_def)
  subgoal by (cases scale) (auto simp: decode_scale_def)
  subgoal by (cases choice) (auto simp: decode_fold_def)
  subgoal by (cases status) (auto simp: decode_status_def)
  subgoal by (cases reason) (auto simp: decode_reason_def)
  done

lemma names_back [simp]:
  "decode_role (role_name role) = Inr role" "decode_epoch_unit (epoch_unit_name unit) = Inr unit"
  "decode_scale (scale_name scale) = Inr scale" "decode_fold (fold_name choice) = Inr choice"
  "decode_status (status_name status) = Inr status" "decode_reason (reason_name reason) = Inr reason"
  by (simp_all only: name_iffs)

definition name_ok :: "bytes \<Rightarrow> bool" where
  "name_ok s \<longleftrightarrow> string_ok s \<and> length s \<le> 64"

lemma name_ok_ascii: "plain_key s \<Longrightarrow> name_ok (ascii s)"
  unfolding name_ok_def by (rule plain_key_ok)

lemma plain_names:
  "name_ok (role_name role)" "name_ok (epoch_unit_name unit)" "name_ok (scale_name scale)"
  "name_ok (fold_name choice)" "name_ok (status_name status)" "name_ok (reason_name reason)"
  subgoal by (cases role) (simp_all add: name_ok_ascii plain_key_def)
  subgoal by (cases unit) (simp_all add: name_ok_ascii plain_key_def)
  subgoal by (cases scale) (simp_all add: name_ok_ascii plain_key_def)
  subgoal by (cases choice) (simp_all add: name_ok_ascii plain_key_def)
  subgoal by (cases status) (simp_all add: name_ok_ascii plain_key_def)
  subgoal by (cases reason) (simp_all add: name_ok_ascii plain_key_def)
  done

lemma val_in_name:
  "name_ok s \<Longrightarrow> 1 \<le> n \<Longrightarrow> 84 \<le> p \<Longrightarrow> val_in d n p (VString s)"
  by (rule val_in_string) (simp_all add: name_ok_def)

lemma bounded_iff [field_iffs]:
  "bounded s m field = Inr t \<longleftrightarrow> t = s \<and> length s \<le> m \<and> length s \<le> MAX_INLINE_BYTES"
  by (auto simp: bounded_def check_inline_length_def split: sum.splits)

section \<open>The parts are read back\<close>

lemma source_keys: "plain_keys [''artifact'', ''artifact_version'', ''locator'']"
  by (simp add: plain_keys_def plain_key_def ascii_def)

definition source_ok :: "source_descriptor \<Rightarrow> bool" where
  "source_ok s \<longleftrightarrow> record_ref_ok (sd_artifact s) \<and> 1 \<le> sd_artifact_version s
     \<and> sd_artifact_version s \<le> usize_max \<and> utf8_valid (sd_locator s)
     \<and> length (sd_locator s) \<le> MAX_LOCATOR_BYTES"

lemma source_descriptor_new_iff:
  "source_descriptor_new a v l = Inr s \<longleftrightarrow>
     s = \<lparr>sd_artifact = a, sd_artifact_version = v, sd_locator = l\<rparr> \<and> 1 \<le> v
       \<and> length l \<le> MAX_LOCATOR_BYTES"
  by (auto simp: source_descriptor_new_def rbind_iffs field_iffs time_limits value_limits)

definition source_entries :: "source_descriptor \<Rightarrow> (string \<times> val) list" where
  "source_entries s =
     [(''artifact'', VRecordRef (sd_artifact s)),
      (''artifact_version'', VUnsigned (word_of_nat (sd_artifact_version s))),
      (''locator'', VString (sd_locator s))]"

lemma time_text_eq: "length s \<le> MAX_INLINE_BYTES \<Longrightarrow> time_text s = Inr (VString s)"
  by (simp add: time_text_def field_iffs)

lemma encode_source_eq:
  assumes "source_ok s"
  shows "encode_source s = Inr (VMap (named (source_entries s)))
    \<and> val_in 1 4 13000 (VMap (named (source_entries s)))"
proof -
  have "encode_source s = map_value TResourceLimit (source_entries s)"
    using assms
    by (simp add: encode_source_def time_text_eq time_map_def source_entries_def source_ok_def
        time_limits value_limits)
  moreover have "map_value TResourceLimit (source_entries s) = Inr (VMap (named (source_entries s)))
      \<and> val_in (Suc 0) 4 13000 (VMap (named (source_entries s)))"
    by (rule record_encodes [where n = 1 and p = 4120])
      (use assms source_keys in \<open>auto intro!: val_in_intros val_in_string
        simp: source_entries_def source_ok_def string_ok_def time_limits value_limits\<close>)
  ultimately show ?thesis by simp
qed

lemma decode_source_inv:
  assumes wf: "value_wf v" and dec: "decode_source v = Inr s"
  shows "source_ok s \<and> v = VMap (named (source_entries s))"
proof -
  obtain fs a n l where v: "v = VMap fs" and s: "source_descriptor_new a n l = Inr s" "n \<le> usize_max"
    and got: "bm_get fs (ascii ''artifact'') = Some (VRecordRef a)"
      "bm_get fs (ascii ''artifact_version'') = Some (VUnsigned (word_of_nat n))"
      "bm_get fs (ascii ''locator'') = Some (VString l)"
    and all: "only_fields fs [''artifact'', ''artifact_version'', ''locator'']"
    using dec
    by (auto simp: decode_source_def rbind_eq_Inr fields_new_iff [OF wf] field_iffs taken_simps)
  have "fs = named [(''artifact'', VRecordRef a), (''artifact_version'', VUnsigned (word_of_nat n)),
      (''locator'', VString l)] \<and> list_all value_wf [VRecordRef a, VUnsigned (word_of_nat n), VString l]"
    using taken_named [of fs "[(''artifact'', VRecordRef a),
      (''artifact_version'', VUnsigned (word_of_nat n)), (''locator'', VString l)]"]
      wf v got all source_keys by auto
  with s v show ?thesis
    by (auto simp: source_descriptor_new_iff source_ok_def source_entries_def string_ok_def)
qed

interpretation source_codec: value_codec encode_source decode_source source_ok 1 4 13000
proof (rule value_codecI [where entries = source_entries])
  fix s
  assume ok: "source_ok s"
  then show "encode_source s = Inr (VMap (named (source_entries s)))
    \<and> val_in 1 4 13000 (VMap (named (source_entries s)))" by (rule encode_source_eq)
  show "decode_source (VMap (named (source_entries s))) = Inr s"
    using ok source_keys
    by (simp add: decode_source_def source_entries_def read_named source_descriptor_new_iff source_ok_def)
qed (rule decode_source_inv)

subsection \<open>Interpretations\<close>

definition interpretation_ok :: "time_interpretation \<Rightarrow> bool" where
  "interpretation_ok i \<longleftrightarrow>
     (case ti_supplied_offset i of None \<Rightarrow> True | Some offset \<Rightarrow> - (2 ^ 31) \<le> offset \<and> offset < 2 ^ 31)
     \<and> (case ti_zone i of None \<Rightarrow> True | Some z \<Rightarrow> utf8_valid z \<and> length z \<le> MAX_ZONE_BYTES)"

definition optional_string :: "bytes option \<Rightarrow> val" where
  "optional_string s = (case s of None \<Rightarrow> VNull | Some s \<Rightarrow> VString s)"

definition optional_signed :: "int option \<Rightarrow> val" where
  "optional_signed i = (case i of None \<Rightarrow> VNull | Some i \<Rightarrow> VSigned i)"

definition interpretation_entries :: "time_interpretation \<Rightarrow> (string \<times> val) list" where
  "interpretation_entries i =
     [(''epoch_unit'', optional_string (map_option epoch_unit_name (ti_epoch_unit i))),
      (''fold'', optional_string (map_option fold_name (ti_fold i))),
      (''scale'', VString (scale_name (ti_scale i))),
      (''supplied_offset_seconds'', optional_signed (ti_supplied_offset i)),
      (''zone'', optional_string (ti_zone i))]"

lemma interpretation_keys:
  "plain_keys [''epoch_unit'', ''fold'', ''scale'', ''supplied_offset_seconds'', ''zone'']"
  by (simp add: plain_keys_def plain_key_def ascii_def)

lemma take_optional_string [field_iffs]:
  "take_optional_text e v = Inr s \<longleftrightarrow> v = optional_string s"
  by (auto simp: take_optional_text_iff optional_string_def split: option.splits)

lemma take_optional_signed [field_iffs]:
  "take_optional_i32 e v = Inr i \<longleftrightarrow>
     v = optional_signed i \<and> (case i of None \<Rightarrow> True | Some i \<Rightarrow> - (2 ^ 31) \<le> i \<and> i < 2 ^ 31)"
  by (auto simp: take_optional_i32_iff optional_signed_def split: option.splits)

declare take_optional_text_iff [field_iffs del] take_optional_i32_iff [field_iffs del]

lemma optional_text_string:
  "(case s of None \<Rightarrow> True | Some s \<Rightarrow> length s \<le> MAX_INLINE_BYTES) \<Longrightarrow>
   optional_text limit s = Inr (optional_string s)"
  by (auto simp: optional_text_iff optional_string_def split: option.splits)

lemma val_in_optional_string [val_in_intros]:
  "(case s of None \<Rightarrow> True | Some s \<Rightarrow> string_ok s \<and> 20 + length s \<le> p) \<Longrightarrow> 1 \<le> n \<Longrightarrow> 1 \<le> p \<Longrightarrow>
   val_in d n p (optional_string s)"
  by (auto simp: optional_string_def intro: val_in_null val_in_string split: option.splits)

lemma val_in_optional_signed [val_in_intros]:
  "(case i of None \<Rightarrow> True | Some i \<Rightarrow> - (2 ^ 127) \<le> i \<and> i < 2 ^ 127) \<Longrightarrow> 1 \<le> n \<Longrightarrow> 21 \<le> p \<Longrightarrow>
   val_in d n p (optional_signed i)"
  by (auto simp: optional_signed_def intro: val_in_null val_in_signed split: option.splits)

lemma name_bounds:
  "name_ok s \<Longrightarrow> string_ok s" "name_ok s \<Longrightarrow> length s \<le> MAX_INLINE_BYTES"
  "name_ok s \<Longrightarrow> 84 \<le> p \<Longrightarrow> 20 + length s \<le> p"
  by (auto simp: name_ok_def value_limits)

lemma encode_interpretation_eq:
  assumes "interpretation_ok i"
  shows "encode_interpretation i = Inr (VMap (named (interpretation_entries i)))
    \<and> val_in 1 6 2000 (VMap (named (interpretation_entries i)))"
proof -
  have zone: "case ti_zone i of None \<Rightarrow> True | Some z \<Rightarrow> length z \<le> MAX_INLINE_BYTES"
      "case ti_zone i of None \<Rightarrow> True | Some z \<Rightarrow> string_ok z \<and> 20 + length z \<le> 275"
    using assms
    by (auto simp: interpretation_ok_def string_ok_def time_limits value_limits split: option.splits)
  have "encode_interpretation i = map_value TResourceLimit (interpretation_entries i)"
    using zone(1)
    by (simp add: encode_interpretation_def optional_text_string time_text_eq time_map_def
        interpretation_entries_def optional_signed_def plain_names name_bounds option.case_eq_if
        option.map_sel)
  moreover have "map_value TResourceLimit (interpretation_entries i)
        = Inr (VMap (named (interpretation_entries i)))
      \<and> val_in (Suc 0) 6 2000 (VMap (named (interpretation_entries i)))"
    by (rule record_encodes [where n = 1 and p = 275])
      (use assms zone(2) interpretation_keys in \<open>auto intro!: val_in_intros val_in_name plain_names
        simp: interpretation_entries_def interpretation_ok_def option.case_eq_if option.map_sel
          name_bounds plain_names value_limits\<close>)
  ultimately show ?thesis by simp
qed

lemma decode_interpretation_inv:
  assumes wf: "value_wf v" and dec: "decode_interpretation v = Inr i"
  shows "interpretation_ok i \<and> v = VMap (named (interpretation_entries i))"
proof -
  obtain fs u f z where v: "v = VMap fs"
    and parts: "transpose_map decode_epoch_unit u = Inr (ti_epoch_unit i)"
      "transpose_map decode_fold f = Inr (ti_fold i)"
      "transpose_map (\<lambda>z. bounded z MAX_ZONE_BYTES ''zone'') z = Inr (ti_zone i)"
      "case ti_supplied_offset i of None \<Rightarrow> True | Some i \<Rightarrow> - (2 ^ 31) \<le> i \<and> i < 2 ^ 31"
    and got: "bm_get fs (ascii ''epoch_unit'') = Some (optional_string u)"
      "bm_get fs (ascii ''fold'') = Some (optional_string f)"
      "bm_get fs (ascii ''scale'') = Some (VString (scale_name (ti_scale i)))"
      "bm_get fs (ascii ''supplied_offset_seconds'') = Some (optional_signed (ti_supplied_offset i))"
      "bm_get fs (ascii ''zone'') = Some (optional_string z)"
    and all: "only_fields fs [''epoch_unit'', ''fold'', ''scale'', ''supplied_offset_seconds'', ''zone'']"
    using dec
    by (auto simp: decode_interpretation_def rbind_eq_Inr fields_new_iff [OF wf] field_take_iff
        take_text_iff take_optional_string take_optional_signed name_iffs(3) taken_simps)
  have names: "u = map_option epoch_unit_name (ti_epoch_unit i)" "f = map_option fold_name (ti_fold i)"
      "z = ti_zone i" "case ti_zone i of None \<Rightarrow> True | Some z \<Rightarrow> length z \<le> MAX_ZONE_BYTES"
    using parts by (auto simp: field_iffs split: option.splits)
  have "fs = named (interpretation_entries i) \<and> list_all value_wf (map snd (interpretation_entries i))"
    using taken_named [of fs "interpretation_entries i"] wf v got all interpretation_keys names
    by (auto simp: interpretation_entries_def)
  with v names(4) parts(4) show ?thesis
    by (auto simp: interpretation_ok_def interpretation_entries_def optional_string_def string_ok_def
        split: option.splits)
qed

interpretation interpretation_codec:
  value_codec encode_interpretation decode_interpretation interpretation_ok 1 6 2000
proof (rule value_codecI [where entries = interpretation_entries])
  fix i
  assume ok: "interpretation_ok i"
  then show "encode_interpretation i = Inr (VMap (named (interpretation_entries i)))
    \<and> val_in 1 6 2000 (VMap (named (interpretation_entries i)))" by (rule encode_interpretation_eq)
  have optional: "take_optional_text e (optional_string s) = Inr s"
      "take_optional_i32 e (optional_signed (ti_supplied_offset i)) = Inr (ti_supplied_offset i)" for e :: time_error and s
    using ok by (simp_all add: field_iffs interpretation_ok_def)
  have "transpose_map decode_epoch_unit (map_option epoch_unit_name (ti_epoch_unit i)) = Inr (ti_epoch_unit i)"
      "transpose_map decode_fold (map_option fold_name (ti_fold i)) = Inr (ti_fold i)"
      "transpose_map (\<lambda>z. bounded z MAX_ZONE_BYTES ''zone'') (ti_zone i) = Inr (ti_zone i)"
    using ok
    by (auto simp: field_iffs interpretation_ok_def time_limits value_limits split: option.splits)
  then show "decode_interpretation (VMap (named (interpretation_entries i))) = Inr i"
    using interpretation_keys
    by (simp add: decode_interpretation_def interpretation_entries_def read_named optional)
qed (rule decode_interpretation_inv)

subsection \<open>Resolutions\<close>

fun resolution_ok :: "resolution \<Rightarrow> bool" where
  "resolution_ok (Resolved i offset) \<longleftrightarrow> instant_ok i \<and> - (2 ^ 31) \<le> offset \<and> offset < 2 ^ 31"
| "resolution_ok _ \<longleftrightarrow> True"

definition optional_instant :: "utc_instant option \<Rightarrow> val" where
  "optional_instant i = (case i of None \<Rightarrow> VNull | Some i \<Rightarrow> VInstant i)"

definition resolution_entries :: "resolution \<Rightarrow> (string \<times> val) list" where
  "resolution_entries r =
     [(''effective_offset_seconds'', optional_signed (effective_offset_seconds r)),
      (''instant'', optional_instant (instant_of r)),
      (''reason'', VString (reason_name (reason_of r))),
      (''status'', VString (status_name (status_of r)))]"

lemma resolution_keys: "plain_keys [''effective_offset_seconds'', ''instant'', ''reason'', ''status'']"
  by (simp add: plain_keys_def plain_key_def ascii_def)

lemma take_optional_instant_opt:
  "take_optional_instant e v = Inr i \<longleftrightarrow> v = optional_instant i"
  by (auto simp: take_optional_instant_iff optional_instant_def split: option.splits)

lemma resolution_from_iff:
  "resolution_from status reason i offset = Inr r \<longleftrightarrow>
     status = status_of r \<and> reason = reason_of r \<and> i = instant_of r \<and> offset = effective_offset_seconds r"
  by (cases r) (auto simp: resolution_from_def split: resolution_status.splits option.splits if_splits)

lemma encode_resolution_eq:
  assumes "resolution_ok r"
  shows "encode_resolution r = Inr (VMap (named (resolution_entries r)))
    \<and> val_in 1 5 1000 (VMap (named (resolution_entries r)))"
proof -
  have parts: "val_in 0 1 84 (optional_instant (instant_of r))"
      "val_in 0 1 84 (optional_signed (effective_offset_seconds r))"
    using assms by (cases r; auto simp: optional_instant_def optional_signed_def intro!: val_in_intros)+
  have "encode_resolution r = map_value TResourceLimit (resolution_entries r)"
    by (simp add: encode_resolution_def time_text_eq time_map_def resolution_entries_def
        optional_signed_def optional_instant_def plain_names name_bounds)
  moreover have "map_value TResourceLimit (resolution_entries r)
        = Inr (VMap (named (resolution_entries r)))
      \<and> val_in (Suc 0) 5 1000 (VMap (named (resolution_entries r)))"
    by (rule record_encodes [where n = 1 and p = 84])
      (use resolution_keys parts in \<open>auto intro!: val_in_name plain_names
        simp: resolution_entries_def value_limits\<close>)
  ultimately show ?thesis by simp
qed

lemma decode_resolution_inv:
  assumes wf: "value_wf v" and dec: "decode_resolution v = Inr r"
  shows "resolution_ok r \<and> v = VMap (named (resolution_entries r))"
proof -
  obtain fs where v: "v = VMap fs"
    and offset: "case effective_offset_seconds r of None \<Rightarrow> True | Some i \<Rightarrow> - (2 ^ 31) \<le> i \<and> i < 2 ^ 31"
    and got: "bm_get fs (ascii ''effective_offset_seconds'') = Some (optional_signed (effective_offset_seconds r))"
      "bm_get fs (ascii ''instant'') = Some (optional_instant (instant_of r))"
      "bm_get fs (ascii ''reason'') = Some (VString (reason_name (reason_of r)))"
      "bm_get fs (ascii ''status'') = Some (VString (status_name (status_of r)))"
    and all: "only_fields fs [''effective_offset_seconds'', ''instant'', ''reason'', ''status'']"
    using dec
    by (auto simp: decode_resolution_def rbind_eq_Inr fields_new_iff [OF wf] field_take_iff
        take_text_iff take_optional_instant_opt take_optional_signed name_iffs taken_simps
        resolution_from_iff)
  have "fs = named (resolution_entries r) \<and> list_all value_wf (map snd (resolution_entries r))"
    using taken_named [of fs "resolution_entries r"] wf v got all resolution_keys
    by (auto simp: resolution_entries_def)
  with v offset show ?thesis
    by (cases r) (auto simp: resolution_entries_def optional_instant_def)
qed

interpretation resolution_codec:
  value_codec encode_resolution decode_resolution resolution_ok 1 5 1000
proof (rule value_codecI [where entries = resolution_entries])
  fix r
  assume ok: "resolution_ok r"
  then show "encode_resolution r = Inr (VMap (named (resolution_entries r)))
    \<and> val_in 1 5 1000 (VMap (named (resolution_entries r)))" by (rule encode_resolution_eq)
  have "case effective_offset_seconds r of None \<Rightarrow> True | Some i \<Rightarrow> - (2 ^ 31) \<le> i \<and> i < 2 ^ 31"
    using ok by (cases r) simp_all
  then have "take_optional_i32 TInvalidEnvelope (optional_signed (effective_offset_seconds r))
        = Inr (effective_offset_seconds r)"
      "take_optional_instant TInvalidEnvelope (optional_instant (instant_of r)) = Inr (instant_of r)"
      "resolution_from (status_of r) (reason_of r) (instant_of r) (effective_offset_seconds r) = Inr r"
    by (simp_all add: take_optional_signed take_optional_instant_opt resolution_from_iff)
  then show "decode_resolution (VMap (named (resolution_entries r))) = Inr r"
    using resolution_keys
    by (simp add: decode_resolution_def resolution_entries_def read_named)
qed (rule decode_resolution_inv)

subsection \<open>Precisions\<close>

fun precision_detail :: "source_precision \<Rightarrow> string \<times> val" where
  "precision_detail PrecisionUnknown = (''unknown'', VNull)"
| "precision_detail Date = (''date'', VNull)"
| "precision_detail Second = (''second'', VNull)"
| "precision_detail (FractionDigits digits) = (''fraction_digits'', VUnsigned (word_of_nat digits))"
| "precision_detail (EpochUnit unit) = (''epoch_unit'', VString (epoch_unit_name unit))"

fun precision_typed :: "source_precision \<Rightarrow> bool" where
  "precision_typed (FractionDigits digits) \<longleftrightarrow> digits \<le> 255"
| "precision_typed _ \<longleftrightarrow> True"

definition precision_entries :: "source_precision \<Rightarrow> (string \<times> val) list" where
  "precision_entries p =
     [(''detail'', snd (precision_detail p)), (''kind'', VString (ascii (fst (precision_detail p))))]"

lemma precision_keys: "plain_keys [''detail'', ''kind'']"
  by (simp add: plain_keys_def plain_key_def ascii_def)

lemma precision_kind: "name_ok (ascii (fst (precision_detail p)))"
  by (cases p) (simp_all add: name_ok_ascii plain_key_def)

lemma small_text: "plain_key s \<Longrightarrow> time_text (ascii s) = Inr (VString (ascii s))"
  by (intro time_text_eq name_bounds name_ok_ascii)

lemma encode_precision_eq:
  "encode_precision p = Inr (VMap (named (precision_entries p)))
    \<and> val_in 1 3 1000 (VMap (named (precision_entries p)))"
proof -
  have "encode_precision p = map_value TResourceLimit (precision_entries p)"
    by (cases p) (simp_all add: encode_precision_def time_text_eq time_map_def precision_entries_def
        plain_names name_bounds(2) small_text plain_key_def)
  moreover have "val_in 0 1 84 (snd (precision_detail p))"
    by (cases p) (auto intro!: val_in_intros val_in_name plain_names)
  then have "map_value TResourceLimit (precision_entries p)
        = Inr (VMap (named (precision_entries p)))
      \<and> val_in (Suc 0) 3 1000 (VMap (named (precision_entries p)))"
    by (intro record_encodes [where n = 1 and p = 84])
      (use precision_keys precision_kind in \<open>auto intro!: val_in_name simp: precision_entries_def value_limits\<close>)
  ultimately show ?thesis by simp
qed

lemma decode_precision_inv:
  assumes wf: "value_wf v" and dec: "decode_precision v = Inr p"
  shows "precision_typed p \<and> v = VMap (named (precision_entries p))"
proof -
  obtain fs detail kind where v: "v = VMap fs"
    and got: "bm_get fs (ascii ''detail'') = Some detail" "bm_get fs (ascii ''kind'') = Some (VString kind)"
    and all: "only_fields fs [''detail'', ''kind'']"
    and choice: "(case detail of
       VNull \<Rightarrow>
         if kind = ascii ''unknown'' then Inr PrecisionUnknown
         else if kind = ascii ''date'' then Inr Date
         else if kind = ascii ''second'' then Inr Second
         else Inl TInvalidEnvelope
     | VUnsigned digits \<Rightarrow>
         if kind = ascii ''fraction_digits'' \<and> unat digits \<le> 255 then Inr (FractionDigits (unat digits))
         else Inl TInvalidEnvelope
     | VString unit \<Rightarrow>
         if kind = ascii ''epoch_unit'' then
           rbind (decode_epoch_unit unit) (\<lambda>unit. Inr (EpochUnit unit))
         else Inl TInvalidEnvelope
     | _ \<Rightarrow> Inl TInvalidEnvelope) = Inr p"
    using dec
    unfolding decode_precision_def
    by (auto simp: rbind_eq_Inr fields_new_iff [OF wf] field_take_iff take_text_iff taken_simps)
  have p: "precision_typed p" "detail = snd (precision_detail p)" "kind = ascii (fst (precision_detail p))"
    using choice by (cases detail; auto simp: rbind_eq_Inr name_iffs split: if_splits)+
  have "fs = named (precision_entries p)"
    using taken_named [of fs "precision_entries p"] wf v got all precision_keys
    by (auto simp: precision_entries_def p)
  with v p(1) show ?thesis by simp
qed

interpretation precision_codec:
  value_codec encode_precision decode_precision precision_typed 1 3 1000
proof (rule value_codecI [where entries = precision_entries])
  fix p
  assume ok: "precision_typed p"
  show "encode_precision p = Inr (VMap (named (precision_entries p)))
    \<and> val_in 1 3 1000 (VMap (named (precision_entries p)))" by (rule encode_precision_eq)
  have "unat (word_of_nat digits :: u128) = digits" if "digits \<le> 255" for digits
    using that by (intro unat_word_of_nat_u128) (simp add: usize_max_def)
  then show "decode_precision (VMap (named (precision_entries p))) = Inr p"
    using ok precision_keys
    by (cases p) (simp_all add: decode_precision_def precision_entries_def read_named)
qed (rule decode_precision_inv)

subsection \<open>Clock uncertainty\<close>

fun uncertainty_typed :: "clock_uncertainty \<Rightarrow> bool" where
  "uncertainty_typed (BoundedNanoseconds before after) \<longleftrightarrow> before \<le> usize_max \<and> after \<le> usize_max"
| "uncertainty_typed _ \<longleftrightarrow> True"

fun uncertainty_entries :: "clock_uncertainty \<Rightarrow> (string \<times> val) list" where
  "uncertainty_entries UncertaintyUnknown =
     [(''after'', VNull), (''before'', VNull), (''kind'', VString (ascii ''unknown''))]"
| "uncertainty_entries (BoundedNanoseconds before after) =
     [(''after'', VUnsigned (word_of_nat after)), (''before'', VUnsigned (word_of_nat before)),
      (''kind'', VString (ascii ''bounded_nanoseconds''))]"

lemma uncertainty_keys: "plain_keys [''after'', ''before'', ''kind'']"
  by (simp add: plain_keys_def plain_key_def ascii_def)

lemma encode_uncertainty_eq:
  "encode_clock_uncertainty u = Inr (VMap (named (uncertainty_entries u)))
    \<and> val_in 1 4 1000 (VMap (named (uncertainty_entries u)))"
proof -
  have "encode_clock_uncertainty u = map_value TResourceLimit (uncertainty_entries u)"
    by (cases u) (simp_all add: encode_clock_uncertainty_def small_text plain_key_def time_map_def)
  moreover have "map_value TResourceLimit (uncertainty_entries u)
        = Inr (VMap (named (uncertainty_entries u)))
      \<and> val_in (Suc 0) 4 1000 (VMap (named (uncertainty_entries u)))"
    by (rule record_encodes [where n = 1 and p = 84]; cases u)
      (use uncertainty_keys in \<open>auto intro!: val_in_intros val_in_name name_ok_ascii
         simp: value_limits plain_key_def\<close>)
  ultimately show ?thesis by simp
qed

lemma decode_uncertainty_inv:
  assumes wf: "value_wf v" and dec: "decode_clock_uncertainty v = Inr u"
  shows "uncertainty_typed u \<and> v = VMap (named (uncertainty_entries u))"
proof -
  obtain fs after before kind where v: "v = VMap fs"
    and got: "bm_get fs (ascii ''after'') = Some after" "bm_get fs (ascii ''before'') = Some before"
      "bm_get fs (ascii ''kind'') = Some (VString kind)"
    and all: "only_fields fs [''after'', ''before'', ''kind'']"
    and choice: "(case (before, after) of
       (VNull, VNull) \<Rightarrow>
         if kind = ascii ''unknown'' then Inr UncertaintyUnknown else Inl TInvalidEnvelope
     | (VUnsigned before, VUnsigned after) \<Rightarrow>
         if kind = ascii ''bounded_nanoseconds'' then
           rbind (take_u64 TInvalidEnvelope (VUnsigned before)) (\<lambda>before.
           rbind (take_u64 TInvalidEnvelope (VUnsigned after)) (\<lambda>after.
           Inr (BoundedNanoseconds before after)))
         else Inl TInvalidEnvelope
     | _ \<Rightarrow> Inl TInvalidEnvelope) = Inr u"
    using dec unfolding decode_clock_uncertainty_def
    by (auto simp: rbind_eq_Inr fields_new_iff [OF wf] field_take_iff take_text_iff taken_simps)
  have u: "uncertainty_typed u"
      "uncertainty_entries u = [(''after'', after), (''before'', before), (''kind'', VString kind)]"
    using choice
    by (cases before; cases after; auto simp: rbind_eq_Inr take_u64_iff split: if_splits)+
  have "fs = named (uncertainty_entries u)"
    using taken_named [of fs "uncertainty_entries u"] wf v got all uncertainty_keys
    by (auto simp: u)
  with v u(1) show ?thesis by simp
qed

interpretation uncertainty_codec:
  value_codec encode_clock_uncertainty decode_clock_uncertainty uncertainty_typed 1 4 1000
proof (rule value_codecI [where entries = uncertainty_entries])
  fix u
  assume ok: "uncertainty_typed u"
  show "encode_clock_uncertainty u = Inr (VMap (named (uncertainty_entries u)))
    \<and> val_in 1 4 1000 (VMap (named (uncertainty_entries u)))" by (rule encode_uncertainty_eq)
  show "decode_clock_uncertainty (VMap (named (uncertainty_entries u))) = Inr u"
    using ok uncertainty_keys
    by (cases u) (simp_all add: decode_clock_uncertainty_def read_named)
qed (rule decode_uncertainty_inv)

subsection \<open>Assumptions\<close>

definition assumption_ok :: "authorized_assumption \<Rightarrow> bool" where
  "assumption_ok a \<longleftrightarrow> record_ref_ok (aa_authority a) \<and> utf8_valid (aa_statement a)
     \<and> length (aa_statement a) \<le> MAX_ASSUMPTION_BYTES"

definition assumption_entries :: "authorized_assumption \<Rightarrow> (string \<times> val) list" where
  "assumption_entries a =
     [(''authority'', VRecordRef (aa_authority a)), (''statement'', VString (aa_statement a))]"

lemma assumption_keys: "plain_keys [''authority'', ''statement'']"
  by (simp add: plain_keys_def plain_key_def ascii_def)

lemma authorized_assumption_new_iff:
  "authorized_assumption_new s r = Inr a \<longleftrightarrow>
     a = \<lparr>aa_statement = s, aa_authority = r\<rparr> \<and> length s \<le> MAX_ASSUMPTION_BYTES"
  by (auto simp: authorized_assumption_new_def rbind_iffs field_iffs time_limits value_limits)

lemma encode_assumption_eq:
  assumes "assumption_ok a"
  shows "encode_assumption a = Inr (VMap (named (assumption_entries a)))
    \<and> val_in 1 3 2300 (VMap (named (assumption_entries a)))"
proof -
  have "encode_assumption a = map_value TResourceLimit (assumption_entries a)"
    using assms
    by (simp add: encode_assumption_def time_text_eq time_map_def assumption_entries_def
        assumption_ok_def time_limits value_limits)
  moreover have "map_value TResourceLimit (assumption_entries a)
        = Inr (VMap (named (assumption_entries a)))
      \<and> val_in (Suc 0) 3 2300 (VMap (named (assumption_entries a)))"
    by (rule record_encodes [where n = 1 and p = 1044])
      (use assms assumption_keys in \<open>auto intro!: val_in_intros val_in_string
        simp: assumption_entries_def assumption_ok_def string_ok_def time_limits value_limits\<close>)
  ultimately show ?thesis by simp
qed

lemma decode_assumption_inv:
  assumes wf: "value_wf v" and dec: "decode_assumption v = Inr a"
  shows "assumption_ok a \<and> v = VMap (named (assumption_entries a))"
proof -
  obtain fs where v: "v = VMap fs" and len: "length (aa_statement a) \<le> MAX_ASSUMPTION_BYTES"
    and got: "bm_get fs (ascii ''authority'') = Some (VRecordRef (aa_authority a))"
      "bm_get fs (ascii ''statement'') = Some (VString (aa_statement a))"
    and all: "only_fields fs [''authority'', ''statement'']"
    using dec
    by (auto simp: decode_assumption_def rbind_eq_Inr fields_new_iff [OF wf] field_iffs taken_simps
        authorized_assumption_new_iff)
  have "fs = named (assumption_entries a) \<and> list_all value_wf (map snd (assumption_entries a))"
    using taken_named [of fs "assumption_entries a"] wf v got all assumption_keys
    by (auto simp: assumption_entries_def)
  with v len show ?thesis
    by (auto simp: assumption_ok_def assumption_entries_def string_ok_def)
qed

interpretation assumption_codec:
  value_codec encode_assumption decode_assumption assumption_ok 1 3 2300
proof (rule value_codecI [where entries = assumption_entries])
  fix a
  assume ok: "assumption_ok a"
  then show "encode_assumption a = Inr (VMap (named (assumption_entries a)))
    \<and> val_in 1 3 2300 (VMap (named (assumption_entries a)))" by (rule encode_assumption_eq)
  show "decode_assumption (VMap (named (assumption_entries a))) = Inr a"
    using ok assumption_keys
    by (simp add: decode_assumption_def assumption_entries_def read_named
        authorized_assumption_new_iff assumption_ok_def)
qed (rule decode_assumption_inv)

definition assumptions_ok :: "authorized_assumption list \<Rightarrow> bool" where
  "assumptions_ok xs \<longleftrightarrow> length xs \<le> MAX_ASSUMPTIONS \<and> list_all assumption_ok xs"

lemma encode_assumptions_fits:
  assumes "length xs \<le> MAX_ASSUMPTIONS"
    and "list_all2 (\<lambda>x v. assumption_ok x \<and> encode_assumption x = Inr v) xs vs"
  shows "encode_assumptions xs = Inr (VList vs) \<and> val_in 2 49 40000 (VList vs)"
proof -
  have len: "length vs \<le> 16" "length vs \<le> MAX_COLLECTION_ENTRIES"
    using assms by (auto simp: time_limits value_limits dest: list_all2_lengthD)
  have "val_in 1 3 2300 v" if "v \<in> set vs" for v
    using that assms(2) assumption_codec.enc_bounds by (auto simp: in_set_conv_nth list_all2_conv_all_nth)
  then have fits: "val_in 2 49 40000 (VList vs)"
    unfolding numeral_2_eq_2 One_nat_def using len by (intro val_in_list) auto
  moreover have "collect_map encode_assumption xs = Inr vs"
    using assms(2) by (auto simp: collect_map_iff elim: list_all2_mono)
  moreover have "list_new vs = Inr (VList vs)"
    using fits len(2) by (auto simp: value_ok_list_iff val_in_def value_limits)
  ultimately show ?thesis by (simp add: encode_assumptions_def)
qed

interpretation assumptions_codec:
  value_codec encode_assumptions decode_assumptions assumptions_ok 2 49 40000
proof
  have enc: "\<exists>vs. list_all2 (\<lambda>x v. assumption_ok x \<and> encode_assumption x = Inr v) xs vs"
    if "list_all assumption_ok xs" for xs
    using that
  proof (induction xs)
    case (Cons x xs)
    then show ?case using assumption_codec.enc_in [of x] by (auto simp: list_all2_Cons1)
  qed auto
  show "\<exists>v. encode_assumptions xs = Inr v \<and> val_in 2 49 40000 v" if "assumptions_ok xs" for xs
    using that enc [of xs] encode_assumptions_fits [of xs] by (auto simp: assumptions_ok_def)
  show "decode_assumptions v = Inr xs \<longleftrightarrow> assumptions_ok xs \<and> encode_assumptions xs = Inr v"
    if wf: "value_wf v" for v xs
  proof
    assume dec: "decode_assumptions v = Inr xs"
    then obtain vs where v: "v = VList vs" "length vs \<le> MAX_ASSUMPTIONS"
        "list_all2 (\<lambda>v x. decode_assumption v = Inr x) vs xs"
      by (auto simp: decode_assumptions_def collect_map_iff split: val.splits if_splits)
    then have "list_all2 (\<lambda>x v. assumption_ok x \<and> encode_assumption x = Inr v) xs vs"
      using wf assumption_codec.dec_iff by (simp add: list_all2_conv_all_nth)
    moreover have "list_all assumption_ok xs"
      using calculation by (auto simp: list_all2_conv_all_nth list_all_length)
    ultimately show "assumptions_ok xs \<and> encode_assumptions xs = Inr v"
      using encode_assumptions_fits [of xs vs] v
      by (auto simp: assumptions_ok_def dest: list_all2_lengthD)
  next
    assume enc': "assumptions_ok xs \<and> encode_assumptions xs = Inr v"
    then obtain vs where vs: "list_all2 (\<lambda>x v. assumption_ok x \<and> encode_assumption x = Inr v) xs vs"
      using enc [of xs] by (auto simp: assumptions_ok_def)
    then have "v = VList vs"
      using enc' encode_assumptions_fits [of xs vs] by (simp add: assumptions_ok_def)
    moreover have "list_all2 (\<lambda>v x. decode_assumption v = Inr x) vs xs"
      using vs assumption_codec.dec_enc by (auto simp: list_all2_conv_all_nth)
    ultimately show "decode_assumptions v = Inr xs"
      using enc' by (auto simp: decode_assumptions_def collect_map_iff assumptions_ok_def
          dest: list_all2_lengthD)
  qed
qed

subsection \<open>Zone profiles\<close>

definition timezone_ok :: "timezone_profile option \<Rightarrow> bool" where
  "timezone_ok tz \<longleftrightarrow> tz = None \<or> tz = Some PINNED"

definition pinned_entries :: "(string \<times> val) list" where
  "pinned_entries = [(''digest'', VBytes TZDB_PROFILE_DIGEST), (''version'', VString TZDB_VERSION)]"

lemma timezone_keys: "plain_keys [''digest'', ''version'']"
  by (simp add: plain_keys_def plain_key_def ascii_def)

lemma encode_pinned:
  "encode_timezone (Some PINNED) = Inr (VMap (named pinned_entries))
     \<and> val_in 1 3 1000 (VMap (named pinned_entries))"
proof -
  have "encode_timezone (Some PINNED) = map_value TResourceLimit pinned_entries"
    by (simp add: encode_timezone_def PINNED_def bytes_new_def check_inline_length_def small_text
        plain_key_def TZDB_VERSION_def TZDB_PROFILE_DIGEST_def time_map_def pinned_entries_def
        value_limits)
  moreover have "map_value TResourceLimit pinned_entries = Inr (VMap (named pinned_entries))
      \<and> val_in (Suc 0) 3 1000 (VMap (named pinned_entries))"
    by (rule record_encodes [where n = 1 and p = 84])
      (use timezone_keys in \<open>auto intro!: val_in_intros val_in_name name_ok_ascii
        simp: pinned_entries_def TZDB_VERSION_def TZDB_PROFILE_DIGEST_def plain_key_def value_limits\<close>)
  ultimately show ?thesis by simp
qed

lemma decode_pinned: "decode_timezone (VMap (named pinned_entries)) = Inr (Some PINNED)"
  using timezone_keys by (simp add: decode_timezone_def pinned_entries_def read_named)

lemma decode_timezone_inv:
  assumes wf: "value_wf v" and "decode_timezone v = Inr tz"
  shows "tz = None \<and> v = VNull \<or> tz = Some PINNED \<and> v = VMap (named pinned_entries)"
proof (cases "v = VNull")
  case False
  then obtain fs where v: "v = VMap fs" "tz = Some PINNED"
    and got: "bm_get fs (ascii ''digest'') = Some (VBytes TZDB_PROFILE_DIGEST)"
      "bm_get fs (ascii ''version'') = Some (VString TZDB_VERSION)"
    and all: "only_fields fs [''digest'', ''version'']"
    using assms(2)
    by (auto simp: decode_timezone_def rbind_eq_Inr fields_new_iff [OF wf] field_iffs taken_simps
        split: if_splits)
  then have "fs = named pinned_entries"
    using taken_named [of fs pinned_entries] wf timezone_keys by (auto simp: pinned_entries_def)
  with v show ?thesis by simp
qed (use assms(2) in \<open>simp add: decode_timezone_def\<close>)

interpretation timezone_codec: value_codec encode_timezone decode_timezone timezone_ok 1 3 1000
proof
  show "\<exists>v. encode_timezone tz = Inr v \<and> val_in 1 3 1000 v" if "timezone_ok tz" for tz
    using that encode_pinned val_in_null [of 3 1000 1] by (auto simp: timezone_ok_def encode_timezone_def)
  show "decode_timezone v = Inr tz \<longleftrightarrow> timezone_ok tz \<and> encode_timezone tz = Inr v"
    if "value_wf v" for v tz
  proof
    assume "decode_timezone v = Inr tz"
    with that have "tz = None \<and> v = VNull \<or> tz = Some PINNED \<and> v = VMap (named pinned_entries)"
      by (rule decode_timezone_inv)
    then show "timezone_ok tz \<and> encode_timezone tz = Inr v"
      using encode_pinned by (auto simp: timezone_ok_def encode_timezone_def)
  next
    assume "timezone_ok tz \<and> encode_timezone tz = Inr v"
    then have "tz = None \<and> v = VNull \<or> tz = Some PINNED \<and> v = VMap (named pinned_entries)"
      using encode_pinned by (auto simp: timezone_ok_def encode_timezone_def)
    then show "decode_timezone v = Inr tz"
      using decode_pinned by (auto simp: decode_timezone_def)
  qed
qed

end
