(* ===== verification/Time_Normalize.thy ===== *)
theory Time_Normalize
  imports Time_Model
begin

text \<open>
  Normalization of \<open>uste-time/src/normalize.rs\<close>: parsing of timestamps, resolution of named zones
  and numeric epochs, and presentation.  The civil date-time constructor, the time zone
  database and the resolution of a local time in a zone belong to the \<open>jiff\<close> and \<open>jiff_tzdb\<close>
  crates; they are the fields of the argument \<open>J\<close>.  \<open>H\<close> is the hash function.
\<close>

section \<open>What the crate uses of jiff\<close>

record datetime =
  dt_year :: int
  dt_month :: int
  dt_day :: int
  dt_hour :: int
  dt_minute :: int
  dt_second :: int
  dt_nanosecond :: int

datatype ambiguous_offset = Unambiguous int | Gap int int | Fold int int

record 'z jiff =
  datetime_new :: "int \<Rightarrow> int \<Rightarrow> int \<Rightarrow> int \<Rightarrow> int \<Rightarrow> int \<Rightarrow> int \<Rightarrow> datetime option"
  tzdb_version :: "bytes option"
  tzdb_available :: "bytes list"
  tzdb_get :: "bytes \<Rightarrow> (bytes \<times> bytes) option"
  tzif :: "bytes \<Rightarrow> bytes \<Rightarrow> 'z option"
  to_ambiguous :: "'z \<Rightarrow> datetime \<Rightarrow> ambiguous_offset"

text \<open>
  The documentation of \<open>jiff::civil::DateTime::new\<close>: it accepts exactly the valid civil dates and
  times of the years \<open>-9999\<close> to \<open>9999\<close> and keeps the components.  The documentation of
  \<open>jiff::tz::Offset\<close>: an offset is at most 25 hours, 59 minutes and 59 seconds.
\<close>

definition datetime_ok :: "datetime \<Rightarrow> bool" where
  "datetime_ok d \<longleftrightarrow>
     - 9999 \<le> dt_year d \<and> dt_year d \<le> 9999
     \<and> valid_date (dt_year d) (dt_month d) (dt_day d)
     \<and> valid_time (dt_hour d) (dt_minute d) (dt_second d)
     \<and> 0 \<le> dt_nanosecond d \<and> dt_nanosecond d \<le> 999999999"

definition jiff_datetime :: "'z jiff \<Rightarrow> bool" where
  "jiff_datetime J \<longleftrightarrow>
     (\<forall>y mo d h mi s n.
        datetime_new J y mo d h mi s n =
          (let dt = \<lparr>dt_year = y, dt_month = mo, dt_day = d, dt_hour = h, dt_minute = mi,
                     dt_second = s, dt_nanosecond = n\<rparr>
           in if datetime_ok dt then Some dt else None))"

fun ambiguous_offsets :: "ambiguous_offset \<Rightarrow> int set" where
  "ambiguous_offsets (Unambiguous a) = {a}"
| "ambiguous_offsets (Gap a b) = {a, b}"
| "ambiguous_offsets (Fold a b) = {a, b}"

definition jiff_offsets :: "'z jiff \<Rightarrow> bool" where
  "jiff_offsets J \<longleftrightarrow>
     (\<forall>z dt. \<forall>a \<in> ambiguous_offsets (to_ambiguous J z dt). - 93599 \<le> a \<and> a \<le> 93599)"

section \<open>Machine integers\<close>

definition checked_i64 :: "int \<Rightarrow> int option" where
  "checked_i64 a = (if - (2 ^ 63) \<le> a \<and> a < 2 ^ 63 then Some a else None)"

definition checked_i128 :: "int \<Rightarrow> int option" where
  "checked_i128 a = (if - (2 ^ 127) \<le> a \<and> a < 2 ^ 127 then Some a else None)"

definition checked_u32 :: "nat \<Rightarrow> nat option" where
  "checked_u32 n = (if n < 2 ^ 32 then Some n else None)"

definition try_u32 :: "int \<Rightarrow> nat option" where
  "try_u32 a = (if 0 \<le> a \<and> a < 2 ^ 32 then Some (nat a) else None)"

definition try_i16 :: "int \<Rightarrow> int option" where
  "try_i16 a = (if - (2 ^ 15) \<le> a \<and> a < 2 ^ 15 then Some a else None)"

definition try_i8 :: "int \<Rightarrow> int option" where
  "try_i8 a = (if - (2 ^ 7) \<le> a \<and> a < 2 ^ 7 then Some a else None)"

definition try_i32 :: "int \<Rightarrow> int option" where
  "try_i32 a = (if - (2 ^ 31) \<le> a \<and> a < 2 ^ 31 then Some a else None)"

section \<open>Instants\<close>

definition numeric_instant :: "int \<Rightarrow> epoch_unit \<Rightarrow> utc_instant option" where
  "numeric_instant v unit =
     (let (divisor, nanos_per_remainder) =
        (case unit of
           Seconds \<Rightarrow> (1, 0)
         | Milliseconds \<Rightarrow> (1000, 1000000)
         | Microseconds \<Rightarrow> (1000000, 1000)
         | Nanoseconds \<Rightarrow> (1000000000, 1));
        seconds = v div divisor in
      Option.bind (if divisor = 1 then Some 0 else checked_i128 (v mod divisor * nanos_per_remainder))
        (\<lambda>nanos.
      Option.bind (checked_i64 seconds) (\<lambda>seconds.
      Option.bind (try_u32 nanos) (\<lambda>nanos.
      instant_new seconds nanos))))"

definition instant_from_datetime_offset :: "datetime \<Rightarrow> int \<Rightarrow> utc_instant option" where
  "instant_from_datetime_offset dt offset_seconds =
     (let days = days_from_civil (dt_year dt) (dt_month dt) (dt_day dt) in
      Option.bind (checked_i64 (days * 86400)) (\<lambda>s.
      Option.bind (checked_i64 (s + dt_hour dt * 3600)) (\<lambda>s.
      Option.bind (checked_i64 (s + dt_minute dt * 60)) (\<lambda>s.
      Option.bind (checked_i64 (s + dt_second dt)) (\<lambda>s.
      Option.bind (checked_i64 (s - offset_seconds)) (\<lambda>seconds.
      Option.bind (try_u32 (dt_nanosecond dt)) (\<lambda>nanos.
      instant_new seconds nanos)))))))"

definition datetime_from_epoch :: "'z jiff \<Rightarrow> int \<Rightarrow> nat \<Rightarrow> datetime option" where
  "datetime_from_epoch J seconds nanoseconds =
     (case civil_from_epoch seconds of (year, month, day, hour, minute, second) \<Rightarrow>
      Option.bind (try_i16 year) (\<lambda>year.
      Option.bind (try_i8 month) (\<lambda>month.
      Option.bind (try_i8 day) (\<lambda>day.
      Option.bind (try_i8 hour) (\<lambda>hour.
      Option.bind (try_i8 minute) (\<lambda>minute.
      Option.bind (try_i8 second) (\<lambda>second.
      Option.bind (try_i32 (int nanoseconds)) (\<lambda>nanos.
      datetime_new J year month day hour minute second nanos))))))))"

section \<open>Parsing\<close>

definition is_digit :: "u8 \<Rightarrow> bool" where
  "is_digit b \<longleftrightarrow> 48 \<le> b \<and> b \<le> 57"

definition is_ascii :: "bytes \<Rightarrow> bool" where
  "is_ascii bs \<longleftrightarrow> (\<forall>b \<in> set bs. b < 128)"

fun digits_from :: "nat \<Rightarrow> bytes \<Rightarrow> nat option" where
  "digits_from n [] = Some n"
| "digits_from n (b # bs) =
     (if \<not> is_digit b then None
      else
        Option.bind (checked_u32 (n * 10)) (\<lambda>n.
        Option.bind (checked_u32 (n + unat (b - 48))) (\<lambda>n.
        digits_from n bs)))"

definition digits :: "bytes \<Rightarrow> nat \<Rightarrow> nat \<Rightarrow> nat option" where
  "digits bs start count =
     Option.bind (checked_add start count) (\<lambda>end_pos.
     if end_pos \<le> length bs then digits_from 0 (take count (drop start bs)) else None)"

definition valid_date_only :: "'z jiff \<Rightarrow> bytes \<Rightarrow> bool" where
  "valid_date_only J bs =
     (if \<not> is_ascii bs \<or> length bs \<noteq> 10 \<or> bs ! 4 \<noteq> 45 \<or> bs ! 7 \<noteq> 45 then False
      else
        (case Option.bind (digits bs 0 4) (\<lambda>v. try_i16 (int v)) of
           None \<Rightarrow> False
         | Some year \<Rightarrow>
             if year < 1 then False
             else
               (case Option.bind (digits bs 5 2) (\<lambda>v. try_i8 (int v)) of
                  None \<Rightarrow> False
                | Some month \<Rightarrow>
                    (case Option.bind (digits bs 8 2) (\<lambda>v. try_i8 (int v)) of
                       None \<Rightarrow> False
                     | Some day \<Rightarrow> datetime_new J year month day 0 0 0 0 \<noteq> None))))"

record parsed_datetime =
  pd_datetime :: datetime
  pd_offset :: "int option"
  pd_precision :: source_precision

record parse_failure =
  pf_resolution :: resolution
  pf_precision :: source_precision
  pf_offset :: "int option"

definition pf_invalid :: parse_failure where
  "pf_invalid =
     \<lparr>pf_resolution = Invalid InvalidSyntax, pf_precision = PrecisionUnknown, pf_offset = None\<rparr>"

text \<open>The fraction after the seconds: the cursor behind it, the nanoseconds and the precision.\<close>

definition parse_fraction :: "bytes \<Rightarrow> parse_failure + nat \<times> nat \<times> source_precision" where
  "parse_fraction bs =
     (if 19 < length bs \<and> bs ! 19 = 46 then
        let count = length (takeWhile is_digit (drop 20 bs)) in
        if count = 0 \<or> count > 9 then Inl pf_invalid
        else
          rbind (ok_or (digits bs 20 count) pf_invalid) (\<lambda>fraction.
          rbind (ok_or (checked_u32 (fraction * 10 ^ (9 - count))) pf_invalid) (\<lambda>nanos.
          Inr (20 + count, nanos, FractionDigits count)))
      else Inr (19, 0, Second))"

text \<open>The zone suffix of RFC 3339: the offset, if known, and whether it is \<open>-00:00\<close>.\<close>

definition parse_offset :: "bytes \<Rightarrow> parse_failure + int option \<times> bool" where
  "parse_offset suffix =
     (if suffix = [90] then Inr (Some 0, False)
      else if length suffix = 6 \<and> (suffix ! 0 = 43 \<or> suffix ! 0 = 45) \<and> suffix ! 3 = 58 then
        rbind (ok_or (digits suffix 1 2) pf_invalid) (\<lambda>hours.
        rbind (ok_or (digits suffix 4 2) pf_invalid) (\<lambda>minutes.
        if hours > 23 \<or> minutes > 59 then Inl pf_invalid
        else if suffix = [45, 48, 48, 58, 48, 48] then Inr (None, True)
        else
          rbind (ok_or (try_i32 (int (hours * 3600 + minutes * 60))) pf_invalid) (\<lambda>seconds.
          Inr (Some (if suffix ! 0 = 45 then - seconds else seconds), False))))
      else Inl pf_invalid)"

definition parse_datetime :: "'z jiff \<Rightarrow> bytes \<Rightarrow> bool \<Rightarrow> parse_failure + parsed_datetime" where
  "parse_datetime J bs require_offset =
     (if \<not> is_ascii bs \<or> length bs < 19 \<or> bs ! 4 \<noteq> 45 \<or> bs ! 7 \<noteq> 45 \<or> bs ! 10 \<noteq> 84
         \<or> bs ! 13 \<noteq> 58 \<or> bs ! 16 \<noteq> 58
      then Inl pf_invalid
      else
        rbind (ok_or (digits bs 0 4) pf_invalid) (\<lambda>year.
        rbind (ok_or (digits bs 5 2) pf_invalid) (\<lambda>month.
        rbind (ok_or (digits bs 8 2) pf_invalid) (\<lambda>day.
        rbind (ok_or (digits bs 11 2) pf_invalid) (\<lambda>hour.
        rbind (ok_or (digits bs 14 2) pf_invalid) (\<lambda>minute.
        rbind (ok_or (digits bs 17 2) pf_invalid) (\<lambda>second.
        if year = 0 then Inl pf_invalid
        else
          let leap_second = (second = 60) in
          rbind (parse_fraction bs) (\<lambda>(cursor, nanos, precision).
          rbind
            (if require_offset then parse_offset (drop cursor bs)
             else if cursor = length bs then Inr (None, False)
             else Inl pf_invalid) (\<lambda>(offset, unknown_offset).
          rbind (ok_or (try_i16 (int year)) pf_invalid) (\<lambda>year.
          rbind (ok_or (try_i8 (int month)) pf_invalid) (\<lambda>month.
          rbind (ok_or (try_i8 (int day)) pf_invalid) (\<lambda>day.
          rbind (ok_or (try_i8 (int hour)) pf_invalid) (\<lambda>hour.
          rbind (ok_or (try_i8 (int minute)) pf_invalid) (\<lambda>minute.
          rbind (ok_or (try_i8 (if leap_second then 59 else int second)) pf_invalid) (\<lambda>second.
          rbind (ok_or (try_i32 (int nanos)) pf_invalid) (\<lambda>nanos.
          rbind (ok_or (datetime_new J year month day hour minute second nanos) pf_invalid) (\<lambda>dt.
          if leap_second then
            Inl \<lparr>pf_resolution = Unsupported LeapSecond, pf_precision = precision, pf_offset = offset\<rparr>
          else if unknown_offset then
            Inl \<lparr>pf_resolution = Ambiguous UnknownOffset, pf_precision = precision, pf_offset = None\<rparr>
          else
            Inr \<lparr>pd_datetime = dt, pd_offset = offset, pd_precision = precision\<rparr>)))))))))))))))))"

section \<open>Zones\<close>

definition resolve_named_zone ::
  "'z jiff \<Rightarrow> datetime \<Rightarrow> bytes \<Rightarrow> int option \<Rightarrow> fold_choice option \<Rightarrow> resolution" where
  "resolve_named_zone J dt zone supplied_offset choice =
     (case tzdb_get J zone of
        None \<Rightarrow> Invalid UnknownZone
      | Some (canonical, bytes) \<Rightarrow>
          (case tzif J canonical bytes of
             None \<Rightarrow> Invalid UnknownZone
           | Some timezone \<Rightarrow>
               (case
                  (case to_ambiguous J timezone dt of
                     Gap _ _ \<Rightarrow> Inl (Invalid NonexistentLocalTime)
                   | Fold before after \<Rightarrow>
                       (case choice of
                          None \<Rightarrow> Inl (Ambiguous FoldChoiceRequired)
                        | Some Earlier \<Rightarrow> Inr before
                        | Some Later \<Rightarrow> Inr after)
                   | Unambiguous offset \<Rightarrow>
                       if choice \<noteq> None then Inl (Invalid UnnecessaryFoldChoice) else Inr offset)
                of
                  Inl r \<Rightarrow> r
                | Inr effective_offset \<Rightarrow>
                    if (case supplied_offset of None \<Rightarrow> False | Some offset \<Rightarrow> offset \<noteq> effective_offset)
                    then Invalid OffsetZoneConflict
                    else
                      (case instant_from_datetime_offset dt effective_offset of
                         Some instant \<Rightarrow> Resolved instant effective_offset
                       | None \<Rightarrow> Invalid OutOfRange))))"

fun offsets :: "ambiguous_offset \<Rightarrow> int list" where
  "offsets (Unambiguous offset) = [offset]"
| "offsets (Gap before after) = (if before = after then [before] else [before, after])"
| "offsets (Fold before after) = (if before = after then [before] else [before, after])"

datatype search = Found datetime int | Failed | Next "int list"

fun try_offsets :: "utc_instant \<Rightarrow> datetime \<Rightarrow> int list \<Rightarrow> int list \<Rightarrow> search" where
  "try_offsets instant local [] next_offsets = Next next_offsets"
| "try_offsets instant local (actual # rest) next_offsets =
     (if instant_from_datetime_offset local actual = Some instant then Found local actual
      else
        try_offsets instant local rest
          (if actual \<in> set next_offsets then next_offsets else next_offsets @ [actual]))"

fun try_candidates :: "'z jiff \<Rightarrow> 'z \<Rightarrow> utc_instant \<Rightarrow> int list \<Rightarrow> int list \<Rightarrow> search" where
  "try_candidates J timezone instant [] next_offsets = Next next_offsets"
| "try_candidates J timezone instant (candidate # rest) next_offsets =
     (case checked_i64 (instant_seconds instant + candidate) of
        None \<Rightarrow> Failed
      | Some local_seconds \<Rightarrow>
          (case datetime_from_epoch J local_seconds (instant_nanoseconds instant) of
             None \<Rightarrow> try_candidates J timezone instant rest next_offsets
           | Some local \<Rightarrow>
               (case try_offsets instant local (offsets (to_ambiguous J timezone local)) next_offsets of
                  Next next_offsets \<Rightarrow> try_candidates J timezone instant rest next_offsets
                | r \<Rightarrow> r)))"

fun search_rounds :: "nat \<Rightarrow> 'z jiff \<Rightarrow> 'z \<Rightarrow> utc_instant \<Rightarrow> int list \<Rightarrow> (datetime \<times> int) option" where
  "search_rounds 0 J timezone instant candidates = None"
| "search_rounds (Suc n) J timezone instant candidates =
     (case try_candidates J timezone instant candidates [] of
        Found local actual \<Rightarrow> Some (local, actual)
      | Failed \<Rightarrow> None
      | Next next_offsets \<Rightarrow>
          if next_offsets = [] then None else search_rounds n J timezone instant next_offsets)"

definition local_datetime_for_instant :: "'z jiff \<Rightarrow> 'z \<Rightarrow> utc_instant \<Rightarrow> (datetime \<times> int) option" where
  "local_datetime_for_instant J timezone instant =
     Option.bind (datetime_from_epoch J (instant_seconds instant) (instant_nanoseconds instant)) (\<lambda>utc.
     search_rounds 4 J timezone instant (offsets (to_ambiguous J timezone utc)))"


section \<open>Normalization\<close>

definition mk_interpretation ::
  "time_scale \<Rightarrow> epoch_unit option \<Rightarrow> int option \<Rightarrow> bytes option \<Rightarrow> fold_choice option \<Rightarrow>
   time_interpretation" where
  "mk_interpretation scale unit offset zone choice =
     \<lparr>ti_scale = scale, ti_epoch_unit = unit, ti_supplied_offset = offset, ti_zone = zone,
      ti_fold = choice\<rparr>"

definition preflight_original :: "bytes \<Rightarrow> time_error + unit" where
  "preflight_original v =
     ensure (length v \<le> MAX_ORIGINAL_BYTES) (TFieldTooLarge ''original'' (length v) MAX_ORIGINAL_BYTES)"

definition resolution_at :: "datetime \<Rightarrow> int \<Rightarrow> resolution" where
  "resolution_at dt offset =
     (case instant_from_datetime_offset dt offset of
        Some instant \<Rightarrow> Resolved instant offset
      | None \<Rightarrow> Invalid OutOfRange)"

definition normalize_rfc3339 ::
  "'z jiff \<Rightarrow> source_descriptor \<Rightarrow> timestamp_role \<Rightarrow> bytes \<Rightarrow> clock_uncertainty \<Rightarrow>
   authorized_assumption list \<Rightarrow> time_error + timestamp_envelope" where
  "normalize_rfc3339 J source role original uncertainty assumptions =
     (case parse_datetime J original True of
        Inl failure \<Rightarrow>
          envelope_checked source role original
            (mk_interpretation PosixUtc None (pf_offset failure) None None)
            (pf_resolution failure) (pf_precision failure) uncertainty assumptions None
      | Inr parsed \<Rightarrow>
          (case pd_offset parsed of
             None \<Rightarrow> Inl TPanicked
           | Some offset \<Rightarrow>
               envelope_checked source role original
                 (mk_interpretation PosixUtc None (Some offset) None None)
                 (resolution_at (pd_datetime parsed) offset) (pd_precision parsed)
                 uncertainty assumptions None))"

definition normalize_numeric ::
  "source_descriptor \<Rightarrow> timestamp_role \<Rightarrow> bytes \<Rightarrow> int \<Rightarrow> epoch_unit option \<Rightarrow> time_scale \<Rightarrow>
   clock_uncertainty \<Rightarrow> authorized_assumption list \<Rightarrow> time_error + timestamp_envelope" where
  "normalize_numeric source role token v unit scale uncertainty assumptions =
     envelope_checked source role token (mk_interpretation scale unit None None None)
       (if scale \<noteq> PosixUtc then Unsupported UnsupportedTimeScale
        else
          (case unit of
             Some unit \<Rightarrow>
               (case numeric_instant v unit of
                  Some instant \<Rightarrow> Resolved instant 0
                | None \<Rightarrow> Invalid OutOfRange)
           | None \<Rightarrow> Invalid UnitRequired))
       (case unit of None \<Rightarrow> PrecisionUnknown | Some unit \<Rightarrow> EpochUnit unit)
       uncertainty assumptions None"

definition normalize_local ::
  "'z jiff \<Rightarrow> source_descriptor \<Rightarrow> timestamp_role \<Rightarrow> bytes \<Rightarrow> bytes option \<Rightarrow> int option \<Rightarrow>
   fold_choice option \<Rightarrow> clock_uncertainty \<Rightarrow> authorized_assumption list \<Rightarrow>
   time_error + timestamp_envelope" where
  "normalize_local J source role original zone supplied_offset choice uncertainty assumptions =
     rbind (case zone of None \<Rightarrow> Inr ()
            | Some zone \<Rightarrow> ensure (length zone \<le> MAX_ZONE_BYTES)
                (TFieldTooLarge ''zone'' (length zone) MAX_ZONE_BYTES)) (\<lambda>_.
     rbind (case zone of None \<Rightarrow> Inr None
            | Some zone \<Rightarrow> rbind (bounded zone MAX_ZONE_BYTES ''zone'') (\<lambda>zone. Inr (Some zone)))
       (\<lambda>zone_value.
     let i = mk_interpretation PosixUtc None supplied_offset zone_value choice;
         tz = map_option (\<lambda>_. PINNED) zone in
     if (case supplied_offset of None \<Rightarrow> False | Some offset \<Rightarrow> \<not> valid_offset offset) then
       envelope_checked source role original i (Invalid InvalidSyntax) PrecisionUnknown
         uncertainty assumptions tz
     else
       (case parse_datetime J original False of
          Inl failure \<Rightarrow>
            envelope_checked source role original i (pf_resolution failure) (pf_precision failure)
              uncertainty assumptions tz
        | Inr parsed \<Rightarrow>
            (let (r, tz) =
               (case zone of
                  None \<Rightarrow>
                    (case (supplied_offset, choice) of
                       (Some offset, None) \<Rightarrow> (resolution_at (pd_datetime parsed) offset, None)
                     | (Some _, Some _) \<Rightarrow> (Invalid UnnecessaryFoldChoice, None)
                     | (None, Some _) \<Rightarrow> (Invalid UnnecessaryFoldChoice, None)
                     | (None, None) \<Rightarrow> (Ambiguous MissingZone, None))
                | Some name \<Rightarrow>
                    (resolve_named_zone J (pd_datetime parsed) name supplied_offset choice,
                     Some PINNED)) in
             envelope_checked source role original i r (pd_precision parsed) uncertainty assumptions tz))))"

datatype time_input =
    InputMissing
  | Rfc3339 bytes
  | Numeric bytes int "epoch_unit option" time_scale
  | Local bytes "bytes option" "int option" "fold_choice option"
  | DateOnly bytes

definition normalize ::
  "'z jiff \<Rightarrow> source_descriptor \<Rightarrow> timestamp_role \<Rightarrow> time_input \<Rightarrow> clock_uncertainty \<Rightarrow>
   authorized_assumption list \<Rightarrow> time_error + timestamp_envelope" where
  "normalize J source role input uncertainty assumptions =
     (if length assumptions > MAX_ASSUMPTIONS
      then Inl (TFieldTooLarge ''assumptions'' (length assumptions) MAX_ASSUMPTIONS)
      else
        (case input of
           InputMissing \<Rightarrow>
             envelope_checked source role [] (mk_interpretation ScaleUnknown None None None None)
               (Missing MissingValue) PrecisionUnknown uncertainty assumptions None
         | Rfc3339 original \<Rightarrow>
             rbind (preflight_original original) (\<lambda>_.
             normalize_rfc3339 J source role original uncertainty assumptions)
         | Numeric token v unit scale \<Rightarrow>
             rbind (preflight_original token) (\<lambda>_.
             normalize_numeric source role token v unit scale uncertainty assumptions)
         | Local text zone offset_seconds choice \<Rightarrow>
             rbind (preflight_original text) (\<lambda>_.
             normalize_local J source role text zone offset_seconds choice uncertainty assumptions)
         | DateOnly original \<Rightarrow>
             rbind (preflight_original original) (\<lambda>_.
             envelope_checked source role original (mk_interpretation PosixUtc None None None None)
               (if valid_date_only J original then Ambiguous DateOnlyWithoutPolicy
                else Invalid InvalidSyntax)
               Date uncertainty assumptions None)))"

section \<open>Presentation\<close>

text \<open>\<open>format!\<close> with a zero-padded width; the sign counts towards the width.\<close>

function decimal :: "nat \<Rightarrow> bytes" where
  "decimal n = (if n < 10 then [48 + of_nat n] else decimal (n div 10) @ [48 + of_nat (n mod 10)])"
  by pat_completeness auto
termination by (relation "measure id") auto

declare decimal.simps [simp del]

definition zero_pad :: "nat \<Rightarrow> bytes \<Rightarrow> bytes" where
  "zero_pad width ds = replicate (width - length ds) 48 @ ds"

definition format_int :: "nat \<Rightarrow> int \<Rightarrow> bytes" where
  "format_int width n =
     (if n < 0 then 45 # zero_pad (width - 1) (decimal (nat (- n))) else zero_pad width (decimal (nat n)))"

definition format_fraction :: "nat \<Rightarrow> bytes" where
  "format_fraction nanos =
     (if nanos \<noteq> 0 then 46 # rev (dropWhile (\<lambda>b. b = 48) (rev (zero_pad 9 (decimal nanos)))) else [])"

definition format_fields :: "int \<Rightarrow> int \<Rightarrow> int \<Rightarrow> int \<Rightarrow> int \<Rightarrow> int \<Rightarrow> bytes" where
  "format_fields year month day hour minute second =
     format_int 4 year @ 45 # format_int 2 month @ 45 # format_int 2 day @ 84 # format_int 2 hour
       @ 58 # format_int 2 minute @ 58 # format_int 2 second"

definition format_utc :: "utc_instant \<Rightarrow> time_error + bytes" where
  "format_utc instant =
     (case civil_from_epoch (instant_seconds instant) of (year, month, day, hour, minute, second) \<Rightarrow>
      Inr (format_fields year month day hour minute second
             @ format_fraction (instant_nanoseconds instant) @ [90]))"

definition format_datetime :: "datetime \<Rightarrow> bytes" where
  "format_datetime dt =
     format_fields (dt_year dt) (dt_month dt) (dt_day dt) (dt_hour dt) (dt_minute dt) (dt_second dt)
       @ format_fraction (nat (dt_nanosecond dt))"

definition format_offset :: "int \<Rightarrow> bytes" where
  "format_offset offset =
     (let absolute = nat \<bar>offset\<bar>;
          hours = absolute div 3600;
          minutes = absolute mod 3600 div 60;
          seconds = absolute mod 60 in
      (if offset < 0 then 45 else 43) #
        (if seconds = 0 then zero_pad 2 (decimal hours) @ 58 # zero_pad 2 (decimal minutes)
         else zero_pad 2 (decimal hours) @ 58 # zero_pad 2 (decimal minutes)
                @ 58 # zero_pad 2 (decimal seconds)))"

record local_presentation =
  lp_text :: bytes
  lp_zone :: bytes
  lp_offset_seconds :: int
  lp_timezone_profile :: timezone_profile

definition present_in_zone :: "'z jiff \<Rightarrow> utc_instant \<Rightarrow> bytes \<Rightarrow> time_error + local_presentation" where
  "present_in_zone J instant zone =
     rbind (ensure (length zone \<le> MAX_ZONE_BYTES)
       (TFieldTooLarge ''zone'' (length zone) MAX_ZONE_BYTES)) (\<lambda>_.
     rbind (ok_or (tzdb_get J zone) TInvalidEnvelope) (\<lambda>(canonical, bytes).
     rbind (ok_or (tzif J canonical bytes) TInvalidEnvelope) (\<lambda>timezone.
     rbind (ok_or (local_datetime_for_instant J timezone instant) TInvalidEnvelope) (\<lambda>(dt, offset).
     Inr \<lparr>lp_text = format_datetime dt @ format_offset offset @ 91 # canonical @ [93],
          lp_zone = canonical, lp_offset_seconds = offset, lp_timezone_profile = PINNED\<rparr>))))"

section \<open>The pinned database\<close>

definition hash_part :: "bytes \<Rightarrow> bytes" where
  "hash_part v = be_bytes 8 (length v) @ v"

fun tzdb_parts :: "'z jiff \<Rightarrow> bytes list \<Rightarrow> bytes option" where
  "tzdb_parts J [] = Some []"
| "tzdb_parts J (name # names) =
     Option.bind (tzdb_get J name) (\<lambda>(canonical, data).
     Option.bind (tzdb_parts J names) (\<lambda>rest.
     Some (hash_part name @ hash_part data @ rest)))"

definition embedded_tzdb_digest :: "(bytes \<Rightarrow> bytes) \<Rightarrow> 'z jiff \<Rightarrow> bytes option" where
  "embedded_tzdb_digest H J =
     Option.bind (tzdb_parts J (sort (tzdb_available J))) (\<lambda>parts.
     Some (H (ascii ''uste-tzdb-profile-v1'' @ 0 # hash_part TZDB_VERSION @ parts)))"

text \<open>The cell \<open>PROFILE_VERIFIED\<close> keeps the first answer.\<close>

definition posix_utc_v1 ::
  "(bytes \<Rightarrow> bytes) \<Rightarrow> 'z jiff \<Rightarrow> bool option \<Rightarrow> (time_error + unit) \<times> bool option" where
  "posix_utc_v1 H J cell =
     (let verified =
        (case cell of
           Some verified \<Rightarrow> verified
         | None \<Rightarrow> tzdb_version J = Some TZDB_VERSION
             \<and> embedded_tzdb_digest H J = Some TZDB_PROFILE_DIGEST) in
      (if verified then Inr () else Inl TPinnedProfileUnavailable, Some verified))"


end
