(* ===== verification/Time_Exact.thy ===== *)
theory Time_Exact
  imports Time_Normalize
begin

text \<open>
  What normalization guarantees: it fails only on oversized input, the instants it resolves are
  exact, and presented timestamps are read back.
\<close>

section \<open>Instants are exact\<close>

fun unit_nanoseconds :: "epoch_unit \<Rightarrow> int" where
  "unit_nanoseconds Seconds = 1000000000"
| "unit_nanoseconds Milliseconds = 1000000"
| "unit_nanoseconds Microseconds = 1000"
| "unit_nanoseconds Nanoseconds = 1"

definition total_nanoseconds :: "utc_instant \<Rightarrow> int" where
  "total_nanoseconds i = instant_seconds i * 1000000000 + int (instant_nanoseconds i)"

lemma instant_new_range:
  "Option.bind (checked_i64 s) (\<lambda>s. instant_new s n) = instant_new s n"
  by (simp add: checked_i64_def instant_new_def MIN_EPOCH_SECONDS_def MAX_EPOCH_SECONDS_def)

lemma split_nanoseconds:
  assumes "0 < k" "k * m = 1000000000" "0 \<le> n" "n \<le> (999999999 :: int)"
  shows "s = v div k \<and> n = v mod k * m \<longleftrightarrow> s * 1000000000 + n = v * m"
proof -
  have m: "0 < m" using assms(1,2) by (metis mult_pos_neg not_less_iff_gr_or_eq mult_zero_right zero_less_numeral less_asym)
  show ?thesis
  proof
    assume "s = v div k \<and> n = v mod k * m"
    then have "s * 1000000000 + n = v div k * (k * m) + v mod k * m"
      unfolding assms(2) by simp
    also have "\<dots> = (v div k * k + v mod k) * m" by (simp only: distrib_right mult.assoc)
    finally have "s * 1000000000 + n = (v div k * k + v mod k) * m" .
    then show "s * 1000000000 + n = v * m" by simp
  next
    assume *: "s * 1000000000 + n = v * m"
    then have "n = v * m - s * (k * m)" unfolding assms(2) by simp
    then have n: "n = (v - s * k) * m" by (simp only: left_diff_distrib mult.assoc)
    have "0 \<le> v - s * k" using assms(3) m unfolding n by (simp add: zero_le_mult_iff)
    moreover have "v - s * k < k"
    proof (rule ccontr)
      assume "\<not> v - s * k < k"
      then have "k * m \<le> n" unfolding n using m by (simp add: mult_right_mono)
      then show False using assms by simp
    qed
    ultimately have "v div k = s" by (intro div_unique) (simp_all add: algebra_simps)
    moreover then have "v mod k = v - s * k" by (metis minus_div_mult_eq_mod)
    ultimately show "s = v div k \<and> n = v mod k * m" using n by simp
  qed
qed

lemma numeric_instant_exact:
  "numeric_instant v unit = Some i \<longleftrightarrow>
     instant_ok i \<and> total_nanoseconds i = v * unit_nanoseconds unit"
proof -
  obtain s n where i: "i = UtcInstant s n" by (cases i)
  define k where "k = 1000000000 div unit_nanoseconds unit"
  define m where "m = unit_nanoseconds unit"
  have km: "0 < k" "k * m = 1000000000" "0 \<le> m" unfolding k_def m_def by (cases unit; simp)+
  have r: "0 \<le> v mod k * m" "v mod k * m < 1000000000"
  proof -
    have "v mod k < k" "0 \<le> v mod k" using km by simp_all
    then show "0 \<le> v mod k * m" "v mod k * m < 1000000000"
      using km mult_strict_right_mono [of "v mod k" k m] by (cases "m = 0"; simp)+
  qed
  have "numeric_instant v unit = instant_new (v div k) (nat (v mod k * m))"
  proof -
    have "checked_i128 a = Some a" "try_u32 a = Some (nat a)" if "0 \<le> a" "a < 1000000000" for a
      using that by (simp_all add: checked_i128_def try_u32_def)
    then show ?thesis
      unfolding numeric_instant_def k_def m_def
      by (cases unit) (simp_all add: instant_new_range)
  qed
  then have "numeric_instant v unit = Some i \<longleftrightarrow>
      instant_ok i \<and> s = v div k \<and> int n = v mod k * m"
    using r(1) instant_new_eq_Some [of "v div k" "nat (v mod k * m)" i] unfolding i by auto
  also have "\<dots> \<longleftrightarrow> instant_ok i \<and> s * 1000000000 + int n = v * m"
    using split_nanoseconds [OF km(1,2), of "int n" s v] by (auto simp: instant_ok_def i)
  finally show ?thesis by (simp add: total_nanoseconds_def i m_def)
qed

definition datetime_civil :: "datetime \<Rightarrow> int \<times> int \<times> int \<times> int \<times> int \<times> int" where
  "datetime_civil dt =
     (dt_year dt, dt_month dt, dt_day dt, dt_hour dt, dt_minute dt, dt_second dt)"

lemma instant_from_datetime_exact:
  assumes "datetime_ok dt" "- 93599 \<le> offset" "offset \<le> 93599"
  shows "instant_from_datetime_offset dt offset =
    instant_new (epoch_of_civil (datetime_civil dt) - offset) (nat (dt_nanosecond dt))"
proof -
  have d: "valid_date (dt_year dt) (dt_month dt) (dt_day dt)" "- 9999 \<le> dt_year dt" "dt_year dt \<le> 9999"
      "valid_time (dt_hour dt) (dt_minute dt) (dt_second dt)" "0 \<le> dt_nanosecond dt" "dt_nanosecond dt \<le> 999999999"
    using assms(1) by (auto simp: datetime_ok_def)
  note b = days_from_civil_bounds [OF d(1-3)]
  show ?thesis
    using b d(4-6) assms(2,3)
    by (simp add: instant_from_datetime_offset_def Let_def checked_i64_def try_u32_def valid_time_def
        epoch_of_civil_def datetime_civil_def)
qed

section \<open>What the parser returns\<close>

definition precision_ok :: "source_precision \<Rightarrow> bool" where
  "precision_ok p \<longleftrightarrow> p = Second \<or> (\<exists>n. p = FractionDigits n \<and> n \<noteq> 0 \<and> n \<le> 9)"

lemma parse_fraction_shape:
  "parse_fraction bs = Inr (cursor, nanos, p) \<Longrightarrow> precision_ok p"
  "parse_fraction bs = Inl f \<Longrightarrow> f = pf_invalid"
  by (auto simp: parse_fraction_def precision_ok_def Let_def rbind_eq_Inr rbind_eq_Inl split: if_splits)

lemma valid_offset_uminus: "valid_offset (- a) \<longleftrightarrow> valid_offset a"
proof -
  have "trem (- a) 60 = - trem a 60" by (simp add: trem_def tdiv_def)
  then show ?thesis by (auto simp: valid_offset_def)
qed

lemma valid_offset_parts:
  assumes "hours \<le> 23" "minutes \<le> 59"
  shows "valid_offset (int (hours * 3600 + minutes * 60))"
    and "valid_offset (- int (hours * 3600 + minutes * 60))"
proof -
  show "valid_offset (int (hours * 3600 + minutes * 60))" using assms by (simp add: valid_offset_def)
  then show "valid_offset (- int (hours * 3600 + minutes * 60))" by (simp only: valid_offset_uminus)
qed

lemma parse_offset_shape:
  "parse_offset suffix = Inr (offset, unknown) \<Longrightarrow>
     (unknown \<and> offset = None) \<or> (\<not> unknown \<and> (\<exists>a. offset = Some a \<and> valid_offset a))"
  "parse_offset suffix = Inl f \<Longrightarrow> f = pf_invalid"
proof -
  have zero: "valid_offset 0" by (simp add: valid_offset_def)
  show "parse_offset suffix = Inr (offset, unknown) \<Longrightarrow>
     (unknown \<and> offset = None) \<or> (\<not> unknown \<and> (\<exists>a. offset = Some a \<and> valid_offset a))"
    using zero valid_offset_parts
    by (auto simp: parse_offset_def rbind_eq_Inr try_i32_def not_less simp del: of_nat_add of_nat_mult
        split: if_splits)
  show "parse_offset suffix = Inl f \<Longrightarrow> f = pf_invalid"
    by (auto simp: parse_offset_def rbind_eq_Inr rbind_eq_Inl split: if_splits)
qed

lemma jiff_datetime_ok: "jiff_datetime J \<Longrightarrow> datetime_new J y mo d h mi s n = Some dt \<Longrightarrow> datetime_ok dt"
  by (auto simp: jiff_datetime_def Let_def split: if_splits)

lemma parse_datetime_Inr:
  assumes "parse_datetime J bs req = Inr p"
  shows "precision_ok (pd_precision p)"
    and "req \<Longrightarrow> \<exists>a. pd_offset p = Some a \<and> valid_offset a"
    and "\<not> req \<Longrightarrow> pd_offset p = None"
    and "jiff_datetime J \<Longrightarrow> datetime_ok (pd_datetime p)"
  using assms
  by (auto simp: parse_datetime_def rbind_eq_Inr Let_def
      dest!: parse_fraction_shape(1) parse_offset_shape(1) dest: jiff_datetime_ok split: if_splits)

text \<open>The errors a computation can end with.\<close>

definition fails_with :: "('e \<Rightarrow> bool) \<Rightarrow> 'e + 'a \<Rightarrow> bool" where
  "fails_with P r \<longleftrightarrow> (\<forall>e. r = Inl e \<longrightarrow> P e)"

lemma fails_with_rbind:
  "fails_with P r \<Longrightarrow> (\<And>x. r = Inr x \<Longrightarrow> fails_with P (f x)) \<Longrightarrow> fails_with P (rbind r f)"
  by (auto simp: fails_with_def rbind_eq_Inl)

lemma fails_with_simps [simp]:
  "fails_with P (Inl e) \<longleftrightarrow> P e" "fails_with P (Inr x)"
  "fails_with P (ok_or x' e) \<longleftrightarrow> x' = None \<longrightarrow> P e"
  by (auto simp: fails_with_def)

lemma fails_with_if:
  "(c \<Longrightarrow> fails_with P a) \<Longrightarrow> (\<not> c \<Longrightarrow> fails_with P b) \<Longrightarrow> fails_with P (if c then a else b)"
  by simp

lemma fails_with_prod:
  "(\<And>x y. p = (x, y) \<Longrightarrow> fails_with P (f x y)) \<Longrightarrow> fails_with P (case p of (x, y) \<Rightarrow> f x y)"
  by (cases p) simp

lemmas fails_with_intros = fails_with_rbind fails_with_if fails_with_prod

definition parse_failure_ok :: "bool \<Rightarrow> parse_failure \<Rightarrow> bool" where
  "parse_failure_ok req f \<longleftrightarrow>
     f = pf_invalid
     \<or> precision_ok (pf_precision f)
        \<and> (pf_resolution f = Unsupported LeapSecond
              \<and> (pf_offset f = None \<or> req \<and> (\<exists>a. pf_offset f = Some a \<and> valid_offset a))
           \<or> req \<and> pf_resolution f = Ambiguous UnknownOffset \<and> pf_offset f = None)"

lemma parse_failure_invalid [simp]: "parse_failure_ok req pf_invalid"
  by (simp add: parse_failure_ok_def)

lemma parse_datetime_Inl: "fails_with (parse_failure_ok req) (parse_datetime J bs req)"
proof -
  have parts: "fails_with (parse_failure_ok req) (parse_fraction bs)"
      "fails_with (parse_failure_ok req) (parse_offset suffix)" for suffix
    using parse_fraction_shape(2) parse_offset_shape(2) by (fastforce simp: fails_with_def)+
  show ?thesis
    unfolding parse_datetime_def Let_def
    by (intro fails_with_intros parts)
      (auto simp: parse_failure_ok_def dest!: parse_fraction_shape(1) parse_offset_shape(1)
        split: if_splits)
qed

section \<open>Normalization fails only on oversized input\<close>

definition input_admitted :: "time_input \<Rightarrow> bool" where
  "input_admitted input \<longleftrightarrow>
     (case input of
        InputMissing \<Rightarrow> True
      | Rfc3339 t \<Rightarrow> length t \<le> MAX_ORIGINAL_BYTES
      | Numeric t _ _ _ \<Rightarrow> length t \<le> MAX_ORIGINAL_BYTES
      | Local t zone _ _ \<Rightarrow>
          length t \<le> MAX_ORIGINAL_BYTES
          \<and> (case zone of None \<Rightarrow> True | Some z \<Rightarrow> length z \<le> MAX_ZONE_BYTES)
      | DateOnly t \<Rightarrow> length t \<le> MAX_ORIGINAL_BYTES)"

lemma bounded_Inr: "length v \<le> n \<Longrightarrow> n \<le> 4096 \<Longrightarrow> bounded v n field = Inr v"
  by (simp add: bounded_def check_inline_length_def MAX_INLINE_BYTES_def)

lemma envelope_checked_Inr:
  assumes "length assumptions \<le> MAX_ASSUMPTIONS" "length original \<le> MAX_ORIGINAL_BYTES"
    and "\<not> (case p of FractionDigits n \<Rightarrow> n = 0 \<or> n \<ge> 10 | _ \<Rightarrow> False)"
    and "\<not> (case (p, ti_epoch_unit i) of (EpochUnit left, Some right) \<Rightarrow> left \<noteq> right | _ \<Rightarrow> False)"
    and "is_epoch_precision p = (ti_epoch_unit i \<noteq> None)"
    and "(case ti_supplied_offset i of None \<Rightarrow> True | Some offset \<Rightarrow> valid_offset offset) \<or> r = Invalid InvalidSyntax"
    and "case ti_zone i of None \<Rightarrow> tz = None | Some zone \<Rightarrow> length zone \<le> MAX_ZONE_BYTES \<and> tz = Some PINNED"
    and "case r of Resolved _ a \<Rightarrow> - 93599 \<le> a \<and> a \<le> 93599 \<and> ti_scale i = PosixUtc
           \<and> p \<noteq> PrecisionUnknown \<and> p \<noteq> Date \<and> (\<forall>b. ti_supplied_offset i = Some b \<longrightarrow> b = a)
           \<and> (ti_epoch_unit i = None \<longrightarrow> ti_zone i \<noteq> None \<or> ti_supplied_offset i \<noteq> None)
           \<and> (ti_epoch_unit i \<noteq> None \<longrightarrow> a = 0) \<and> (ti_fold i \<noteq> None \<longrightarrow> ti_zone i \<noteq> None) | _ \<Rightarrow> True"
    and "p = Date \<Longrightarrow> r = Ambiguous DateOnlyWithoutPolicy \<or> r = Invalid InvalidSyntax"
    and "is_missing r \<Longrightarrow> p = PrecisionUnknown"
    and "ti_epoch_unit i \<noteq> None \<Longrightarrow> ti_zone i = None \<and> ti_fold i = None \<and> ti_supplied_offset i = None"
    and "semantic_shape_matches i r p original" "resolution_reason_matches r"
  shows "envelope_checked source role original i r p uncertainty assumptions tz =
    Inr \<lparr>te_source = source, te_role = role, te_original = original, te_interpretation = i,
         te_resolution = r, te_precision = p, te_uncertainty = uncertainty,
         te_assumptions = assumptions, te_timezone_profile = tz\<rparr>"
proof -
  have "bounded original MAX_ORIGINAL_BYTES ''original'' = Inr original"
    using assms(2) by (intro bounded_Inr) (simp_all add: MAX_ORIGINAL_BYTES_def)
  then show ?thesis
    using assms unfolding envelope_checked_def
    by (cases r) (auto split: option.splits)
qed


lemmas shape_defs =
  mk_interpretation_def semantic_shape_matches_def empty_interpretation_def precision_ok_def

definition accepted :: "'e + 'a \<Rightarrow> bool" where
  "accepted r \<longleftrightarrow> (\<exists>x. r = Inr x)"

lemma accepted_Inr: "r = Inr x \<Longrightarrow> accepted r"
  by (simp add: accepted_def)

lemmas envelope_accepted = envelope_checked_Inr [THEN accepted_Inr]

lemma valid_offset_range: "valid_offset a \<Longrightarrow> - 93599 \<le> a \<and> a \<le> 93599"
  by (simp add: valid_offset_def)

lemma normalize_rfc3339_Inr:
  assumes "length assumptions \<le> MAX_ASSUMPTIONS" "length original \<le> MAX_ORIGINAL_BYTES"
  shows "accepted (normalize_rfc3339 J source role original uncertainty assumptions)"
proof (cases "parse_datetime J original True")
  case (Inl f)
  have "parse_failure_ok True f" using parse_datetime_Inl [of True J original] Inl by (simp add: fails_with_def)
  then show ?thesis
    using assms Inl unfolding normalize_rfc3339_def parse_failure_ok_def
    by (auto simp: shape_defs pf_invalid_def intro!: envelope_accepted)
next
  case (Inr p)
  then obtain a where a: "pd_offset p = Some a" "valid_offset a"
    using parse_datetime_Inr(2) [OF Inr] by blast
  then show ?thesis
    using assms Inr parse_datetime_Inr(1) [OF Inr] valid_offset_range [OF a(2)]
    unfolding normalize_rfc3339_def resolution_at_def
    by (auto simp: shape_defs intro!: envelope_accepted split: option.splits)
qed

lemma normalize_numeric_Inr:
  assumes "length assumptions \<le> MAX_ASSUMPTIONS" "length token \<le> MAX_ORIGINAL_BYTES"
  shows "accepted (normalize_numeric source role token v unit scale uncertainty assumptions)"
  using assms unfolding normalize_numeric_def
  by (cases unit) (auto simp: shape_defs intro!: envelope_accepted split: option.splits)


lemma resolve_named_zone_shape:
  assumes "jiff_offsets J" "r = resolve_named_zone J dt zone supplied choice"
  shows "r = Invalid UnknownZone \<or> r = Invalid NonexistentLocalTime \<or> r = Invalid OutOfRange
    \<or> r = Ambiguous FoldChoiceRequired \<and> choice = None
    \<or> r = Invalid UnnecessaryFoldChoice \<and> choice \<noteq> None
    \<or> r = Invalid OffsetZoneConflict \<and> supplied \<noteq> None
    \<or> (\<exists>i a. r = Resolved i a \<and> - 93599 \<le> a \<and> a \<le> 93599 \<and> (\<forall>b. supplied = Some b \<longrightarrow> b = a)
         \<and> instant_from_datetime_offset dt a = Some i)"
proof -
  have "- 93599 \<le> a \<and> a \<le> 93599" if "a \<in> ambiguous_offsets (to_ambiguous J z dt)" for z a
    using assms(1) that by (simp add: jiff_offsets_def)
  note range = this
  consider (unknown) "tzdb_get J zone = None"
    | (broken) c bs where "tzdb_get J zone = Some (c, bs)" "tzif J c bs = None"
    | (known) c bs z where "tzdb_get J zone = Some (c, bs)" "tzif J c bs = Some z"
    by (metis option.exhaust surj_pair)
  then show ?thesis
  proof cases
    case known
    have eff: "- 93599 \<le> a \<and> a \<le> 93599"
      if "to_ambiguous J z dt = Unambiguous a \<or> to_ambiguous J z dt = Fold a b \<or> to_ambiguous J z dt = Fold b a"
      for a b
      using that range [of a z] by auto
    then show ?thesis
      using known unfolding assms(2) resolve_named_zone_def
      by (cases "to_ambiguous J z dt"; cases choice; cases supplied)
        (auto split: option.splits fold_choice.splits)
  qed (simp_all add: assms(2) resolve_named_zone_def)
qed

lemma normalize_local_Inr:
  assumes "length assumptions \<le> MAX_ASSUMPTIONS" "length original \<le> MAX_ORIGINAL_BYTES"
    and "case zone of None \<Rightarrow> True | Some z \<Rightarrow> length z \<le> MAX_ZONE_BYTES" "jiff_offsets J"
  shows "accepted (normalize_local J source role original zone supplied choice uncertainty assumptions)"
proof -
  let ?i = "mk_interpretation PosixUtc None supplied zone choice"
    and ?tz = "map_option (\<lambda>_. PINNED) zone"
  note env = assms(1,2) and intro = envelope_accepted [where i = ?i and tz = ?tz]
  have zone: "bounded z MAX_ZONE_BYTES field = Inr z" if "zone = Some z" for z field
    using assms(3) that by (intro bounded_Inr) (simp_all add: MAX_ZONE_BYTES_def)
  have zone_tz: "case ti_zone ?i of None \<Rightarrow> ?tz = None
      | Some z \<Rightarrow> length z \<le> MAX_ZONE_BYTES \<and> ?tz = Some PINNED"
    using assms(3) by (simp add: mk_interpretation_def split: option.splits)
  let ?bad = "case supplied of None \<Rightarrow> False | Some offset \<Rightarrow> \<not> valid_offset offset"
  consider (bad) ?bad
    | (failure) f where "\<not> ?bad" "parse_datetime J original False = Inl f" "parse_failure_ok False f"
    | (parsed) p where "\<not> ?bad" "parse_datetime J original False = Inr p"
        "precision_ok (pd_precision p)"
    using parse_datetime_Inl [of False J original] parse_datetime_Inr(1) [of J original False]
    by (cases "parse_datetime J original False") (auto simp: fails_with_def)
  then show ?thesis
  proof cases
    case bad
    then show ?thesis
      using env zone zone_tz unfolding normalize_local_def
      by (cases zone) (auto simp: Let_def shape_defs intro!: envelope_accepted)
  next
    case failure
    then show ?thesis
      using env zone zone_tz unfolding normalize_local_def parse_failure_ok_def
      by (cases zone; cases supplied) (auto simp: Let_def shape_defs pf_invalid_def intro!: envelope_accepted)
  next
    case parsed
    show ?thesis
    proof (cases zone)
      case None
      then show ?thesis
        using parsed env valid_offset_range unfolding normalize_local_def resolution_at_def
        by (cases supplied; cases choice)
          (auto simp: Let_def shape_defs intro!: envelope_accepted split: option.splits)
    next
      case (Some z)
      have "accepted (envelope_checked source role original ?i
          (resolve_named_zone J (pd_datetime p) z supplied choice) (pd_precision p) uncertainty
          assumptions (Some PINNED))"
        using resolve_named_zone_shape [OF assms(4) refl, of "pd_datetime p" z supplied choice]
          parsed env assms(3) Some
        by (cases supplied) (auto simp: shape_defs intro!: envelope_accepted)
      with parsed Some zone assms(3) show ?thesis unfolding normalize_local_def by (simp add: Let_def)
    qed
  qed
qed

text \<open>C20. Normalization is total on admitted input: it returns an envelope exactly when there are
  at most 16 assumptions and the texts are within their limits, whatever the text says and whatever
  the time zone database answers.  In particular every combination of interpretation,
  resolution and precision it produces passes the consistency check of the envelope, and the
  \<open>expect\<close> on the parsed offset cannot panic.  The only error is the field that is too large.\<close>

theorem normalize_total:
  assumes "jiff_offsets J"
  shows "(accepted (normalize J source role input uncertainty assumptions) \<longleftrightarrow>
      length assumptions \<le> MAX_ASSUMPTIONS \<and> input_admitted input)
    \<and> fails_with (\<lambda>e. \<exists>field actual maximum. e = TFieldTooLarge field actual maximum \<and> maximum < actual)
        (normalize J source role input uncertainty assumptions)"
proof (cases "length assumptions \<le> MAX_ASSUMPTIONS \<and> input_admitted input")
  case True
  have "accepted (normalize J source role input uncertainty assumptions)"
  proof (cases input)
    case InputMissing
    then show ?thesis
      using True unfolding normalize_def by (auto simp: shape_defs intro!: envelope_accepted)
  next
    case (Rfc3339 t)
    then show ?thesis
      using True by (simp add: normalize_def preflight_original_def input_admitted_def normalize_rfc3339_Inr)
  next
    case (Numeric t v unit scale)
    then show ?thesis
      using True by (simp add: normalize_def preflight_original_def input_admitted_def normalize_numeric_Inr)
  next
    case (Local t zone offset choice)
    then show ?thesis
      using True assms
      by (simp add: normalize_def preflight_original_def input_admitted_def normalize_local_Inr)
  next
    case (DateOnly t)
    then show ?thesis
      using True unfolding normalize_def
      by (auto simp: preflight_original_def input_admitted_def shape_defs intro!: envelope_accepted)
  qed
  with True show ?thesis by (auto simp: accepted_def fails_with_def)
next
  case False
  then have "\<exists>field actual maximum.
      normalize J source role input uncertainty assumptions = Inl (TFieldTooLarge field actual maximum)
      \<and> maximum < actual"
    by (cases input)
      (auto simp: normalize_def normalize_local_def preflight_original_def input_admitted_def ensure_def
        split: option.splits)
  with False show ?thesis by (auto simp: accepted_def)
qed


end
