(* ===== verification/Time_Text.thy ===== *)
theory Time_Text
  imports Time_Exact
begin

text \<open>
  The fields, fractions and timestamps written by \<open>format_datetime\<close> and the strict parser on them.
\<close>

section \<open>Decimal digits\<close>

fun pad :: "nat \<Rightarrow> nat \<Rightarrow> bytes" where
  "pad 0 n = []"
| "pad (Suc w) n = pad w (n div 10) @ [48 + of_nat (n mod 10)]"

lemma length_pad [simp]: "length (pad w n) = w"
  by (induction w arbitrary: n) simp_all

lemma pad_zero: "pad w 0 = replicate w 48"
  by (induction w) (simp_all add: replicate_append_same)

lemma zero_pad_snoc: "zero_pad (Suc w) (ds @ [d]) = zero_pad w ds @ [d]"
  by (simp add: zero_pad_def)

lemma zero_pad_decimal: "n < 10 ^ Suc w \<Longrightarrow> zero_pad (Suc w) (decimal n) = pad (Suc w) n"
proof (induction w arbitrary: n)
  case 0
  then show ?case by (simp add: decimal.simps [of n] zero_pad_def)
next
  case (Suc w)
  show ?case
  proof (cases "n < 10")
    case True
    then show ?thesis by (simp add: decimal.simps [of n] zero_pad_def pad_zero flip: replicate_append_same)
  next
    case False
    have "n div 10 < 10 ^ Suc w" using Suc.prems by (simp add: less_mult_imp_div_less mult.commute)
    from Suc.IH [OF this] False show ?thesis
      by (subst decimal.simps) (simp only: zero_pad_snoc pad.simps(2) [of "Suc w"] if_False)
  qed
qed

lemma is_digit_of_nat: "k < 10 \<Longrightarrow> is_digit (48 + of_nat k) \<and> unat ((48 + of_nat k :: u8) - 48) = k"
proof -
  assume k: "k < 10"
  have u: "unat (of_nat k :: u8) = k" using k by (simp add: unat_of_nat take_bit_nat_eq_self)
  then have "unat (48 + of_nat k :: u8) = 48 + k"
    using k by (subst unat_plus_simple [THEN iffD1]) (simp_all add: word_le_nat_alt unat_word_ariths)
  with u k show ?thesis by (simp add: is_digit_def word_le_nat_alt)
qed

lemma pad_digits: "\<forall>b \<in> set (pad w n). is_digit b"
  by (induction w arbitrary: n) (auto simp: is_digit_of_nat)

lemma digits_from_append:
  "digits_from m (xs @ ys) = Option.bind (digits_from m xs) (\<lambda>n. digits_from n ys)"
  by (induction xs arbitrary: m) (auto simp: Option.bind_assoc split: option.splits)

lemma digits_from_pad: "n < 10 ^ w \<Longrightarrow> w \<le> 9 \<Longrightarrow> digits_from 0 (pad w n) = Some n"
proof (induction w arbitrary: n)
  case (Suc w)
  have q: "n div 10 < 10 ^ w" using Suc.prems by (simp add: less_mult_imp_div_less mult.commute)
  have "n < 10 ^ 9" using Suc.prems power_increasing [of "Suc w" 9 "10 :: nat"] by linarith
  then have "n < 2 ^ 32" by simp
  moreover have "n div 10 * 10 \<le> n" by simp
  moreover have "n div 10 * 10 + n mod 10 = n" by simp
  ultimately show ?case
    using Suc.IH [OF q] Suc.prems(2) is_digit_of_nat [of "n mod 10"]
    by (simp add: digits_from_append checked_u32_def)
qed simp

lemma digits_at:
  assumes "n < 10 ^ w" "w \<le> 9" "length pre + w \<le> usize_max"
  shows "digits (pre @ pad w n @ post) (length pre) w = Some n"
  using assms by (simp add: digits_def checked_add_def digits_from_pad)

lemma strip_pad:
  assumes "n \<noteq> 0" "n < 10 ^ w"
  obtains k m where "rev (dropWhile (\<lambda>b. b = 48) (rev (pad w n))) = pad k m" "0 < k" "k \<le> w"
    and "m < 10 ^ k" "n = m * 10 ^ (w - k)"
  using assms
proof (induction w arbitrary: n thesis)
  case (Suc w)
  show ?case
  proof (cases "n mod 10 = 0")
    case True
    then obtain q where q: "n = q * 10" by auto
    have "q \<noteq> 0" "q < 10 ^ w" using Suc.prems q by simp_all
    from Suc.IH [OF _ this] obtain k m where km: "rev (dropWhile (\<lambda>b. b = 48) (rev (pad w q))) = pad k m"
      "0 < k" "k \<le> w" "m < 10 ^ k" "q = m * 10 ^ (w - k)" by blast
    show ?thesis
      using km q True by (intro Suc.prems(1) [of k m]) (simp_all add: Suc_diff_le)
  next
    case False
    have "(48 :: u8) \<noteq> 48 + of_nat (n mod 10)"
      using is_digit_of_nat [of "n mod 10"] False by auto
    then show ?thesis
      using Suc.prems by (intro Suc.prems(1) [of "Suc w" n]) simp_all
  qed
qed simp

section \<open>Fields\<close>

lemma format_int_pad: "0 \<le> n \<Longrightarrow> n < 10 ^ Suc w \<Longrightarrow> format_int (Suc w) n = pad (Suc w) (nat n)"
proof -
  assume "0 \<le> n" "n < 10 ^ Suc w"
  moreover then have "nat n < 10 ^ Suc w" by (simp add: nat_less_iff)
  ultimately show ?thesis using zero_pad_decimal [of "nat n" w] by (simp add: format_int_def)
qed

lemma format_int_4: "0 \<le> n \<Longrightarrow> n \<le> 9999 \<Longrightarrow> format_int 4 n = pad 4 (nat n)"
  using format_int_pad [of n 3] by simp

lemma format_int_2: "0 \<le> n \<Longrightarrow> n \<le> 99 \<Longrightarrow> format_int 2 n = pad 2 (nat n)"
  using format_int_pad [of n 1] by (simp flip: numeral_2_eq_2 del: pad.simps)

definition pad_fields :: "nat \<Rightarrow> nat \<Rightarrow> nat \<Rightarrow> nat \<Rightarrow> nat \<Rightarrow> nat \<Rightarrow> bytes" where
  "pad_fields y mo d h mi s =
     pad 4 y @ [45] @ pad 2 mo @ [45] @ pad 2 d @ [84] @ pad 2 h @ [58] @ pad 2 mi @ [58] @ pad 2 s"

lemma length_pad_fields [simp]: "length (pad_fields y mo d h mi s) = 19"
  by (simp add: pad_fields_def)

lemma format_fields_pad:
  assumes "0 \<le> y" "y \<le> 9999" "0 \<le> mo" "mo \<le> 99" "0 \<le> d" "d \<le> 99" "0 \<le> h" "h \<le> 99" "0 \<le> mi" "mi \<le> 99"
    "0 \<le> s" "s \<le> 99"
  shows "format_fields y mo d h mi s = pad_fields (nat y) (nat mo) (nat d) (nat h) (nat mi) (nat s)"
  using assms by (simp add: format_fields_def pad_fields_def format_int_4 format_int_2)

lemma pad_fields_marks:
  "pad_fields y mo d h mi s ! 4 = 45" "pad_fields y mo d h mi s ! 7 = 45"
  "pad_fields y mo d h mi s ! 10 = 84" "pad_fields y mo d h mi s ! 13 = 58"
  "pad_fields y mo d h mi s ! 16 = 58"
  by (simp_all add: pad_fields_def nth_append)

lemma pad_fields_digits:
  assumes "y < 10000" "mo < 100" "d < 100" "h < 100" "mi < 100" "s < 100"
  shows "digits (pad_fields y mo d h mi s @ rest) 0 4 = Some y"
    and "digits (pad_fields y mo d h mi s @ rest) 5 2 = Some mo"
    and "digits (pad_fields y mo d h mi s @ rest) 8 2 = Some d"
    and "digits (pad_fields y mo d h mi s @ rest) 11 2 = Some h"
    and "digits (pad_fields y mo d h mi s @ rest) 14 2 = Some mi"
    and "digits (pad_fields y mo d h mi s @ rest) 17 2 = Some s"
proof -
  let ?a = "pad 4 y @ [45]" and ?b = "pad 2 mo @ [45]" and ?c = "pad 2 d @ [84]"
    and ?e = "pad 2 h @ [58]" and ?f = "pad 2 mi @ [58]"
  note u = usize_max_def
  show "digits (pad_fields y mo d h mi s @ rest) 0 4 = Some y"
    using digits_at [of y 4 "[]"] assms by (simp add: pad_fields_def u)
  show "digits (pad_fields y mo d h mi s @ rest) 5 2 = Some mo"
    using digits_at [of mo 2 ?a] assms by (simp add: pad_fields_def u)
  show "digits (pad_fields y mo d h mi s @ rest) 8 2 = Some d"
    using digits_at [of d 2 "?a @ ?b"] assms by (simp add: pad_fields_def u)
  show "digits (pad_fields y mo d h mi s @ rest) 11 2 = Some h"
    using digits_at [of h 2 "?a @ ?b @ ?c"] assms by (simp add: pad_fields_def u)
  show "digits (pad_fields y mo d h mi s @ rest) 14 2 = Some mi"
    using digits_at [of mi 2 "?a @ ?b @ ?c @ ?e"] assms by (simp add: pad_fields_def u)
  show "digits (pad_fields y mo d h mi s @ rest) 17 2 = Some s"
    using digits_at [of s 2 "?a @ ?b @ ?c @ ?e @ ?f"] assms by (simp add: pad_fields_def u)
qed

lemma is_ascii_append [simp]: "is_ascii (xs @ ys) \<longleftrightarrow> is_ascii xs \<and> is_ascii ys"
  by (auto simp: is_ascii_def)

lemma is_ascii_Cons [simp]: "is_ascii (b # bs) \<longleftrightarrow> b < 128 \<and> is_ascii bs" "is_ascii []"
  by (auto simp: is_ascii_def)

lemma is_digit_ascii: "is_digit b \<Longrightarrow> b < 128"
  unfolding is_digit_def using order.strict_trans1 [of b 57 128] by simp

lemma is_ascii_digits: "\<forall>b \<in> set bs. is_digit b \<Longrightarrow> is_ascii bs"
  by (simp add: is_ascii_def is_digit_ascii)

lemma is_ascii_pad [simp]: "is_ascii (pad w n)"
  by (simp add: is_ascii_digits pad_digits)

lemma is_ascii_pad_fields [simp]: "is_ascii (pad_fields y mo d h mi s)"
  by (simp add: pad_fields_def)

section \<open>Fractions\<close>

definition suffix_ok :: "bytes \<Rightarrow> bool" where
  "suffix_ok suffix \<longleftrightarrow> is_ascii suffix \<and> suffix \<noteq> [] \<and> \<not> is_digit (hd suffix) \<and> hd suffix \<noteq> 46"

definition nanos_precision :: "nat \<Rightarrow> source_precision" where
  "nanos_precision nanos =
     (if nanos = 0 then Second else FractionDigits (length (format_fraction nanos) - 1))"

lemma format_fraction_pad:
  assumes "n \<noteq> 0" "n < 10 ^ 9"
  obtains k m where "format_fraction n = 46 # pad k m" "0 < k" "k \<le> 9" "m < 10 ^ k" "n = m * 10 ^ (9 - k)"
proof -
  obtain k m where km: "rev (dropWhile (\<lambda>b. b = 48) (rev (pad 9 n))) = pad k m" "0 < k" "k \<le> 9"
      "m < 10 ^ k" "n = m * 10 ^ (9 - k)"
    using strip_pad [OF assms] by blast
  have "zero_pad 9 (decimal n) = pad 9 n" using zero_pad_decimal [of n 8] assms(2) by (simp del: pad.simps)
  with km assms(1) show ?thesis by (intro that [of k m]) (simp_all add: format_fraction_def)
qed

lemma parse_fraction_format:
  assumes "length pre = 19" "n < 10 ^ 9" "suffix_ok suffix"
  shows "parse_fraction (pre @ format_fraction n @ suffix)
    = Inr (19 + length (format_fraction n), n, nanos_precision n)"
proof (cases "n = 0")
  case True
  have "suffix ! 0 \<noteq> 46" using assms(3) by (cases suffix) (auto simp: suffix_ok_def)
  with True assms show ?thesis
    by (simp add: parse_fraction_def format_fraction_def nanos_precision_def nth_append)
next
  case False
  obtain k m where km: "format_fraction n = 46 # pad k m" "0 < k" "k \<le> 9" "m < 10 ^ k"
      "n = m * 10 ^ (9 - k)"
    using format_fraction_pad [OF False assms(2)] by blast
  define bs where "bs = pre @ format_fraction n @ suffix"
  have scan: "takeWhile is_digit (drop 20 bs) = pad k m"
  proof -
    have "drop 20 bs = pad k m @ suffix" using assms(1) km(1) by (simp add: bs_def)
    then show ?thesis using assms(3) pad_digits [of k m]
      by (cases suffix) (auto simp: suffix_ok_def takeWhile_append)
  qed
  have at: "digits bs 20 k = Some m"
    using digits_at [of m k "pre @ [46]" suffix] km assms(1) by (simp add: usize_max_def bs_def)
  have "checked_u32 n = Some n" using assms(2) by (simp add: checked_u32_def)
  moreover have "bs ! 19 = 46" "19 < length bs" using assms(1) km(1) by (simp_all add: nth_append bs_def)
  ultimately have "parse_fraction bs = Inr (20 + k, n, FractionDigits k)"
    using scan at km by (simp add: parse_fraction_def Let_def)
  with km False show ?thesis by (simp add: nanos_precision_def bs_def)
qed

section \<open>Timestamps\<close>

lemma parse_offset_utc: "parse_offset [90] = Inr (Some 0, False)" "suffix_ok [90]"
  by (simp_all add: parse_offset_def suffix_ok_def is_digit_def)

lemma try_small:
  "0 \<le> a \<Longrightarrow> a < 2 ^ 15 \<Longrightarrow> try_i16 a = Some a" "0 \<le> a \<Longrightarrow> a < 2 ^ 7 \<Longrightarrow> try_i8 a = Some a"
  "0 \<le> a \<Longrightarrow> a < 2 ^ 31 \<Longrightarrow> try_i32 a = Some a"
  by (simp_all add: try_i16_def try_i8_def try_i32_def)

lemma valid_date_bounds: "valid_date y m d \<Longrightarrow> 1 \<le> m \<and> m \<le> 12 \<and> 1 \<le> d \<and> d \<le> 31"
  by (auto simp: valid_date_def days_in_month_def split: if_splits)

lemma format_datetime_pad:
  assumes "datetime_ok dt" "1 \<le> dt_year dt"
  shows "format_datetime dt =
    pad_fields (nat (dt_year dt)) (nat (dt_month dt)) (nat (dt_day dt)) (nat (dt_hour dt))
      (nat (dt_minute dt)) (nat (dt_second dt)) @ format_fraction (nat (dt_nanosecond dt))"
  using assms valid_date_bounds [of "dt_year dt" "dt_month dt" "dt_day dt"]
  by (simp add: format_datetime_def datetime_ok_def valid_time_def format_fields_pad)

lemma is_ascii_fraction: "n < 10 ^ 9 \<Longrightarrow> is_ascii (format_fraction n)"
proof (cases "n = 0")
  case False
  assume "n < 10 ^ 9"
  from format_fraction_pad [OF False this] obtain k m where "format_fraction n = 46 # pad k m" by blast
  then show ?thesis by simp
qed (simp add: format_fraction_def)

lemma parse_datetime_format:
  assumes J: "jiff_datetime J" and dt: "datetime_ok dt" "1 \<le> dt_year dt"
    and suffix: "suffix_ok suffix" "parse_offset suffix = Inr (Some a, False)"
  shows "parse_datetime J (format_datetime dt @ suffix) True =
    Inr \<lparr>pd_datetime = dt, pd_offset = Some a, pd_precision = nanos_precision (nat (dt_nanosecond dt))\<rparr>"
proof -
  define n where "n = nat (dt_nanosecond dt)"
  define pre where "pre = pad_fields (nat (dt_year dt)) (nat (dt_month dt)) (nat (dt_day dt))
    (nat (dt_hour dt)) (nat (dt_minute dt)) (nat (dt_second dt))"
  define bs where "bs = pre @ format_fraction n @ suffix"
  have b: "dt_year dt \<le> 9999" "1 \<le> dt_month dt" "dt_month dt \<le> 12" "1 \<le> dt_day dt" "dt_day dt \<le> 31"
      "0 \<le> dt_hour dt" "dt_hour dt \<le> 23" "0 \<le> dt_minute dt" "dt_minute dt \<le> 59"
      "0 \<le> dt_second dt" "dt_second dt \<le> 59" "0 \<le> dt_nanosecond dt" "dt_nanosecond dt \<le> 999999999"
    using dt(1) valid_date_bounds [of "dt_year dt" "dt_month dt" "dt_day dt"]
    by (simp_all add: datetime_ok_def valid_time_def)
  have n: "n < 10 ^ 9" using b unfolding n_def by simp
  have nanos: "int n = dt_nanosecond dt" using b by (simp add: n_def)
  have len: "length pre = 19" by (simp add: pre_def)
  have frac: "parse_fraction bs = Inr (19 + length (format_fraction n), n, nanos_precision n)"
    unfolding bs_def by (rule parse_fraction_format [OF len n suffix(1)])
  have tail: "drop (19 + length (format_fraction n)) bs = suffix" using len by (simp add: bs_def)
  have marks: "bs ! 4 = 45" "bs ! 7 = 45" "bs ! 10 = 84" "bs ! 13 = 58" "bs ! 16 = 58"
    using pad_fields_marks by (simp_all add: bs_def pre_def nth_append)
  have ascii: "is_ascii bs" "\<not> length bs < 19"
    using suffix(1) is_ascii_fraction [OF n] len by (simp_all add: bs_def pre_def suffix_ok_def)
  note fields = pad_fields_digits [of "nat (dt_year dt)" "nat (dt_month dt)" "nat (dt_day dt)"
      "nat (dt_hour dt)" "nat (dt_minute dt)" "nat (dt_second dt)" "format_fraction n @ suffix",
      folded pre_def, folded bs_def]
  have new: "datetime_new J (dt_year dt) (dt_month dt) (dt_day dt) (dt_hour dt) (dt_minute dt)
      (dt_second dt) (dt_nanosecond dt) = Some dt"
    using J dt(1) by (cases dt) (simp add: jiff_datetime_def Let_def)
  have "parse_datetime J bs True = Inr \<lparr>pd_datetime = dt, pd_offset = Some a, pd_precision = nanos_precision n\<rparr>"
    unfolding parse_datetime_def
    using marks ascii fields b dt(2) nanos
    by (simp add: Let_def frac tail suffix(2) try_small new nat_eq_iff)
  then show ?thesis
    unfolding bs_def pre_def n_def using format_datetime_pad [OF dt] by simp
qed


end
