(* ===== verification/Time_Readback.thy ===== *)
theory Time_Readback
  imports Time_Text
begin

text \<open>
  Timestamps printed by the crate are read back by its strict parser, in UTC and in a zone, and
  numeric timestamps denote their value.
\<close>

section \<open>Offsets\<close>

lemma zero_pad_2: "n < 100 \<Longrightarrow> zero_pad 2 (decimal n) = pad 2 n"
  using zero_pad_decimal [of n 1] by (simp flip: numeral_2_eq_2 del: pad.simps)

lemma offset_split:
  assumes "valid_offset a"
  obtains hours minutes where "hours \<le> 23" "minutes \<le> 59" "\<bar>a\<bar> = int (hours * 3600 + minutes * 60)"
    and "nat \<bar>a\<bar> div 3600 = hours" "nat \<bar>a\<bar> mod 3600 div 60 = minutes" "nat \<bar>a\<bar> mod 60 = 0"
proof -
  define n where "n = nat \<bar>a\<bar>"
  have "trem \<bar>a\<bar> 60 = 0"
    using assms valid_offset_uminus [of a] by (cases "a < 0") (simp_all add: valid_offset_def)
  then have m: "n mod 60 = 0" using nat_mod_distrib [of "\<bar>a\<bar>" 60] unfolding n_def by simp
  have n: "n \<le> 86340" using assms by (auto simp: n_def valid_offset_def)
  define hours minutes where "hours = n div 3600" and "minutes = n mod 3600 div 60"
  have "n mod 3600 mod 60 = 0" using m by (simp add: mod_mod_cancel)
  then have sum: "n = hours * 3600 + minutes * 60"
    using div_mult_mod_eq [of n 3600] div_mult_mod_eq [of "n mod 3600" 60]
    unfolding hours_def minutes_def by linarith
  have "n mod 3600 < 3600" by simp
  then have min: "minutes \<le> 59" unfolding minutes_def by linarith
  have hour: "hours \<le> 23" using n unfolding hours_def by linarith
  have "\<bar>a\<bar> = int n" by (simp add: n_def)
  then have total: "\<bar>a\<bar> = int (hours * 3600 + minutes * 60)" by (simp only: sum)
  show ?thesis
    by (rule that [OF hour min total]) (simp_all only: hours_def minutes_def m flip: n_def)
qed

lemma parse_offset_format:
  assumes "valid_offset a"
  shows "parse_offset (format_offset a) = Inr (Some a, False)" "suffix_ok (format_offset a)"
proof -
  obtain hours minutes where hm: "hours \<le> 23" "minutes \<le> 59" "\<bar>a\<bar> = int (hours * 3600 + minutes * 60)"
    "nat \<bar>a\<bar> div 3600 = hours" "nat \<bar>a\<bar> mod 3600 div 60 = minutes" "nat \<bar>a\<bar> mod 60 = 0"
    using assms by (rule offset_split)
  define sign :: u8 where "sign = (if a < 0 then 45 else 43)"
  define t where "t = [sign] @ pad 2 hours @ [58] @ pad 2 minutes"
  have fmt: "format_offset a = t"
    using hm by (simp add: format_offset_def Let_def zero_pad_2 t_def sign_def)
  show "suffix_ok (format_offset a)" unfolding fmt
    by (simp add: suffix_ok_def t_def sign_def is_digit_def)
  have d: "digits t 1 2 = Some hours" "digits t 4 2 = Some minutes"
    using digits_at [of hours 2 "[sign]" "[58] @ pad 2 minutes"]
      digits_at [of minutes 2 "[sign] @ pad 2 hours @ [58]" "[]"] hm(1,2)
    by (simp_all add: t_def usize_max_def)
  have marks: "t ! 0 = sign" "t ! 3 = 58" "length t = 6" "t \<noteq> [90]"
    by (auto simp: t_def nth_append sign_def)
  have known: "t \<noteq> [45, 48, 48, 58, 48, 48]"
  proof
    assume t: "t = [45, 48, 48, 58, 48, 48]"
    then have "a < 0" using marks(1) by (auto simp: sign_def split: if_splits)
    moreover have "digits t 1 2 = Some 0" "digits t 4 2 = Some 0"
      by (simp_all add: t digits_def checked_add_def usize_max_def is_digit_def checked_u32_def)
    then have "hours = 0" "minutes = 0" using d by simp_all
    ultimately show False using hm(3) by simp
  qed
  have "try_i32 (int (hours * 3600 + minutes * 60)) = Some (int (hours * 3600 + minutes * 60))"
    using hm(1,2) by (simp add: try_i32_def)
  then show "parse_offset (format_offset a) = Inr (Some a, False)"
    unfolding fmt using marks d known hm(1-3) by (auto simp: parse_offset_def sign_def)
qed


lemma length_format_offset: "valid_offset a \<Longrightarrow> length (format_offset a) \<le> 6"
  by (erule offset_split) (simp add: format_offset_def Let_def zero_pad_2)

section \<open>Reading back\<close>

lemma envelope_checked_fields:
  assumes "envelope_checked source role original i r p u asm tz = Inr e"
  shows "e = \<lparr>te_source = source, te_role = role, te_original = original, te_interpretation = i,
    te_resolution = r, te_precision = p, te_uncertainty = u, te_assumptions = asm,
    te_timezone_profile = tz\<rparr>"
  using assms
  by (auto simp: envelope_checked_def rbind_eq_Inr bounded_def split: if_splits sum.splits)

lemma normalize_timestamp:
  assumes "jiff_datetime J" "datetime_ok dt" "1 \<le> dt_year dt"
    and "suffix_ok suffix" "parse_offset suffix = Inr (Some a, False)"
    and "length (format_datetime dt @ suffix) \<le> MAX_ORIGINAL_BYTES" "length asm \<le> MAX_ASSUMPTIONS"
  shows "\<exists>e. normalize J source role (Rfc3339 (format_datetime dt @ suffix)) u asm = Inr e
    \<and> te_original e = format_datetime dt @ suffix \<and> te_resolution e = resolution_at dt a"
proof -
  let ?t = "format_datetime dt @ suffix"
  have "accepted (normalize_rfc3339 J source role ?t u asm)"
    using assms(6,7) by (intro normalize_rfc3339_Inr) simp_all
  then obtain e where e: "normalize_rfc3339 J source role ?t u asm = Inr e" by (auto simp: accepted_def)
  then have "te_original e = ?t \<and> te_resolution e = resolution_at dt a"
    unfolding normalize_rfc3339_def parse_datetime_format [OF assms(1-5)]
    by (auto dest: envelope_checked_fields)
  with e assms(6,7) show ?thesis by (simp add: normalize_def preflight_original_def)
qed

lemma datetime_from_epoch_fields:
  assumes "jiff_datetime J" "datetime_from_epoch J s n = Some dt"
  shows "datetime_ok dt" "datetime_civil dt = civil_from_epoch s" "dt_nanosecond dt = int n"
  using assms
  by (auto simp: datetime_from_epoch_def jiff_datetime_def Let_def bind_eq_Some_conv datetime_civil_def
      try_i16_def try_i8_def try_i32_def split: if_splits prod.splits)

lemma datetime_from_epoch_total:
  assumes "jiff_datetime J" "MIN_EPOCH_SECONDS \<le> s" "s \<le> MAX_EPOCH_SECONDS" "n \<le> 999999999"
  obtains dt where "datetime_from_epoch J s n = Some dt" "datetime_ok dt" "1 \<le> dt_year dt"
    "datetime_civil dt = civil_from_epoch s" "dt_nanosecond dt = int n"
proof -
  obtain y m d h mi sec where civil: "civil_from_epoch s = (y, m, d, h, mi, sec)" by (metis prod_cases6)
  have valid: "valid_date y m d" "valid_time h mi sec" "1 \<le> y" "y \<le> 9999"
    using civil_from_epoch_valid [of s] civil_year_range [of s] assms(2,3)
    by (simp_all add: civil valid_civil_def)
  define dt where "dt = \<lparr>dt_year = y, dt_month = m, dt_day = d, dt_hour = h, dt_minute = mi,
    dt_second = sec, dt_nanosecond = int n\<rparr>"
  have ok: "datetime_ok dt" using valid assms(4) by (simp add: datetime_ok_def dt_def)
  then have "datetime_new J y m d h mi sec (int n) = Some dt"
    using assms(1) by (simp add: jiff_datetime_def Let_def dt_def)
  then have "datetime_from_epoch J s n = Some dt"
    using valid valid_date_bounds [OF valid(1)] assms(4)
    by (simp add: datetime_from_epoch_def civil try_small valid_time_def)
  with ok valid(3) show ?thesis
    by (intro that [of dt]) (simp_all add: dt_def datetime_civil_def civil)
qed

lemma format_utc_datetime:
  assumes "datetime_civil dt = civil_from_epoch (instant_seconds i)"
    and "dt_nanosecond dt = int (instant_nanoseconds i)"
  shows "format_utc i = Inr (format_datetime dt @ [90])"
  using assms by (auto simp: format_utc_def format_datetime_def datetime_civil_def split: prod.splits)

lemma resolution_at_epoch:
  assumes "datetime_ok dt" "- 93599 \<le> a" "a \<le> 93599" "instant_ok i"
    and "epoch_of_civil (datetime_civil dt) = instant_seconds i + a"
    and "dt_nanosecond dt = int (instant_nanoseconds i)"
  shows "resolution_at dt a = Resolved i a"
proof -
  have "instant_from_datetime_offset dt a = Some i"
    unfolding instant_from_datetime_exact [OF assms(1-3)]
    using assms(4-6) by (cases i) (simp add: instant_new_eq_Some)
  then show ?thesis by (simp add: resolution_at_def)
qed

lemma length_format_fraction: "n < 10 ^ 9 \<Longrightarrow> length (format_fraction n) \<le> 10"
proof (cases "n = 0")
  case False
  assume "n < 10 ^ 9"
  from format_fraction_pad [OF False this] obtain k m where "format_fraction n = 46 # pad k m" "k \<le> 9" by blast
  then show ?thesis by simp
qed (simp add: format_fraction_def)

lemma length_format_datetime: "datetime_ok dt \<Longrightarrow> 1 \<le> dt_year dt \<Longrightarrow> length (format_datetime dt) \<le> 29"
  using length_format_fraction [of "nat (dt_nanosecond dt)"]
  by (simp add: format_datetime_pad) (simp add: datetime_ok_def nat_less_iff)

text \<open>C21. What \<open>format_utc\<close> prints is read back: for every admitted instant the printed timestamp
  normalizes, as RFC 3339 input, to that very instant at offset zero.\<close>

theorem format_utc_read_back:
  assumes "jiff_datetime J" "instant_ok i" "length asm \<le> MAX_ASSUMPTIONS"
  shows "\<exists>t e. format_utc i = Inr t \<and> normalize J source role (Rfc3339 t) u asm = Inr e
    \<and> te_original e = t \<and> te_resolution e = Resolved i 0"
proof -
  obtain dt where dt: "datetime_ok dt" "1 \<le> dt_year dt"
      "datetime_civil dt = civil_from_epoch (instant_seconds i)"
      "dt_nanosecond dt = int (instant_nanoseconds i)"
    using assms(1,2) by (auto simp: instant_ok_def elim: datetime_from_epoch_total)
  have "resolution_at dt 0 = Resolved i 0"
    using dt assms(2) civil_from_epoch_valid by (intro resolution_at_epoch) simp_all
  moreover have "length (format_datetime dt @ [90]) \<le> MAX_ORIGINAL_BYTES"
    using length_format_datetime [OF dt(1,2)] by (simp add: MAX_ORIGINAL_BYTES_def)
  ultimately show ?thesis
    using normalize_timestamp [OF assms(1) dt(1,2) parse_offset_utc(2,1), of asm source role u]
      format_utc_datetime [OF dt(3,4)] assms(3) by auto
qed


section \<open>Presentation in a zone\<close>

lemma offsets_set: "set (offsets o') = ambiguous_offsets o'"
  by (cases o') auto

lemma try_offsets_Found:
  "try_offsets i local actuals next_offsets = Found dt a \<Longrightarrow>
   dt = local \<and> a \<in> set actuals \<and> instant_from_datetime_offset dt a = Some i"
  by (induction actuals arbitrary: next_offsets) (auto split: if_splits)

lemma try_candidates_Found:
  "try_candidates J z i candidates next_offsets = Found dt a \<Longrightarrow>
   instant_from_datetime_offset dt a = Some i \<and> a \<in> ambiguous_offsets (to_ambiguous J z dt)
   \<and> (\<exists>s. datetime_from_epoch J s (instant_nanoseconds i) = Some dt)"
proof (induction candidates arbitrary: next_offsets)
  case (Cons c cs)
  then show ?case
    by (auto simp: offsets_set split: option.splits search.splits dest!: try_offsets_Found)
qed simp

lemma search_rounds_Some:
  "search_rounds n J z i candidates = Some (dt, a) \<Longrightarrow>
   instant_from_datetime_offset dt a = Some i \<and> a \<in> ambiguous_offsets (to_ambiguous J z dt)
   \<and> (\<exists>s. datetime_from_epoch J s (instant_nanoseconds i) = Some dt)"
proof (induction n arbitrary: candidates)
  case (Suc n)
  then show ?case by (auto split: search.splits if_splits dest!: try_candidates_Found)
qed simp

lemma present_in_zone_Inr:
  assumes "present_in_zone J i zone = Inr lp"
  obtains z dt where "instant_from_datetime_offset dt (lp_offset_seconds lp) = Some i"
    and "lp_offset_seconds lp \<in> ambiguous_offsets (to_ambiguous J z dt)"
    and "\<exists>s. datetime_from_epoch J s (instant_nanoseconds i) = Some dt"
    and "lp_text lp = format_datetime dt @ format_offset (lp_offset_seconds lp) @ 91 # lp_zone lp @ [93]"
  using assms
  by (auto simp: present_in_zone_def rbind_eq_Inr local_datetime_for_instant_def bind_eq_Some_conv
      dest!: search_rounds_Some) blast

text \<open>C22. A local presentation shows the instant it was made from.  Its text is a date, a time and an
  offset followed by the zone name in brackets, and the date and time are the instant shifted by
  that offset, for every offset a zone may have.  When the offset is one an RFC 3339 timestamp can
  carry (whole minutes, less than a day) and the local year is at least 1, normalizing the part
  before the bracket gives the instant back; the bracketed zone name is not read.\<close>

theorem present_in_zone_read_back:
  assumes "jiff_datetime J" "jiff_offsets J" "instant_ok i" "length asm \<le> MAX_ASSUMPTIONS"
    and "present_in_zone J i zone = Inr lp"
  shows "\<exists>dt t. lp_text lp = t @ 91 # lp_zone lp @ [93]
    \<and> t = format_datetime dt @ format_offset (lp_offset_seconds lp)
    \<and> epoch_of_civil (datetime_civil dt) = instant_seconds i + lp_offset_seconds lp
    \<and> dt_nanosecond dt = int (instant_nanoseconds i)
    \<and> (valid_offset (lp_offset_seconds lp)
         \<and> 1 \<le> fst (civil_from_epoch (instant_seconds i + lp_offset_seconds lp)) \<longrightarrow>
       (\<exists>e. normalize J source role (Rfc3339 t) u asm = Inr e
          \<and> te_resolution e = Resolved i (lp_offset_seconds lp)))"
proof -
  let ?a = "lp_offset_seconds lp"
  obtain z dt s where p: "instant_from_datetime_offset dt ?a = Some i"
      "?a \<in> ambiguous_offsets (to_ambiguous J z dt)"
      "datetime_from_epoch J s (instant_nanoseconds i) = Some dt"
      "lp_text lp = format_datetime dt @ format_offset ?a @ 91 # lp_zone lp @ [93]"
    using assms(5) by (elim present_in_zone_Inr exE) blast
  have a: "- 93599 \<le> ?a" "?a \<le> 93599" using assms(2) p(2) by (auto simp: jiff_offsets_def)
  note dt = datetime_from_epoch_fields [OF assms(1) p(3)]
  have epoch: "epoch_of_civil (datetime_civil dt) = instant_seconds i + ?a"
    using p(1) unfolding instant_from_datetime_exact [OF dt(1) a] by (auto simp: instant_new_eq_Some)
  have "\<exists>e. normalize J source role (Rfc3339 (format_datetime dt @ format_offset ?a)) u asm = Inr e
      \<and> te_resolution e = Resolved i ?a"
    if valid: "valid_offset ?a" and local: "1 \<le> fst (civil_from_epoch (instant_seconds i + ?a))"
  proof -
    have "civil_from_epoch (instant_seconds i + ?a) = datetime_civil dt"
      using epoch dt(2) civil_from_epoch_valid [of s] by simp
    then have year: "1 \<le> dt_year dt" using local by (simp add: datetime_civil_def)
    have "length (format_datetime dt @ format_offset ?a) \<le> MAX_ORIGINAL_BYTES"
      using length_format_datetime [OF dt(1) year] length_format_offset [OF valid]
      by (simp add: MAX_ORIGINAL_BYTES_def)
    from normalize_timestamp [OF assms(1) dt(1) year parse_offset_format(2,1) [OF valid] this assms(4)]
    obtain e where "normalize J source role (Rfc3339 (format_datetime dt @ format_offset ?a)) u asm = Inr e"
        "te_resolution e = resolution_at dt ?a" by blast
    moreover have "resolution_at dt ?a = Resolved i ?a" using p(1) by (simp add: resolution_at_def)
    ultimately show ?thesis by auto
  qed
  then show ?thesis using p(4) epoch dt(3)
    by (intro exI [of _ dt] exI [of _ "format_datetime dt @ format_offset ?a"]) simp
qed

text \<open>A database with one fixed zone, one hour east of Greenwich, for the examples.\<close>

definition example_jiff :: "unit jiff" where
  "example_jiff =
     \<lparr>datetime_new = (\<lambda>y mo d h mi s n.
        let dt = \<lparr>dt_year = y, dt_month = mo, dt_day = d, dt_hour = h, dt_minute = mi, dt_second = s,
                  dt_nanosecond = n\<rparr>
        in if datetime_ok dt then Some dt else None),
      tzdb_version = Some TZDB_VERSION, tzdb_available = [ascii ''Etc/East''],
      tzdb_get = (\<lambda>zone. if zone = ascii ''Etc/East'' then Some (zone, []) else None),
      tzif = (\<lambda>_ _. Some ()), to_ambiguous = (\<lambda>_ _. Unambiguous 3600)\<rparr>"

lemma example_jiff_ok: "jiff_datetime example_jiff" "jiff_offsets example_jiff"
  by (simp_all add: example_jiff_def jiff_datetime_def jiff_offsets_def)

definition example_source :: source_descriptor where
  "example_source =
     \<lparr>sd_artifact = RecordRef (NamespaceRef (replicate 16 1) (replicate 16 2)) (replicate 16 3),
      sd_artifact_version = 1, sd_locator = []\<rparr>"

theorem format_utc_read_back_witness:
  "\<exists>t e. format_utc (UtcInstant 951868799 120000000) = Inr t
     \<and> normalize example_jiff example_source Received (Rfc3339 t) UncertaintyUnknown [] = Inr e
     \<and> te_original e = t \<and> te_resolution e = Resolved (UtcInstant 951868799 120000000) 0"
  by (rule format_utc_read_back [OF example_jiff_ok(1)])
    (simp_all add: instant_ok_def MIN_EPOCH_SECONDS_def MAX_EPOCH_SECONDS_def)

lemma present_in_zone_first_round:
  assumes "jiff_datetime J" "instant_ok i" "length zone \<le> MAX_ZONE_BYTES"
    and "tzdb_get J zone = Some (canonical, data)" "tzif J canonical data = Some z"
    and "\<forall>dt. to_ambiguous J z dt = Unambiguous a" "- 93599 \<le> a" "a \<le> 93599"
    and "MIN_EPOCH_SECONDS \<le> instant_seconds i + a" "instant_seconds i + a \<le> MAX_EPOCH_SECONDS"
  shows "\<exists>dt. present_in_zone J i zone = Inr
    \<lparr>lp_text = format_datetime dt @ format_offset a @ 91 # canonical @ [93], lp_zone = canonical,
     lp_offset_seconds = a, lp_timezone_profile = PINNED\<rparr>
    \<and> datetime_civil dt = civil_from_epoch (instant_seconds i + a)"
proof -
  obtain utc where utc: "datetime_from_epoch J (instant_seconds i) (instant_nanoseconds i) = Some utc"
    using assms(1,2) by (auto simp: instant_ok_def elim: datetime_from_epoch_total)
  obtain dt where dt: "datetime_from_epoch J (instant_seconds i + a) (instant_nanoseconds i) = Some dt"
      "datetime_ok dt" "datetime_civil dt = civil_from_epoch (instant_seconds i + a)"
      "dt_nanosecond dt = int (instant_nanoseconds i)"
    using assms(1,2,9,10) by (auto simp: instant_ok_def elim: datetime_from_epoch_total)
  have "instant_from_datetime_offset dt a = Some i"
    unfolding instant_from_datetime_exact [OF dt(2) assms(7,8)]
    using dt(3,4) assms(2) civil_from_epoch_valid by (cases i) (simp add: instant_new_eq_Some)
  moreover have "checked_i64 (instant_seconds i + a) = Some (instant_seconds i + a)"
    using assms(9,10) by (simp add: checked_i64_def MIN_EPOCH_SECONDS_def MAX_EPOCH_SECONDS_def)
  ultimately have "local_datetime_for_instant J z i = Some (dt, a)"
    using utc dt(1) assms(6) by (simp add: local_datetime_for_instant_def numeral_eq_Suc)
  then show ?thesis
    using assms(3-5) dt(3) by (intro exI [of _ dt]) (simp add: present_in_zone_def)
qed

text \<open>C23. Presentation in a zone with a fixed offset always succeeds, as long as the local time is in
  the calendar: the search over candidate offsets ends in its first round, with the offset of
  the zone and the civil time of the instant shifted by it.\<close>

theorem present_in_fixed_zone:
  assumes "jiff_datetime J" "instant_ok i" "length zone \<le> MAX_ZONE_BYTES"
    and "tzdb_get J zone = Some (canonical, data)" "tzif J canonical data = Some z"
    and "\<forall>dt. to_ambiguous J z dt = Unambiguous a" "- 93599 \<le> a" "a \<le> 93599"
    and "MIN_EPOCH_SECONDS \<le> instant_seconds i + a" "instant_seconds i + a \<le> MAX_EPOCH_SECONDS"
  shows "\<exists>lp dt. present_in_zone J i zone = Inr lp \<and> lp_offset_seconds lp = a \<and> lp_zone lp = canonical
    \<and> lp_text lp = format_datetime dt @ format_offset a @ 91 # canonical @ [93]
    \<and> datetime_civil dt = civil_from_epoch (instant_seconds i + a)"
  using present_in_zone_first_round [OF assms] by auto

theorem present_in_fixed_zone_witness:
  "\<exists>lp dt. present_in_zone example_jiff (UtcInstant 951868799 0) (ascii ''Etc/East'') = Inr lp
     \<and> lp_offset_seconds lp = 3600 \<and> lp_zone lp = ascii ''Etc/East''
     \<and> lp_text lp = format_datetime dt @ format_offset 3600 @ 91 # ascii ''Etc/East'' @ [93]
     \<and> datetime_civil dt = civil_from_epoch (951868799 + 3600)"
  using present_in_fixed_zone [OF example_jiff_ok(1), of "UtcInstant 951868799 0" "ascii ''Etc/East''"
      "ascii ''Etc/East''" "[]" "()" 3600]
  by (simp add: example_jiff_def instant_ok_def MIN_EPOCH_SECONDS_def MAX_EPOCH_SECONDS_def MAX_ZONE_BYTES_def)

theorem present_in_zone_read_back_witness:
  "\<exists>lp t e. present_in_zone example_jiff (UtcInstant 951868799 0) (ascii ''Etc/East'') = Inr lp
     \<and> lp_text lp = t @ 91 # lp_zone lp @ [93]
     \<and> normalize example_jiff example_source Received (Rfc3339 t) UncertaintyUnknown [] = Inr e
     \<and> te_resolution e = Resolved (UtcInstant 951868799 0) (lp_offset_seconds lp)"
proof -
  have ok: "instant_ok (UtcInstant 951868799 0)"
    by (simp add: instant_ok_def MIN_EPOCH_SECONDS_def MAX_EPOCH_SECONDS_def)
  obtain dt where lp: "present_in_zone example_jiff (UtcInstant 951868799 0) (ascii ''Etc/East'') = Inr
      \<lparr>lp_text = format_datetime dt @ format_offset 3600 @ 91 # ascii ''Etc/East'' @ [93],
       lp_zone = ascii ''Etc/East'', lp_offset_seconds = 3600, lp_timezone_profile = PINNED\<rparr>"
    using present_in_zone_first_round [OF example_jiff_ok(1) ok, of "ascii ''Etc/East''"
        "ascii ''Etc/East''" "[]" "()" 3600]
    by (auto simp: example_jiff_def MIN_EPOCH_SECONDS_def MAX_EPOCH_SECONDS_def MAX_ZONE_BYTES_def)
  have "1 \<le> fst (civil_from_epoch (951868799 + 3600))"
    using civil_year_range [of "951868799 + 3600"]
    by (simp add: MIN_EPOCH_SECONDS_def MAX_EPOCH_SECONDS_def)
  then show ?thesis
    using present_in_zone_read_back [OF example_jiff_ok ok _ lp, of "[]" example_source Received
        UncertaintyUnknown] lp
    by (auto simp: valid_offset_def)
qed

theorem normalize_total_witness:
  "accepted (normalize example_jiff example_source Received (DateOnly (ascii ''2024-02-30''))
     UncertaintyUnknown [])"
  using normalize_total [OF example_jiff_ok(2), of example_source Received
      "DateOnly (ascii ''2024-02-30'')" UncertaintyUnknown "[]"]
  by (simp add: input_admitted_def MAX_ORIGINAL_BYTES_def)

text \<open>C24. A numeric timestamp denotes its value exactly: in every unit the resolved instant counts the
  same nanoseconds since the epoch as the value does, negative values included, and the value is
  out of range exactly when no admitted instant does.\<close>

theorem normalize_numeric_exact:
  assumes "length token \<le> MAX_ORIGINAL_BYTES" "length asm \<le> MAX_ASSUMPTIONS"
  shows "\<exists>e. normalize J source role (Numeric token v (Some unit) PosixUtc) u asm = Inr e
    \<and> (\<forall>i a. te_resolution e = Resolved i a \<longleftrightarrow>
          a = 0 \<and> instant_ok i \<and> total_nanoseconds i = v * unit_nanoseconds unit)
    \<and> (te_resolution e = Invalid OutOfRange \<longleftrightarrow>
          (\<forall>i. instant_ok i \<longrightarrow> total_nanoseconds i \<noteq> v * unit_nanoseconds unit))"
proof -
  obtain e where e: "normalize_numeric source role token v (Some unit) PosixUtc u asm = Inr e"
    using normalize_numeric_Inr [OF assms(2,1)] unfolding accepted_def by blast
  have r: "te_resolution e = (case numeric_instant v unit of Some i \<Rightarrow> Resolved i 0 | None \<Rightarrow> Invalid OutOfRange)"
    using e unfolding normalize_numeric_def by (auto dest: envelope_checked_fields)
  have "te_resolution e = Resolved i a \<longleftrightarrow> a = 0 \<and> numeric_instant v unit = Some i" for i a
    unfolding r by (auto split: option.splits)
  moreover have "te_resolution e = Invalid OutOfRange \<longleftrightarrow> (\<forall>i. numeric_instant v unit \<noteq> Some i)"
    unfolding r by (auto split: option.splits)
  ultimately show ?thesis
    using e assms unfolding numeric_instant_exact
    by (intro exI [of _ e]) (simp add: normalize_def preflight_original_def)
qed

theorem normalize_numeric_exact_witness:
  "\<exists>e. normalize example_jiff example_source Received (Numeric (ascii ''-1500'') (- 1500) (Some Milliseconds) PosixUtc)
      UncertaintyUnknown [] = Inr e
    \<and> te_resolution e = Resolved (UtcInstant (- 2) 500000000) 0"
proof -
  obtain e where e: "normalize example_jiff example_source Received
      (Numeric (ascii ''-1500'') (- 1500) (Some Milliseconds) PosixUtc) UncertaintyUnknown [] = Inr e"
    and "\<forall>i a. te_resolution e = Resolved i a \<longleftrightarrow>
      a = 0 \<and> instant_ok i \<and> total_nanoseconds i = - 1500 * unit_nanoseconds Milliseconds"
    using normalize_numeric_exact [of "ascii ''-1500''" "[]" example_jiff example_source Received "- 1500"
        Milliseconds UncertaintyUnknown] by (auto simp: MAX_ORIGINAL_BYTES_def)
  then have "te_resolution e = Resolved (UtcInstant (- 2) 500000000) 0"
    by (simp add: total_nanoseconds_def instant_ok_def MIN_EPOCH_SECONDS_def MAX_EPOCH_SECONDS_def)
  with e show ?thesis by blast
qed

end
