(* ===== verification/Time_Stored.thy ===== *)
theory Time_Stored
  imports Time_Codec Time_Readback
begin

text \<open>
  Complete stored envelopes: the byte codec of \<open>uste-time/src/codec.rs\<close> accepts exactly the
  encodings of the envelopes that pass the consistency check.
\<close>

section \<open>Admissible envelopes\<close>

text \<open>
  What the types and the private constructors of the crate guarantee of an envelope: machine
  integers and UTF-8 text in its parts, and the consistency check of \<open>TimestampEnvelope::checked\<close>.
\<close>

definition check_again :: "timestamp_envelope \<Rightarrow> time_error + timestamp_envelope" where
  "check_again e =
     envelope_checked (te_source e) (te_role e) (te_original e) (te_interpretation e)
       (te_resolution e) (te_precision e) (te_uncertainty e) (te_assumptions e) (te_timezone_profile e)"

definition envelope_ok :: "timestamp_envelope \<Rightarrow> bool" where
  "envelope_ok e \<longleftrightarrow>
     source_ok (te_source e) \<and> utf8_valid (te_original e) \<and> interpretation_ok (te_interpretation e)
       \<and> resolution_ok (te_resolution e) \<and> precision_typed (te_precision e)
       \<and> uncertainty_typed (te_uncertainty e) \<and> list_all assumption_ok (te_assumptions e)
       \<and> check_again e = Inr e"

lemma check_again_bounds:
  assumes "check_again e = Inr e"
  shows "length (te_assumptions e) \<le> MAX_ASSUMPTIONS" "timezone_ok (te_timezone_profile e)"
    "length (te_original e) \<le> MAX_ORIGINAL_BYTES"
proof -
  note checked = assms [unfolded check_again_def envelope_checked_def]
  show "length (te_assumptions e) \<le> MAX_ASSUMPTIONS"
    using checked by (rule contrapos_pp) simp
  have "te_timezone_profile e = None \<or> te_timezone_profile e = Some PINNED"
  proof (cases "te_timezone_profile e")
    case (Some profile)
    with checked show ?thesis by (cases "profile = PINNED") simp_all
  qed simp
  then show "timezone_ok (te_timezone_profile e)" by (simp add: timezone_ok_def)
  show "length (te_original e) \<le> MAX_ORIGINAL_BYTES"
    using checked by (auto simp: rbind_eq_Inr bounded_iff split: if_splits)
qed

lemma envelope_parts_ok:
  assumes "envelope_ok e"
  shows "source_ok (te_source e)" "interpretation_ok (te_interpretation e)"
    "resolution_ok (te_resolution e)" "precision_typed (te_precision e)"
    "uncertainty_typed (te_uncertainty e)" "assumptions_ok (te_assumptions e)"
    "timezone_ok (te_timezone_profile e)" "string_ok (te_original e)"
    "length (te_original e) \<le> MAX_ORIGINAL_BYTES" "check_again e = Inr e"
  using assms check_again_bounds [of e]
  by (simp_all add: envelope_ok_def assumptions_ok_def string_ok_def time_limits value_limits)

section \<open>The value of an envelope\<close>

definition envelope_entries :: "timestamp_envelope \<Rightarrow> (string \<times> val) list" where
  "envelope_entries e =
     [(''assumptions'', projr (encode_assumptions (te_assumptions e))),
      (''calendar_profile'', VString CALENDAR_PROFILE),
      (''envelope_profile'', VString ENVELOPE_PROFILE),
      (''interpretation'', projr (encode_interpretation (te_interpretation e))),
      (''normalization_profile'', VString NORMALIZATION_PROFILE),
      (''original'', VString (te_original e)),
      (''parser_profile'', VString PARSER_PROFILE),
      (''precision'', projr (encode_precision (te_precision e))),
      (''resolution'', projr (encode_resolution (te_resolution e))),
      (''role'', VString (role_name (te_role e))),
      (''source'', projr (encode_source (te_source e))),
      (''timezone_profile'', projr (encode_timezone (te_timezone_profile e))),
      (''uncertainty'', projr (encode_clock_uncertainty (te_uncertainty e)))]"

lemma envelope_keys:
  "plain_keys [''assumptions'', ''calendar_profile'', ''envelope_profile'', ''interpretation'',
     ''normalization_profile'', ''original'', ''parser_profile'', ''precision'', ''resolution'', ''role'',
     ''source'', ''timezone_profile'', ''uncertainty'']"
  by (simp add: plain_keys_def plain_key_def ascii_def)

lemma profile_names:
  "name_ok CALENDAR_PROFILE" "name_ok ENVELOPE_PROFILE" "name_ok NORMALIZATION_PROFILE"
  "name_ok PARSER_PROFILE"
  by (simp_all add: name_ok_ascii plain_key_def CALENDAR_PROFILE_def ENVELOPE_PROFILE_def
      NORMALIZATION_PROFILE_def PARSER_PROFILE_def)

lemma part_fits:
  assumes "envelope_ok e"
  shows "list_all (val_in 2 49 40000) (map snd (envelope_entries e))"
proof -
  note ok = envelope_parts_ok [OF assms]
  have "val_in 2 49 40000 (VString (te_original e))"
    using ok by (intro val_in_string) (simp_all add: time_limits)
  then show ?thesis
    using ok assumptions_codec.written_in [OF ok(6)]
      val_in_mono [OF interpretation_codec.written_in [OF ok(2)]]
      val_in_mono [OF precision_codec.written_in [OF ok(4)]]
      val_in_mono [OF resolution_codec.written_in [OF ok(3)]]
      val_in_mono [OF source_codec.written_in [OF ok(1)]]
      val_in_mono [OF timezone_codec.written_in [OF ok(7)]]
      val_in_mono [OF uncertainty_codec.written_in [OF ok(5)]]
    by (simp add: envelope_entries_def val_in_name profile_names plain_names)
qed

lemma envelope_to_value_eq:
  assumes "envelope_ok e"
  shows "envelope_to_value e = Inr (VMap (named (envelope_entries e)))
    \<and> val_in 3 638 530000 (VMap (named (envelope_entries e)))"
proof -
  note ok = envelope_parts_ok [OF assms]
  have "time_text (te_original e) = Inr (VString (te_original e))"
    using ok by (intro time_text_eq) (simp add: string_ok_def)
  then have "envelope_to_value e = map_value TResourceLimit (envelope_entries e)"
    unfolding envelope_to_value_def
    by (simp add: envelope_entries_def time_text_eq profile_names plain_names name_bounds(2) time_map_def
        assumptions_codec.rbind_written [OF ok(6)] interpretation_codec.rbind_written [OF ok(2)]
        precision_codec.rbind_written [OF ok(4)] resolution_codec.rbind_written [OF ok(3)]
        source_codec.rbind_written [OF ok(1)] timezone_codec.rbind_written [OF ok(7)]
        uncertainty_codec.rbind_written [OF ok(5)])
  moreover have "map_value TResourceLimit (envelope_entries e) = Inr (VMap (named (envelope_entries e)))
      \<and> val_in (Suc 2) 638 530000 (VMap (named (envelope_entries e)))"
    by (rule record_encodes [OF _ part_fits [OF assms]])
      (use envelope_keys in \<open>auto simp: envelope_entries_def value_limits\<close>)
  ultimately show ?thesis by simp
qed

lemma expect_text_iff: "expect_text v s = Inr u \<longleftrightarrow> v = VString s"
  by (auto simp: expect_text_def rbind_eq_Inr take_text_iff)

lemma expect_text_back: "expect_text (VString s) s = Inr ()"
  by (simp add: expect_text_def take_simps)

lemma envelope_read_back:
  assumes "envelope_ok e"
  shows "envelope_from_value (VMap (named (envelope_entries e))) = Inr e"
proof -
  note ok = envelope_parts_ok [OF assms]
  show ?thesis
    unfolding envelope_from_value_def envelope_entries_def
    using envelope_keys ok(10) [unfolded check_again_def]
    by (simp add: read_named expect_text_back assumptions_codec.written_read [OF ok(6)]
        interpretation_codec.written_read [OF ok(2)] precision_codec.written_read [OF ok(4)]
        resolution_codec.written_read [OF ok(3)] source_codec.written_read [OF ok(1)]
        timezone_codec.written_read [OF ok(7)] uncertainty_codec.written_read [OF ok(5)])
qed

lemma check_again_same:
  assumes "envelope_checked source role original i r p u asm tz = Inr e"
  shows "check_again e = Inr e" "te_source e = source" "te_role e = role" "te_original e = original"
    "te_interpretation e = i" "te_resolution e = r" "te_precision e = p" "te_uncertainty e = u"
    "te_assumptions e = asm" "te_timezone_profile e = tz"
  using envelope_checked_fields [OF assms] assms by (simp_all add: check_again_def)

lemma envelope_fields_read:
  assumes wf: "value_wf v" and dec: "envelope_from_value v = Inr e"
  obtains fs va vi vp vr vs vt vu where "v = VMap fs"
    and "list_all (\<lambda>(key, v). bm_get fs (ascii key) = Some v)
      [(''assumptions'', va), (''calendar_profile'', VString CALENDAR_PROFILE),
       (''envelope_profile'', VString ENVELOPE_PROFILE), (''interpretation'', vi),
       (''normalization_profile'', VString NORMALIZATION_PROFILE),
       (''original'', VString (te_original e)), (''parser_profile'', VString PARSER_PROFILE),
       (''precision'', vp), (''resolution'', vr), (''role'', VString (role_name (te_role e))),
       (''source'', vs), (''timezone_profile'', vt), (''uncertainty'', vu)]"
    and "only_fields fs
      [''calendar_profile'', ''envelope_profile'', ''normalization_profile'', ''parser_profile'',
       ''assumptions'', ''interpretation'', ''original'', ''precision'', ''resolution'', ''role'',
       ''source'', ''timezone_profile'', ''uncertainty'']"
    and "decode_assumptions va = Inr (te_assumptions e)"
    and "decode_interpretation vi = Inr (te_interpretation e)"
    and "decode_precision vp = Inr (te_precision e)" "decode_resolution vr = Inr (te_resolution e)"
    and "decode_source vs = Inr (te_source e)" "decode_timezone vt = Inr (te_timezone_profile e)"
    and "decode_clock_uncertainty vu = Inr (te_uncertainty e)" "check_again e = Inr e"
proof -
  show thesis
    using dec unfolding envelope_from_value_def
    by (auto simp: rbind_eq_Inr fields_new_iff [OF wf] field_take_iff take_text_iff expect_text_iff
        name_iffs(1) taken_simps check_again_same intro!: that)
qed

lemma envelope_from_value_inv:
  assumes wf: "value_wf v" and dec: "envelope_from_value v = Inr e"
  shows "envelope_ok e \<and> v = VMap (named (envelope_entries e))"
  using envelope_fields_read [OF assms]
proof cases
  case (1 fs va vi vp vr vs vt vu)
  let ?es = "[(''assumptions'', va), (''calendar_profile'', VString CALENDAR_PROFILE),
       (''envelope_profile'', VString ENVELOPE_PROFILE), (''interpretation'', vi),
       (''normalization_profile'', VString NORMALIZATION_PROFILE),
       (''original'', VString (te_original e)), (''parser_profile'', VString PARSER_PROFILE),
       (''precision'', vp), (''resolution'', vr), (''role'', VString (role_name (te_role e))),
       (''source'', vs), (''timezone_profile'', vt), (''uncertainty'', vu)]"
  have exact: "fs = named ?es \<and> list_all value_wf (map snd ?es)"
  proof (rule taken_named [OF _ _ 1(2,3)])
    show "value_wf (VMap fs)" using wf 1(1) by simp
    show "plain_keys (map fst ?es)" using envelope_keys by simp
  qed auto
  have "assumptions_ok (te_assumptions e) \<and> va = projr (encode_assumptions (te_assumptions e))"
    using exact 1(4) by (intro assumptions_codec.read_written) simp_all
  moreover have "interpretation_ok (te_interpretation e)
      \<and> vi = projr (encode_interpretation (te_interpretation e))"
    using exact 1(5) by (intro interpretation_codec.read_written) simp_all
  moreover have "precision_typed (te_precision e) \<and> vp = projr (encode_precision (te_precision e))"
    using exact 1(6) by (intro precision_codec.read_written) simp_all
  moreover have "resolution_ok (te_resolution e) \<and> vr = projr (encode_resolution (te_resolution e))"
    using exact 1(7) by (intro resolution_codec.read_written) simp_all
  moreover have "source_ok (te_source e) \<and> vs = projr (encode_source (te_source e))"
    using exact 1(8) by (intro source_codec.read_written) simp_all
  moreover have "timezone_ok (te_timezone_profile e)
      \<and> vt = projr (encode_timezone (te_timezone_profile e))"
    using exact 1(9) by (intro timezone_codec.read_written) simp_all
  moreover have "uncertainty_typed (te_uncertainty e)
      \<and> vu = projr (encode_clock_uncertainty (te_uncertainty e))"
    using exact 1(10) by (intro uncertainty_codec.read_written) simp_all
  ultimately show ?thesis
    using exact 1(1,11)
    by (simp add: envelope_ok_def envelope_entries_def assumptions_ok_def string_ok_def)
qed

interpretation envelope_codec:
  value_codec envelope_to_value envelope_from_value envelope_ok 3 638 530000
  by (rule value_codecI [where entries = envelope_entries])
    (simp_all add: envelope_to_value_eq envelope_read_back envelope_from_value_inv)

lemma encode_envelope_iff:
  "encode_envelope reserve e = Inr bs \<longleftrightarrow> (\<exists>v. envelope_to_value e = Inr v \<and> encode_value reserve v = Inr bs)"
  by (simp add: encode_envelope_def rbind_eq_Inr map_err_eq_Inr)

lemma decode_envelope_iff:
  "decode_envelope alloc bs = Inr e \<longleftrightarrow>
     (\<exists>v. decode_value alloc bs = Inr v \<and> envelope_from_value v = Inr e)"
  by (simp add: decode_envelope_def rbind_eq_Inr map_err_eq_Inr)

section \<open>Property\<close>

text \<open>
  C25.  The stored form of an envelope is exact: every admissible envelope is encoded, in fewer than
  600000 bytes, and a byte string decodes to an envelope exactly when that envelope is admissible
  and the byte string is its encoding.  So stored interpretations are read back unchanged, no two
  byte strings denote the same envelope, and no envelope that fails the consistency check can be
  read from storage.
\<close>

theorem stored_envelope_exact:
  assumes "length bs \<le> usize_max"
  shows "(decode_envelope granted bs = Inr e \<longleftrightarrow>
      envelope_ok e \<and> encode_envelope (\<lambda>_. True) e = Inr bs)
    \<and> (envelope_ok e \<longrightarrow> (\<exists>bs. encode_envelope (\<lambda>_. True) e = Inr bs \<and> length bs < 600000))"
proof
  show "decode_envelope granted bs = Inr e \<longleftrightarrow> envelope_ok e \<and> encode_envelope (\<lambda>_. True) e = Inr bs"
    unfolding decode_envelope_iff encode_envelope_iff
    by (rule envelope_codec.framed [OF _ _ _ assms]) (simp_all add: value_limits MAX_VALUE_PAYLOAD_def)
  show "envelope_ok e \<longrightarrow> (\<exists>bs. encode_envelope (\<lambda>_. True) e = Inr bs \<and> length bs < 600000)"
  proof
    assume "envelope_ok e"
    then obtain v bs where "envelope_to_value e = Inr v" "encode_value (\<lambda>_. True) v = Inr bs"
        "length bs \<le> 530000 + 26"
      by (rule envelope_codec.framed_total [rotated 3]) (simp_all add: value_limits MAX_VALUE_PAYLOAD_def)
    then have "encode_envelope (\<lambda>_. True) e = Inr bs" "length bs < 600000"
      by (auto simp: encode_envelope_iff)
    then show "\<exists>bs. encode_envelope (\<lambda>_. True) e = Inr bs \<and> length bs < 600000" by blast
  qed
qed

definition example_artifact :: record_ref where
  "example_artifact = RecordRef (NamespaceRef (replicate 16 1) (replicate 16 2)) (replicate 16 3)"

definition example_envelope :: timestamp_envelope where
  "example_envelope =
     \<lparr>te_source = \<lparr>sd_artifact = example_artifact, sd_artifact_version = 1, sd_locator = ascii ''row 7''\<rparr>,
      te_role = SourceEvent, te_original = ascii ''1700000000'',
      te_interpretation = \<lparr>ti_scale = PosixUtc, ti_epoch_unit = Some Seconds, ti_supplied_offset = None,
        ti_zone = None, ti_fold = None\<rparr>,
      te_resolution = Resolved (UtcInstant 1700000000 0) 0, te_precision = EpochUnit Seconds,
      te_uncertainty = BoundedNanoseconds 5 5, te_assumptions = [], te_timezone_profile = None\<rparr>"

lemma example_artifact_ok: "record_ref_ok example_artifact"
  by (simp add: example_artifact_def record_ref_ok_def namespace_ref_ok_def identity_ok_def)

lemma example_envelope_ok: "envelope_ok example_envelope"
proof -
  have "utf8_valid (ascii s)" if "plain_key s" for s
    using plain_key_ok [OF that] by (simp add: string_ok_def)
  then have "utf8_valid (ascii ''row 7'')" "utf8_valid (ascii ''1700000000'')"
    by (simp_all add: plain_key_def)
  moreover have "check_again example_envelope = Inr example_envelope"
    by (simp add: check_again_def example_envelope_def envelope_checked_def semantic_shape_matches_def
        bounded_def check_inline_length_def time_limits value_limits empty_interpretation_def)
  ultimately show ?thesis
    by (simp add: envelope_ok_def example_envelope_def source_ok_def interpretation_ok_def
        example_artifact_ok instant_ok_def MIN_EPOCH_SECONDS_def MAX_EPOCH_SECONDS_def
        time_limits value_limits)
qed

theorem stored_envelope_exact_witness:
  "\<exists>bs. encode_envelope (\<lambda>_. True) example_envelope = Inr bs
     \<and> decode_envelope granted bs = Inr example_envelope"
proof -
  obtain bs where bs: "encode_envelope (\<lambda>_. True) example_envelope = Inr bs" "length bs < 600000"
    using stored_envelope_exact [of "[]" example_envelope] example_envelope_ok by auto
  then have "length bs \<le> usize_max" by (simp add: usize_max_def)
  from stored_envelope_exact [OF this, of example_envelope] bs example_envelope_ok show ?thesis by auto
qed

end
