(* ===== verification/Spatial_Codec.thy ===== *)
theory Spatial_Codec
  imports Spatial_Model Time_Stored
begin

text \<open>
  The stored form of spatial records, \<open>uste-spatial/src/codec.rs\<close>: canonical maps with a profile,
  a schema version and a kind, read back field by field and through the checking constructors.
  \<open>reserve\<close> answers the reservations of the encoder.
\<close>

definition SPATIAL_PROFILE :: bytes where "SPATIAL_PROFILE = ascii ''uste-spatial-record-v1''"
definition SCHEMA_VERSION :: u128 where "SCHEMA_VERSION = 1"

section \<open>Fields\<close>

definition spatial_map :: "(nat \<Rightarrow> bool) \<Rightarrow> (string \<times> val) list \<Rightarrow> spatial_error + val" where
  "spatial_map reserve entries =
     rbind (ensure (reserve (length entries)) SResourceLimit) (\<lambda>_.
     map_value SResourceLimit entries)"

definition spatial_text :: "bytes \<Rightarrow> spatial_error + val" where
  "spatial_text s = text_value SResourceLimit s"

definition spatial_bytes :: "bytes \<Rightarrow> spatial_error + val" where
  "spatial_bytes bs = map_err (\<lambda>_. SResourceLimit) (bytes_new bs)"

definition spatial_fields :: "val \<Rightarrow> spatial_error + fields" where
  "spatial_fields v = fields_new SInvalidEncoding v"

definition spatial_take :: "string \<Rightarrow> fields \<Rightarrow> spatial_error + val \<times> fields" where
  "spatial_take key fs = field_take SInvalidEncoding key fs"

definition spatial_finish :: "fields \<Rightarrow> spatial_error + unit" where
  "spatial_finish fs = field_finish SInvalidEncoding fs"

definition take_optional_record :: "val \<Rightarrow> spatial_error + record_ref option" where
  "take_optional_record v =
     (case v of VNull \<Rightarrow> Inr None | VRecordRef r \<Rightarrow> Inr (Some r) | _ \<Rightarrow> Inl SInvalidEncoding)"

definition take_u128 :: "val \<Rightarrow> spatial_error + u128" where
  "take_u128 v = (case v of VUnsigned n \<Rightarrow> Inr n | _ \<Rightarrow> Inl SInvalidEncoding)"

definition take_i128 :: "val \<Rightarrow> spatial_error + int" where
  "take_i128 v = (case v of VSigned i \<Rightarrow> Inr i | _ \<Rightarrow> Inl SInvalidEncoding)"

definition take_id :: "val \<Rightarrow> spatial_error + identity" where
  "take_id v =
     (case v of VBytes bs \<Rightarrow> if length bs = 16 then Inr bs else Inl SInvalidEncoding
      | _ \<Rightarrow> Inl SInvalidEncoding)"

definition expect_spatial_text :: "val \<Rightarrow> bytes \<Rightarrow> spatial_error + unit" where
  "expect_spatial_text v expected =
     rbind (take_text SInvalidEncoding v) (\<lambda>s. ensure (s = expected) SUnsupportedProfile)"

definition encode_version :: "spatial_version \<Rightarrow> val" where
  "encode_version v = VUnsigned (word_of_nat v)"

definition decode_version :: "val \<Rightarrow> spatial_error + spatial_version" where
  "decode_version v =
     rbind (take_u64 SInvalidEncoding v) (\<lambda>n. map_err from_primitive (version_new n))"

definition coordinate_name :: "coordinate_system \<Rightarrow> bytes" where
  "coordinate_name k =
     (case k of
        GeographicWgs84 \<Rightarrow> ascii ''wgs84_lon_lat''
      | LocalCartesian2 \<Rightarrow> ascii ''local_cartesian_2''
      | LocalCartesian3 \<Rightarrow> ascii ''local_cartesian_3'')"

definition decode_coordinate :: "bytes \<Rightarrow> spatial_error + coordinate_system" where
  "decode_coordinate s =
     (if s = ascii ''wgs84_lon_lat'' then Inr GeographicWgs84
      else if s = ascii ''local_cartesian_2'' then Inr LocalCartesian2
      else if s = ascii ''local_cartesian_3'' then Inr LocalCartesian3
      else Inl SInvalidEncoding)"

text \<open>\<open>i64::try_from\<close> on a 128-bit integer.\<close>

definition try_i64 :: "int \<Rightarrow> spatial_error + int" where
  "try_i64 i = (if - (2 ^ 63) \<le> i \<and> i < 2 ^ 63 then Inr i else Inl SInvalidEncoding)"

definition read_longitude :: "val \<Rightarrow> spatial_error + int" where
  "read_longitude v =
     rbind (take_i128 v) (\<lambda>i.
     rbind (try_i64 i) (\<lambda>i.
     rbind (map_err from_primitive (longitude_new i)) (\<lambda>canonical.
     if canonical \<noteq> i then Inl SInvalidEncoding else Inr canonical)))"

definition read_latitude :: "val \<Rightarrow> spatial_error + int" where
  "read_latitude v =
     rbind (take_i128 v) (\<lambda>i.
     rbind (try_i64 i) (\<lambda>i.
     map_err from_primitive (latitude_new i)))"

section \<open>Positions and geometry\<close>

definition encode_versioned :: "(nat \<Rightarrow> bool) \<Rightarrow> versioned_ref \<Rightarrow> spatial_error + val" where
  "encode_versioned reserve r =
     spatial_map reserve
       [(''record'', VRecordRef (vr_record r)), (''version'', encode_version (vr_version r))]"

definition decode_versioned :: "val \<Rightarrow> spatial_error + versioned_ref" where
  "decode_versioned v =
     rbind (spatial_fields v) (\<lambda>fs.
     rbind (spatial_take ''record'' fs) (\<lambda>(x, fs).
     rbind (take_record SInvalidEncoding x) (\<lambda>r.
     rbind (spatial_take ''version'' fs) (\<lambda>(x, fs).
     rbind (decode_version x) (\<lambda>version.
     rbind (spatial_finish fs) (\<lambda>_.
     Inr (VersionedRef r version)))))))"

definition encode_local2 :: "(nat \<Rightarrow> bool) \<Rightarrow> string \<Rightarrow> local_point2 \<Rightarrow> spatial_error + val" where
  "encode_local2 reserve kind p =
     rbind (spatial_text (ascii kind)) (\<lambda>kind.
     spatial_map reserve
       [(''kind'', kind), (''x'', VSigned (lp2_x p)), (''y'', VSigned (lp2_y p))])"

definition decode_local2_fields :: "fields \<Rightarrow> spatial_error + local_point2" where
  "decode_local2_fields fs =
     rbind (spatial_take ''x'' fs) (\<lambda>(v, fs).
     rbind (take_i128 v) (\<lambda>x.
     rbind (spatial_take ''y'' fs) (\<lambda>(v, fs).
     rbind (take_i128 v) (\<lambda>y.
     rbind (spatial_finish fs) (\<lambda>_.
     Inr (LocalPoint2 x y))))))"

definition decode_local2 :: "val \<Rightarrow> spatial_error + local_point2" where
  "decode_local2 v =
     rbind (spatial_fields v) (\<lambda>fs.
     rbind (spatial_take ''kind'' fs) (\<lambda>(x, fs).
     rbind (expect_spatial_text x (ascii ''point'')) (\<lambda>_.
     decode_local2_fields fs)))"

definition encode_local3 :: "(nat \<Rightarrow> bool) \<Rightarrow> string \<Rightarrow> local_point3 \<Rightarrow> spatial_error + val" where
  "encode_local3 reserve kind p =
     rbind (spatial_text (ascii kind)) (\<lambda>kind.
     spatial_map reserve
       [(''kind'', kind), (''x'', VSigned (lp3_x p)), (''y'', VSigned (lp3_y p)),
        (''z'', VSigned (lp3_z p))])"

definition decode_local3_fields :: "fields \<Rightarrow> spatial_error + local_point3" where
  "decode_local3_fields fs =
     rbind (spatial_take ''x'' fs) (\<lambda>(v, fs).
     rbind (take_i128 v) (\<lambda>x.
     rbind (spatial_take ''y'' fs) (\<lambda>(v, fs).
     rbind (take_i128 v) (\<lambda>y.
     rbind (spatial_take ''z'' fs) (\<lambda>(v, fs).
     rbind (take_i128 v) (\<lambda>z.
     rbind (spatial_finish fs) (\<lambda>_.
     Inr (LocalPoint3 x y z))))))))"

definition decode_local3 :: "val \<Rightarrow> spatial_error + local_point3" where
  "decode_local3 v =
     rbind (spatial_fields v) (\<lambda>fs.
     rbind (spatial_take ''kind'' fs) (\<lambda>(x, fs).
     rbind (expect_spatial_text x (ascii ''point'')) (\<lambda>_.
     decode_local3_fields fs)))"

definition encode_geo_point :: "(nat \<Rightarrow> bool) \<Rightarrow> string \<Rightarrow> geographic_point \<Rightarrow> spatial_error + val" where
  "encode_geo_point reserve kind p =
     rbind (spatial_text (ascii kind)) (\<lambda>kind.
     spatial_map reserve
       [(''height'', case gp_height p of None \<Rightarrow> VNull | Some height \<Rightarrow> VSigned height),
        (''kind'', kind),
        (''latitude'', VSigned (gp_latitude p)),
        (''longitude'', VSigned (gp_longitude p))])"

definition decode_geo_fields :: "fields \<Rightarrow> spatial_error + geographic_point" where
  "decode_geo_fields fs =
     rbind (spatial_take ''height'' fs) (\<lambda>(v, fs).
     rbind (case v of VNull \<Rightarrow> Inr None | v \<Rightarrow> rbind (take_i128 v) (\<lambda>h. Inr (Some h))) (\<lambda>height.
     rbind (spatial_take ''latitude'' fs) (\<lambda>(v, fs).
     rbind (read_latitude v) (\<lambda>latitude.
     rbind (spatial_take ''longitude'' fs) (\<lambda>(v, fs).
     rbind (read_longitude v) (\<lambda>longitude.
     rbind (spatial_finish fs) (\<lambda>_.
     let point = geographic_point_new longitude latitude height in
     if gp_longitude point \<noteq> longitude then Inl SInvalidEncoding else Inr point)))))))"

definition encode_geometry :: "(nat \<Rightarrow> bool) \<Rightarrow> geometry \<Rightarrow> spatial_error + val" where
  "encode_geometry reserve g =
     (case g of
        GLocalPoint2 p \<Rightarrow> encode_local2 reserve ''local_point_2'' p
      | GLocalPoint3 p \<Rightarrow> encode_local3 reserve ''local_point_3'' p
      | GGeographicPoint p \<Rightarrow> encode_geo_point reserve ''geographic_point'' p
      | GLocalBox2 b \<Rightarrow>
          rbind (spatial_text (ascii ''local_box_2'')) (\<lambda>kind.
          rbind (encode_local2 reserve ''point'' (lb2_max b)) (\<lambda>hi.
          rbind (encode_local2 reserve ''point'' (lb2_min b)) (\<lambda>lo.
          spatial_map reserve [(''kind'', kind), (''max'', hi), (''min'', lo)])))
      | GLocalBox3 b \<Rightarrow>
          rbind (spatial_text (ascii ''local_box_3'')) (\<lambda>kind.
          rbind (encode_local3 reserve ''point'' (lb3_max b)) (\<lambda>hi.
          rbind (encode_local3 reserve ''point'' (lb3_min b)) (\<lambda>lo.
          spatial_map reserve [(''kind'', kind), (''max'', hi), (''min'', lo)])))
      | GGeographicBox b \<Rightarrow>
          rbind (spatial_text (ascii ''geographic_box'')) (\<lambda>kind.
          spatial_map reserve
            [(''east'', VSigned (gb_east b)), (''kind'', kind), (''north'', VSigned (gb_north b)),
             (''south'', VSigned (gb_south b)), (''west'', VSigned (gb_west b))]))"

definition decode_box2_fields :: "fields \<Rightarrow> spatial_error + local_box2" where
  "decode_box2_fields fs =
     rbind (spatial_take ''max'' fs) (\<lambda>(v, fs).
     rbind (decode_local2 v) (\<lambda>hi.
     rbind (spatial_take ''min'' fs) (\<lambda>(v, fs).
     rbind (decode_local2 v) (\<lambda>lo.
     rbind (spatial_finish fs) (\<lambda>_.
     map_err from_primitive (local_box2_new lo hi))))))"

definition decode_box3_fields :: "fields \<Rightarrow> spatial_error + local_box3" where
  "decode_box3_fields fs =
     rbind (spatial_take ''max'' fs) (\<lambda>(v, fs).
     rbind (decode_local3 v) (\<lambda>hi.
     rbind (spatial_take ''min'' fs) (\<lambda>(v, fs).
     rbind (decode_local3 v) (\<lambda>lo.
     rbind (spatial_finish fs) (\<lambda>_.
     map_err from_primitive (local_box3_new lo hi))))))"

definition decode_geo_box_fields :: "fields \<Rightarrow> spatial_error + geographic_box" where
  "decode_geo_box_fields fs =
     rbind (spatial_take ''east'' fs) (\<lambda>(v, fs).
     rbind (read_longitude v) (\<lambda>east.
     rbind (spatial_take ''north'' fs) (\<lambda>(v, fs).
     rbind (read_latitude v) (\<lambda>north.
     rbind (spatial_take ''south'' fs) (\<lambda>(v, fs).
     rbind (read_latitude v) (\<lambda>south.
     rbind (spatial_take ''west'' fs) (\<lambda>(v, fs).
     rbind (read_longitude v) (\<lambda>west.
     rbind (spatial_finish fs) (\<lambda>_.
     map_err from_primitive (geographic_box_new west east south north))))))))))"

definition decode_geometry :: "val \<Rightarrow> spatial_error + geometry" where
  "decode_geometry v =
     rbind (spatial_fields v) (\<lambda>fs.
     rbind (spatial_take ''kind'' fs) (\<lambda>(x, fs).
     rbind (take_text SInvalidEncoding x) (\<lambda>kind.
     if kind = ascii ''local_point_2'' then rbind (decode_local2_fields fs) (\<lambda>p. Inr (GLocalPoint2 p))
     else if kind = ascii ''local_point_3'' then rbind (decode_local3_fields fs) (\<lambda>p. Inr (GLocalPoint3 p))
     else if kind = ascii ''geographic_point'' then
       rbind (decode_geo_fields fs) (\<lambda>p. Inr (GGeographicPoint p))
     else if kind = ascii ''local_box_2'' then rbind (decode_box2_fields fs) (\<lambda>b. Inr (GLocalBox2 b))
     else if kind = ascii ''local_box_3'' then rbind (decode_box3_fields fs) (\<lambda>b. Inr (GLocalBox3 b))
     else if kind = ascii ''geographic_box'' then
       rbind (decode_geo_box_fields fs) (\<lambda>b. Inr (GGeographicBox b))
     else Inl SInvalidEncoding)))"

definition encode_position :: "(nat \<Rightarrow> bool) \<Rightarrow> spatial_position \<Rightarrow> spatial_error + val" where
  "encode_position reserve p =
     (case p of
        Local2 p \<Rightarrow> encode_local2 reserve ''local_2'' p
      | Local3 p \<Rightarrow> encode_local3 reserve ''local_3'' p
      | Geographic p \<Rightarrow> encode_geo_point reserve ''geographic'' p)"

definition decode_position :: "val \<Rightarrow> spatial_error + spatial_position" where
  "decode_position v =
     rbind (spatial_fields v) (\<lambda>fs.
     rbind (spatial_take ''kind'' fs) (\<lambda>(x, fs).
     rbind (take_text SInvalidEncoding x) (\<lambda>kind.
     if kind = ascii ''local_2'' then rbind (decode_local2_fields fs) (\<lambda>p. Inr (Local2 p))
     else if kind = ascii ''local_3'' then rbind (decode_local3_fields fs) (\<lambda>p. Inr (Local3 p))
     else if kind = ascii ''geographic'' then rbind (decode_geo_fields fs) (\<lambda>p. Inr (Geographic p))
     else Inl SInvalidEncoding)))"

definition encode_uncertainty :: "(nat \<Rightarrow> bool) \<Rightarrow> position_uncertainty \<Rightarrow> spatial_error + val" where
  "encode_uncertainty reserve u =
     (case u of
        PositionUnknown \<Rightarrow>
          rbind (spatial_text (ascii ''unknown'')) (\<lambda>kind.
          spatial_map reserve [(''kind'', kind), (''radial_nanometres'', VNull)])
      | Radial r \<Rightarrow>
          rbind (spatial_text (ascii ''radial'')) (\<lambda>kind.
          spatial_map reserve [(''kind'', kind), (''radial_nanometres'', VUnsigned r)]))"

definition decode_uncertainty :: "val \<Rightarrow> spatial_error + position_uncertainty" where
  "decode_uncertainty v =
     rbind (spatial_fields v) (\<lambda>fs.
     rbind (spatial_take ''kind'' fs) (\<lambda>(x, fs).
     rbind (take_text SInvalidEncoding x) (\<lambda>kind.
     rbind (spatial_take ''radial_nanometres'' fs) (\<lambda>(radial, fs).
     rbind (spatial_finish fs) (\<lambda>_.
     case radial of
       VNull \<Rightarrow> if kind = ascii ''unknown'' then Inr PositionUnknown else Inl SInvalidEncoding
     | VUnsigned r \<Rightarrow> if kind = ascii ''radial'' then Inr (Radial r) else Inl SInvalidEncoding
     | _ \<Rightarrow> Inl SInvalidEncoding)))))"

definition encode_source_event :: "(nat \<Rightarrow> bool) \<Rightarrow> source_event_ref \<Rightarrow> spatial_error + val" where
  "encode_source_event reserve r =
     rbind (spatial_bytes (ns_database (se_scope r))) (\<lambda>database.
     rbind (spatial_bytes (se_source_event r)) (\<lambda>event.
     rbind (spatial_bytes (ns_namespace (se_scope r))) (\<lambda>namespace.
     spatial_map reserve [(''database'', database), (''event'', event), (''namespace'', namespace)])))"

definition decode_source_event :: "val \<Rightarrow> spatial_error + source_event_ref" where
  "decode_source_event v =
     rbind (spatial_fields v) (\<lambda>fs.
     rbind (spatial_take ''database'' fs) (\<lambda>(x, fs).
     rbind (take_id x) (\<lambda>database.
     rbind (spatial_take ''event'' fs) (\<lambda>(x, fs).
     rbind (take_id x) (\<lambda>event.
     rbind (spatial_take ''namespace'' fs) (\<lambda>(x, fs).
     rbind (take_id x) (\<lambda>namespace.
     rbind (spatial_finish fs) (\<lambda>_.
     Inr (SourceEventRef (NamespaceRef database namespace) event)))))))))"

definition encode_key :: "(nat \<Rightarrow> bool) \<Rightarrow> observation_key \<Rightarrow> spatial_error + val" where
  "encode_key reserve k =
     rbind (encode_source_event reserve (key_event k)) (\<lambda>event.
     rbind (spatial_text (key_session k)) (\<lambda>session.
     spatial_map reserve
       [(''event'', event), (''session'', session), (''source'', VRecordRef (key_source k))]))"

definition decode_key :: "val \<Rightarrow> spatial_error + observation_key" where
  "decode_key v =
     rbind (spatial_fields v) (\<lambda>fs.
     rbind (spatial_take ''event'' fs) (\<lambda>(x, fs).
     rbind (decode_source_event x) (\<lambda>event.
     rbind (spatial_take ''session'' fs) (\<lambda>(x, fs).
     rbind (take_text SInvalidEncoding x) (\<lambda>session.
     rbind (spatial_take ''source'' fs) (\<lambda>(x, fs).
     rbind (take_record SInvalidEncoding x) (\<lambda>source.
     rbind (spatial_finish fs) (\<lambda>_.
     observation_key_new source session event))))))))"

section \<open>Records\<close>

definition encode_world :: "(nat \<Rightarrow> bool) \<Rightarrow> world_definition \<Rightarrow> spatial_error + val" where
  "encode_world reserve w =
     rbind (encode_versioned reserve (wd_root_frame w)) (\<lambda>root.
     spatial_map reserve
       [(''id'', VRecordRef (wd_id w)), (''root_frame'', root), (''version'', encode_version (wd_version w))])"

definition decode_world :: "val \<Rightarrow> spatial_error + world_definition" where
  "decode_world v =
     rbind (spatial_fields v) (\<lambda>fs.
     rbind (spatial_take ''id'' fs) (\<lambda>(x, fs).
     rbind (take_record SInvalidEncoding x) (\<lambda>rid.
     rbind (spatial_take ''root_frame'' fs) (\<lambda>(x, fs).
     rbind (decode_versioned x) (\<lambda>root.
     rbind (spatial_take ''version'' fs) (\<lambda>(x, fs).
     rbind (decode_version x) (\<lambda>version.
     rbind (spatial_finish fs) (\<lambda>_.
     world_new rid version root))))))))"

definition encode_parent :: "(nat \<Rightarrow> bool) \<Rightarrow> frame_parent \<Rightarrow> spatial_error + val" where
  "encode_parent reserve p =
     rbind (encode_versioned reserve (fp_frame p)) (\<lambda>frame.
     rbind (encode_versioned reserve (fp_transform p)) (\<lambda>transform.
     spatial_map reserve [(''frame'', frame), (''transform'', transform)]))"

definition decode_parent :: "val \<Rightarrow> spatial_error + frame_parent" where
  "decode_parent v =
     rbind (spatial_fields v) (\<lambda>fs.
     rbind (spatial_take ''frame'' fs) (\<lambda>(x, fs).
     rbind (decode_versioned x) (\<lambda>frame.
     rbind (spatial_take ''transform'' fs) (\<lambda>(x, fs).
     rbind (decode_versioned x) (\<lambda>transform.
     rbind (spatial_finish fs) (\<lambda>_.
     Inr (FrameParent frame transform)))))))"

text \<open>An optional part: absent as null.\<close>

definition encode_optional :: "('a \<Rightarrow> spatial_error + val) \<Rightarrow> 'a option \<Rightarrow> spatial_error + val" where
  "encode_optional enc x = (case x of None \<Rightarrow> Inr VNull | Some x \<Rightarrow> enc x)"

definition decode_optional :: "(val \<Rightarrow> spatial_error + 'a) \<Rightarrow> val \<Rightarrow> spatial_error + 'a option" where
  "decode_optional dec v = (case v of VNull \<Rightarrow> Inr None | v \<Rightarrow> rbind (dec v) (\<lambda>x. Inr (Some x)))"

definition encode_frame :: "(nat \<Rightarrow> bool) \<Rightarrow> frame_definition \<Rightarrow> spatial_error + val" where
  "encode_frame reserve f =
     rbind (spatial_text (coordinate_name (fd_kind f))) (\<lambda>kind.
     rbind (encode_optional (encode_parent reserve) (fd_parent f)) (\<lambda>parent.
     spatial_map reserve
       [(''coordinate_system'', kind), (''id'', VRecordRef (fd_id f)), (''parent'', parent),
        (''version'', encode_version (fd_version f)), (''world'', VRecordRef (fd_world f))]))"

definition decode_frame :: "val \<Rightarrow> spatial_error + frame_definition" where
  "decode_frame v =
     rbind (spatial_fields v) (\<lambda>fs.
     rbind (spatial_take ''coordinate_system'' fs) (\<lambda>(x, fs).
     rbind (take_text SInvalidEncoding x) (\<lambda>s.
     rbind (decode_coordinate s) (\<lambda>kind.
     rbind (spatial_take ''id'' fs) (\<lambda>(x, fs).
     rbind (take_record SInvalidEncoding x) (\<lambda>rid.
     rbind (spatial_take ''parent'' fs) (\<lambda>(x, fs).
     rbind (decode_optional decode_parent x) (\<lambda>parent.
     rbind (spatial_take ''version'' fs) (\<lambda>(x, fs).
     rbind (decode_version x) (\<lambda>version.
     rbind (spatial_take ''world'' fs) (\<lambda>(x, fs).
     rbind (take_record SInvalidEncoding x) (\<lambda>world.
     rbind (spatial_finish fs) (\<lambda>_.
     frame_new rid version world kind parent)))))))))))))"

definition encode_geometry_version ::
  "(nat \<Rightarrow> bool) \<Rightarrow> geometry_version \<Rightarrow> spatial_error + val" where
  "encode_geometry_version reserve g =
     rbind (encode_versioned reserve (gv_frame g)) (\<lambda>frame.
     rbind (encode_geometry reserve (gv_geometry g)) (\<lambda>geometry.
     rbind (encode_optional (encode_versioned reserve) (gv_predecessor g)) (\<lambda>predecessor.
     rbind (encode_uncertainty reserve (gv_precision g)) (\<lambda>precision.
     spatial_map reserve
       [(''frame'', frame), (''geometry'', geometry), (''id'', VRecordRef (gv_id g)),
        (''predecessor'', predecessor), (''precision'', precision),
        (''version'', encode_version (gv_version g)), (''world'', VRecordRef (gv_world g))]))))"

definition decode_geometry_version :: "val \<Rightarrow> spatial_error + geometry_version" where
  "decode_geometry_version v =
     rbind (spatial_fields v) (\<lambda>fs.
     rbind (spatial_take ''frame'' fs) (\<lambda>(x, fs).
     rbind (decode_versioned x) (\<lambda>frame.
     rbind (spatial_take ''geometry'' fs) (\<lambda>(x, fs).
     rbind (decode_geometry x) (\<lambda>geometry.
     rbind (spatial_take ''id'' fs) (\<lambda>(x, fs).
     rbind (take_record SInvalidEncoding x) (\<lambda>rid.
     rbind (spatial_take ''predecessor'' fs) (\<lambda>(x, fs).
     rbind (decode_optional decode_versioned x) (\<lambda>predecessor.
     rbind (spatial_take ''precision'' fs) (\<lambda>(x, fs).
     rbind (decode_uncertainty x) (\<lambda>precision.
     rbind (spatial_take ''version'' fs) (\<lambda>(x, fs).
     rbind (decode_version x) (\<lambda>version.
     rbind (spatial_take ''world'' fs) (\<lambda>(x, fs).
     rbind (take_record SInvalidEncoding x) (\<lambda>world.
     rbind (spatial_finish fs) (\<lambda>_.
     geometry_version_new rid version world frame geometry precision predecessor))))))))))))))))"

definition encode_observation :: "(nat \<Rightarrow> bool) \<Rightarrow> position_observation \<Rightarrow> spatial_error + val" where
  "encode_observation reserve obs =
     rbind (encode_versioned reserve (po_frame obs)) (\<lambda>frame.
     rbind (encode_key reserve (po_key obs)) (\<lambda>key.
     rbind (encode_position reserve (po_position obs)) (\<lambda>position.
     rbind (map_err (\<lambda>_. SInvalidObservation) (envelope_to_value (po_source_time obs))) (\<lambda>source_time.
     rbind (encode_uncertainty reserve (po_uncertainty obs)) (\<lambda>uncertainty.
     spatial_map reserve
       [(''correction_of'', case po_correction_of obs of None \<Rightarrow> VNull | Some r \<Rightarrow> VRecordRef r),
        (''entity'', VRecordRef (po_entity obs)),
        (''evidence'', VRecordRef (po_evidence obs)),
        (''frame'', frame),
        (''id'', VRecordRef (po_id obs)),
        (''key'', key),
        (''position'', position),
        (''source_time'', source_time),
        (''uncertainty'', uncertainty),
        (''world'', VRecordRef (po_world obs))])))))"

definition decode_observation :: "val \<Rightarrow> spatial_error + position_observation" where
  "decode_observation v =
     rbind (spatial_fields v) (\<lambda>fs.
     rbind (spatial_take ''correction_of'' fs) (\<lambda>(x, fs).
     rbind (take_optional_record x) (\<lambda>correction.
     rbind (spatial_take ''entity'' fs) (\<lambda>(x, fs).
     rbind (take_record SInvalidEncoding x) (\<lambda>entity.
     rbind (spatial_take ''evidence'' fs) (\<lambda>(x, fs).
     rbind (take_record SInvalidEncoding x) (\<lambda>evidence.
     rbind (spatial_take ''frame'' fs) (\<lambda>(x, fs).
     rbind (decode_versioned x) (\<lambda>frame.
     rbind (spatial_take ''id'' fs) (\<lambda>(x, fs).
     rbind (take_record SInvalidEncoding x) (\<lambda>rid.
     rbind (spatial_take ''key'' fs) (\<lambda>(x, fs).
     rbind (decode_key x) (\<lambda>key.
     rbind (spatial_take ''position'' fs) (\<lambda>(x, fs).
     rbind (decode_position x) (\<lambda>position.
     rbind (spatial_take ''source_time'' fs) (\<lambda>(x, fs).
     rbind (map_err (\<lambda>_. SInvalidObservation) (envelope_from_value x)) (\<lambda>source_time.
     rbind (spatial_take ''uncertainty'' fs) (\<lambda>(x, fs).
     rbind (decode_uncertainty x) (\<lambda>uncertainty.
     rbind (spatial_take ''world'' fs) (\<lambda>(x, fs).
     rbind (take_record SInvalidEncoding x) (\<lambda>world.
     rbind (spatial_finish fs) (\<lambda>_.
     observation_new rid entity world frame key evidence source_time position uncertainty
       correction))))))))))))))))))))))"

definition record_to_value :: "(nat \<Rightarrow> bool) \<Rightarrow> spatial_record \<Rightarrow> spatial_error + val" where
  "record_to_value reserve r =
     rbind (case r of
         World w \<Rightarrow> rbind (encode_world reserve w) (\<lambda>body. Inr (ascii ''world'', body))
       | Frame f \<Rightarrow> rbind (encode_frame reserve f) (\<lambda>body. Inr (ascii ''frame'', body))
       | GeometryRecord g \<Rightarrow>
           rbind (encode_geometry_version reserve g) (\<lambda>body. Inr (ascii ''geometry'', body))
       | Observation obs \<Rightarrow>
           rbind (encode_observation reserve obs) (\<lambda>body. Inr (ascii ''observation'', body)))
     (\<lambda>(kind, body).
     rbind (spatial_text kind) (\<lambda>kind.
     rbind (spatial_text SPATIAL_PROFILE) (\<lambda>profile.
     spatial_map reserve
       [(''body'', body), (''kind'', kind), (''profile'', profile),
        (''schema_version'', VUnsigned SCHEMA_VERSION)])))"

definition record_from_body :: "bytes \<Rightarrow> val \<Rightarrow> spatial_error + spatial_record" where
  "record_from_body kind body =
     (if kind = ascii ''world'' then rbind (decode_world body) (\<lambda>w. Inr (World w))
      else if kind = ascii ''frame'' then rbind (decode_frame body) (\<lambda>f. Inr (Frame f))
      else if kind = ascii ''geometry'' then
        rbind (decode_geometry_version body) (\<lambda>g. Inr (GeometryRecord g))
      else if kind = ascii ''observation'' then
        rbind (decode_observation body) (\<lambda>obs. Inr (Observation obs))
      else Inl SUnsupportedProfile)"

definition record_from_value :: "val \<Rightarrow> spatial_error + spatial_record" where
  "record_from_value v =
     rbind (spatial_fields v) (\<lambda>fs.
     rbind (spatial_take ''body'' fs) (\<lambda>(body, fs).
     rbind (spatial_take ''kind'' fs) (\<lambda>(x, fs).
     rbind (take_text SInvalidEncoding x) (\<lambda>kind.
     rbind (spatial_take ''profile'' fs) (\<lambda>(x, fs).
     rbind (expect_spatial_text x SPATIAL_PROFILE) (\<lambda>_.
     rbind (spatial_take ''schema_version'' fs) (\<lambda>(x, fs).
     rbind (take_u128 x) (\<lambda>schema.
     rbind (ensure (schema = SCHEMA_VERSION) SUnsupportedProfile) (\<lambda>_.
     rbind (spatial_finish fs) (\<lambda>_.
     record_from_body kind body))))))))))"

definition encode_record :: "(nat \<Rightarrow> bool) \<Rightarrow> spatial_record \<Rightarrow> spatial_error + bytes" where
  "encode_record reserve r =
     rbind (record_to_value reserve r) (\<lambda>v.
     map_err (\<lambda>err. case err of EResourceLimit \<Rightarrow> SResourceLimit | _ \<Rightarrow> SInvalidEncoding)
       (encode_value reserve v))"

definition decode_record :: "allocator \<Rightarrow> bytes \<Rightarrow> spatial_error + spatial_record" where
  "decode_record alloc input =
     rbind (map_err (\<lambda>_. SInvalidEncoding) (decode_value alloc input)) record_from_value"

end
