(* ===== verification/Spatial_Parts.thy ===== *)
theory Spatial_Parts
  imports Spatial_Codec "HOL-Library.Multiset"
begin

text \<open>
  The parts of spatial records are read back exactly: for each part its entries, the values its
  constructors admit, and the contract of a record codec.
\<close>

abbreviation granting :: "nat \<Rightarrow> bool" where
  "granting \<equiv> (\<lambda>_. True)"

section \<open>Fields\<close>

lemmas spatial_defs = spatial_fields_def spatial_take_def spatial_finish_def

lemma spatial_map_granting: "spatial_map granting es = map_value SResourceLimit es"
  by (simp add: spatial_map_def)

lemma spatial_text_eq: "length s \<le> MAX_INLINE_BYTES \<Longrightarrow> spatial_text s = Inr (VString s)"
  by (simp add: spatial_text_def text_value_iff)

lemma spatial_text_plain: "plain_key s \<Longrightarrow> spatial_text (ascii s) = Inr (VString (ascii s))"
  by (intro spatial_text_eq name_bounds name_ok_ascii)

lemma take_u128_iff [field_iffs]: "take_u128 v = Inr n \<longleftrightarrow> v = VUnsigned n"
  by (cases v) (auto simp: take_u128_def)

lemma take_i128_iff [field_iffs]: "take_i128 v = Inr i \<longleftrightarrow> v = VSigned i"
  by (cases v) (auto simp: take_i128_def)

lemma take_id_iff [field_iffs]: "take_id v = Inr bs \<longleftrightarrow> v = VBytes bs \<and> identity_ok bs"
  by (cases v) (auto simp: take_id_def identity_ok_def)

definition optional_record :: "record_ref option \<Rightarrow> val" where
  "optional_record r = (case r of None \<Rightarrow> VNull | Some r \<Rightarrow> VRecordRef r)"

lemma take_optional_record_iff [field_iffs]:
  "take_optional_record v = Inr r \<longleftrightarrow> v = optional_record r"
  by (cases v) (auto simp: take_optional_record_def optional_record_def split: option.splits)

lemma expect_spatial_text_iff [field_iffs]: "expect_spatial_text v s = Inr u \<longleftrightarrow> v = VString s"
  by (auto simp: expect_spatial_text_def rbind_eq_Inr take_text_iff)

lemma decode_version_iff [field_iffs]:
  "decode_version v = Inr n \<longleftrightarrow> v = encode_version n \<and> version_ok n"
  by (auto simp: decode_version_def encode_version_def version_ok_def rbind_eq_Inr take_u64_iff
      map_err_eq_Inr version_new_iff)

definition longitude_ok :: "int \<Rightarrow> bool" where
  "longitude_ok i \<longleftrightarrow> - HALF_TURN_NANODEGREES \<le> i \<and> i < HALF_TURN_NANODEGREES"

definition latitude_ok :: "int \<Rightarrow> bool" where
  "latitude_ok i \<longleftrightarrow> - QUARTER_TURN_NANODEGREES \<le> i \<and> i \<le> QUARTER_TURN_NANODEGREES"

lemma read_longitude_iff [field_iffs]: "read_longitude v = Inr i \<longleftrightarrow> v = VSigned i \<and> longitude_ok i"
proof (cases v)
  case (VSigned j)
  then show ?thesis
    by (auto simp: read_longitude_def longitude_ok_def longitude_new_def try_i64_def take_i128_def
        turns split: if_splits)
qed (auto simp: read_longitude_def take_i128_def)

lemma read_latitude_iff [field_iffs]: "read_latitude v = Inr i \<longleftrightarrow> v = VSigned i \<and> latitude_ok i"
proof (cases v)
  case (VSigned j)
  then show ?thesis
    by (auto simp: read_latitude_def latitude_ok_def latitude_new_def try_i64_def take_i128_def
        turns split: if_splits)
qed (auto simp: read_latitude_def take_i128_def)

lemma coordinate_iff [field_iffs]: "decode_coordinate s = Inr k \<longleftrightarrow> s = coordinate_name k"
  by (cases k) (auto simp: decode_coordinate_def coordinate_name_def)

lemma coordinate_name_ok: "name_ok (coordinate_name k)"
  by (cases k) (simp_all add: coordinate_name_def name_ok_ascii plain_key_def)

lemma spatial_take_simps:
  "take_u128 (VUnsigned w) = Inr w" "take_i128 (VSigned i) = Inr i"
  "identity_ok bs \<Longrightarrow> take_id (VBytes bs) = Inr bs" "take_optional_record (optional_record r) = Inr r"
  "expect_spatial_text (VString s) s = Inr ()" "version_ok m \<Longrightarrow> decode_version (encode_version m) = Inr m"
  "longitude_ok i \<Longrightarrow> read_longitude (VSigned i) = Inr i"
  "latitude_ok i \<Longrightarrow> read_latitude (VSigned i) = Inr i"
  "decode_coordinate (coordinate_name k) = Inr k"
  by (simp_all add: field_iffs)

lemmas spatial_read = read_named spatial_take_simps spatial_defs

lemma val_in_version [val_in_intros]: "1 \<le> n \<Longrightarrow> 20 \<le> p \<Longrightarrow> val_in d n p (encode_version v)"
  unfolding encode_version_def by (rule val_in_unsigned)

lemma val_in_optional_record [val_in_intros]:
  "(case r of None \<Rightarrow> True | Some r \<Rightarrow> record_ref_ok r) \<Longrightarrow> 1 \<le> n \<Longrightarrow> 52 \<le> p \<Longrightarrow>
   val_in d n p (optional_record r)"
  by (auto simp: optional_record_def intro: val_in_null val_in_record split: option.splits)

lemma angles_i128:
  "longitude_ok i \<Longrightarrow> - (2 ^ 127) \<le> i \<and> i < 2 ^ 127" "latitude_ok i \<Longrightarrow> - (2 ^ 127) \<le> i \<and> i < 2 ^ 127"
  by (auto simp: longitude_ok_def latitude_ok_def turns)

text \<open>Entries written out of order are sorted by the map constructor.\<close>

lemma map_value_permuted:
  assumes "plain_keys (map fst es')" "mset es = mset es'"
  shows "map_value limit es = map_value limit es'"
proof -
  have named: "mset (named es) = mset (named es')" using assms(2) by (simp add: named_def)
  then have sets: "set (named es) = set (named es')" by (metis set_mset_mset)
  have ok: "\<forall>(k, v) \<in> set (named es'). length k \<le> MAX_INLINE_BYTES"
    using plain_keys_ok [OF assms(1)] by (auto simp: string_ok_def)
  have sorted: "sorted_wrt (<) (map fst (named es'))"
    using plain_keys_named [OF assms(1)] by (simp add: bm_ok_def)
  have "sort_key fst (named es) = named es'"
  proof (rule sort_key_inj_key_eq [OF named])
    show "inj_on fst (set (named es))"
      using sorted sets by (simp add: strict_sorted_iff distinct_map del: named_simps)
    show "sorted (map fst (named es'))" using sorted by (rule strict_sorted_imp_sorted)
  qed
  moreover have "sort_key fst (named es') = named es'"
    using sorted by (intro sort_key_id_if_sorted strict_sorted_imp_sorted)
  moreover have "length (named es) = length (named es')" using named by (metis size_mset)
  ultimately have "map_new (named es) = map_new (named es')" by (simp add: map_new_def)
  moreover have "map_value limit xs = map_err (\<lambda>_. limit) (map_new (named xs))"
    if "set (named xs) = set (named es')" for xs
    using push_keys [of "named xs" limit "[]"] ok that by (auto simp: map_value_def)
  ultimately show ?thesis using sets by simp
qed

section \<open>Versioned references\<close>

definition versioned_ok :: "versioned_ref \<Rightarrow> bool" where
  "versioned_ok r \<longleftrightarrow> record_ref_ok (vr_record r) \<and> version_ok (vr_version r)"

definition versioned_entries :: "versioned_ref \<Rightarrow> (string \<times> val) list" where
  "versioned_entries r =
     [(''record'', VRecordRef (vr_record r)), (''version'', encode_version (vr_version r))]"

lemma versioned_keys: "plain_keys [''record'', ''version'']"
  by (simp add: plain_keys_def plain_key_def ascii_def)

lemma encode_versioned_eq:
  assumes "versioned_ok r"
  shows "encode_versioned granting r = Inr (VMap (named (versioned_entries r)))
    \<and> val_in 1 3 300 (VMap (named (versioned_entries r)))"
proof -
  have "map_value SResourceLimit (versioned_entries r) = Inr (VMap (named (versioned_entries r)))
      \<and> val_in (Suc 0) 3 300 (VMap (named (versioned_entries r)))"
    by (rule record_encodes [where n = 1 and p = 52])
      (use assms versioned_keys in \<open>auto intro!: val_in_intros
        simp: versioned_entries_def versioned_ok_def value_limits\<close>)
  then show ?thesis by (simp add: encode_versioned_def spatial_map_granting versioned_entries_def)
qed

lemma decode_versioned_inv:
  assumes wf: "value_wf v" and dec: "decode_versioned v = Inr r"
  shows "versioned_ok r \<and> v = VMap (named (versioned_entries r))"
proof -
  obtain fs where v: "v = VMap fs" "version_ok (vr_version r)"
    and got: "bm_get fs (ascii ''record'') = Some (VRecordRef (vr_record r))"
      "bm_get fs (ascii ''version'') = Some (encode_version (vr_version r))"
    and all: "only_fields fs [''record'', ''version'']"
    using dec
    by (auto simp: decode_versioned_def spatial_defs rbind_eq_Inr fields_new_iff [OF wf] field_iffs taken_simps)
  have "fs = named (versioned_entries r) \<and> list_all value_wf (map snd (versioned_entries r))"
    using taken_named [of fs "versioned_entries r"] wf v got all versioned_keys
    by (auto simp: versioned_entries_def)
  with v show ?thesis by (auto simp: versioned_ok_def versioned_entries_def)
qed

interpretation versioned_codec:
  value_codec "encode_versioned granting" decode_versioned versioned_ok 1 3 300
proof (rule value_codecI [where entries = versioned_entries])
  fix r
  assume ok: "versioned_ok r"
  then show "encode_versioned granting r = Inr (VMap (named (versioned_entries r)))
    \<and> val_in 1 3 300 (VMap (named (versioned_entries r)))" by (rule encode_versioned_eq)
  show "decode_versioned (VMap (named (versioned_entries r))) = Inr r"
    using ok versioned_keys
    by (simp add: decode_versioned_def versioned_entries_def spatial_read versioned_ok_def)
qed (rule decode_versioned_inv)

section \<open>Points\<close>

definition local2_ok :: "local_point2 \<Rightarrow> bool" where
  "local2_ok p \<longleftrightarrow> i128_ok (lp2_x p) \<and> i128_ok (lp2_y p)"

definition local3_ok :: "local_point3 \<Rightarrow> bool" where
  "local3_ok p \<longleftrightarrow> i128_ok (lp3_x p) \<and> i128_ok (lp3_y p) \<and> i128_ok (lp3_z p)"

definition geo_point_ok :: "geographic_point \<Rightarrow> bool" where
  "geo_point_ok p \<longleftrightarrow> longitude_ok (gp_longitude p) \<and> latitude_ok (gp_latitude p)
     \<and> (case gp_height p of None \<Rightarrow> True | Some h \<Rightarrow> i128_ok h)
     \<and> (is_pole (gp_latitude p) \<longrightarrow> gp_longitude p = 0)"

definition local2_entries :: "string \<Rightarrow> local_point2 \<Rightarrow> (string \<times> val) list" where
  "local2_entries kind p =
     [(''kind'', VString (ascii kind)), (''x'', VSigned (lp2_x p)), (''y'', VSigned (lp2_y p))]"

definition local3_entries :: "string \<Rightarrow> local_point3 \<Rightarrow> (string \<times> val) list" where
  "local3_entries kind p =
     [(''kind'', VString (ascii kind)), (''x'', VSigned (lp3_x p)), (''y'', VSigned (lp3_y p)),
      (''z'', VSigned (lp3_z p))]"

definition geo_point_entries :: "string \<Rightarrow> geographic_point \<Rightarrow> (string \<times> val) list" where
  "geo_point_entries kind p =
     [(''height'', optional_signed (gp_height p)), (''kind'', VString (ascii kind)),
      (''latitude'', VSigned (gp_latitude p)), (''longitude'', VSigned (gp_longitude p))]"

lemma point_keys:
  "plain_keys [''kind'', ''x'', ''y'']" "plain_keys [''kind'', ''x'', ''y'', ''z'']"
  "plain_keys [''height'', ''kind'', ''latitude'', ''longitude'']"
  by (simp_all add: plain_keys_def plain_key_def ascii_def)

lemmas i128_bounds = i128_ok_def angles_i128

lemma encode_local2_eq:
  assumes "local2_ok p" "plain_key kind"
  shows "encode_local2 granting kind p = Inr (VMap (named (local2_entries kind p)))
    \<and> val_in 1 5 800 (VMap (named (local2_entries kind p)))"
proof -
  have "map_value SResourceLimit (local2_entries kind p) = Inr (VMap (named (local2_entries kind p)))
      \<and> val_in (Suc 0) 5 800 (VMap (named (local2_entries kind p)))"
    by (rule record_encodes [where n = 1 and p = 84])
      (use assms point_keys in \<open>auto intro!: val_in_intros val_in_name name_ok_ascii
        simp: local2_entries_def local2_ok_def i128_ok_def value_limits\<close>)
  then show ?thesis
    using assms(2)
    by (simp add: encode_local2_def spatial_map_granting spatial_text_plain local2_entries_def)
qed

lemma encode_local3_eq:
  assumes "local3_ok p" "plain_key kind"
  shows "encode_local3 granting kind p = Inr (VMap (named (local3_entries kind p)))
    \<and> val_in 1 5 800 (VMap (named (local3_entries kind p)))"
proof -
  have "map_value SResourceLimit (local3_entries kind p) = Inr (VMap (named (local3_entries kind p)))
      \<and> val_in (Suc 0) 5 800 (VMap (named (local3_entries kind p)))"
    by (rule record_encodes [where n = 1 and p = 84])
      (use assms point_keys in \<open>auto intro!: val_in_intros val_in_name name_ok_ascii
        simp: local3_entries_def local3_ok_def i128_ok_def value_limits\<close>)
  then show ?thesis
    using assms(2)
    by (simp add: encode_local3_def spatial_map_granting spatial_text_plain local3_entries_def)
qed

lemma encode_geo_point_eq:
  assumes "geo_point_ok p" "plain_key kind"
  shows "encode_geo_point granting kind p = Inr (VMap (named (geo_point_entries kind p)))
    \<and> val_in 1 5 800 (VMap (named (geo_point_entries kind p)))"
proof -
  have "val_in 0 1 84 (optional_signed (gp_height p))"
      "val_in 0 1 84 (VSigned (gp_latitude p))" "val_in 0 1 84 (VSigned (gp_longitude p))"
    using assms(1) angles_i128
    by (auto simp: geo_point_ok_def i128_ok_def intro!: val_in_intros split: option.splits)
  then have "map_value SResourceLimit (geo_point_entries kind p)
        = Inr (VMap (named (geo_point_entries kind p)))
      \<and> val_in (Suc 0) 5 800 (VMap (named (geo_point_entries kind p)))"
    by (intro record_encodes [where n = 1 and p = 84])
      (use assms(2) point_keys in \<open>auto intro!: val_in_name name_ok_ascii
        simp: geo_point_entries_def value_limits\<close>)
  then show ?thesis
    using assms(2)
    by (simp add: encode_geo_point_def spatial_map_granting spatial_text_plain geo_point_entries_def
        optional_signed_def)
qed

lemma decode_local2_fields_iff:
  "decode_local2_fields fs = Inr p \<longleftrightarrow> bm_get fs (ascii ''x'') = Some (VSigned (lp2_x p))
     \<and> bm_get fs (ascii ''y'') = Some (VSigned (lp2_y p)) \<and> only_fields fs [''x'', ''y'']"
  by (cases p) (auto simp: decode_local2_fields_def spatial_defs rbind_eq_Inr field_iffs taken_simps)

lemma decode_local3_fields_iff:
  "decode_local3_fields fs = Inr p \<longleftrightarrow> bm_get fs (ascii ''x'') = Some (VSigned (lp3_x p))
     \<and> bm_get fs (ascii ''y'') = Some (VSigned (lp3_y p))
     \<and> bm_get fs (ascii ''z'') = Some (VSigned (lp3_z p)) \<and> only_fields fs [''x'', ''y'', ''z'']"
  by (cases p) (auto simp: decode_local3_fields_def spatial_defs rbind_eq_Inr field_iffs taken_simps)

lemma read_height:
  "(case v of VNull \<Rightarrow> Inr None | v \<Rightarrow> rbind (take_i128 v) (\<lambda>h. Inr (Some h))) = Inr h \<longleftrightarrow>
   v = optional_signed h"
  by (cases v; cases h) (auto simp: optional_signed_def take_i128_def)

lemma optional_signed_inject [simp]: "optional_signed a = optional_signed b \<longleftrightarrow> a = b"
  by (auto simp: optional_signed_def split: option.splits)

lemma decode_geo_fields_iff:
  "decode_geo_fields fs = Inr p \<longleftrightarrow> bm_get fs (ascii ''height'') = Some (optional_signed (gp_height p))
     \<and> bm_get fs (ascii ''latitude'') = Some (VSigned (gp_latitude p)) \<and> latitude_ok (gp_latitude p)
     \<and> bm_get fs (ascii ''longitude'') = Some (VSigned (gp_longitude p)) \<and> longitude_ok (gp_longitude p)
     \<and> (is_pole (gp_latitude p) \<longrightarrow> gp_longitude p = 0)
     \<and> only_fields fs [''height'', ''latitude'', ''longitude'']"
  by (cases p) (auto simp: decode_geo_fields_def spatial_defs rbind_eq_Inr field_iffs taken_simps
      read_height Let_def geographic_point_new_def split: if_splits)

lemma local2_read:
  assumes "value_wf (VMap fs)" "bm_get fs (ascii ''kind'') = Some (VString (ascii kind))"
    and "decode_local2_fields (bm_remove (ascii ''kind'') fs) = Inr p"
  shows "local2_ok p \<and> fs = named (local2_entries kind p)"
proof -
  have "fs = named (local2_entries kind p) \<and> list_all value_wf (map snd (local2_entries kind p))"
    using taken_named [of fs "local2_entries kind p"] assms point_keys
    by (auto simp: decode_local2_fields_iff taken_simps local2_entries_def)
  then show ?thesis by (auto simp: local2_ok_def local2_entries_def i128_ok_def)
qed

lemma local3_read:
  assumes "value_wf (VMap fs)" "bm_get fs (ascii ''kind'') = Some (VString (ascii kind))"
    and "decode_local3_fields (bm_remove (ascii ''kind'') fs) = Inr p"
  shows "local3_ok p \<and> fs = named (local3_entries kind p)"
proof -
  have "fs = named (local3_entries kind p) \<and> list_all value_wf (map snd (local3_entries kind p))"
    using taken_named [of fs "local3_entries kind p"] assms point_keys
    by (auto simp: decode_local3_fields_iff taken_simps local3_entries_def)
  then show ?thesis by (auto simp: local3_ok_def local3_entries_def i128_ok_def)
qed

lemma geo_point_read:
  assumes "value_wf (VMap fs)" "bm_get fs (ascii ''kind'') = Some (VString (ascii kind))"
    and "decode_geo_fields (bm_remove (ascii ''kind'') fs) = Inr p"
  shows "geo_point_ok p \<and> fs = named (geo_point_entries kind p)"
proof -
  have "fs = named (geo_point_entries kind p) \<and> list_all value_wf (map snd (geo_point_entries kind p))"
    by (rule taken_named [OF assms(1), where keys = "[''kind'', ''height'', ''latitude'', ''longitude'']"])
      (use assms(2,3) point_keys in
        \<open>auto simp: decode_geo_fields_iff taken_simps geo_point_entries_def\<close>)
  then show ?thesis
    using assms(3)
    by (auto simp: geo_point_ok_def geo_point_entries_def i128_ok_def decode_geo_fields_iff
        optional_signed_def split: option.splits)
qed

lemma points_back:
  "decode_local2_fields (named [(''x'', VSigned (lp2_x p2)), (''y'', VSigned (lp2_y p2))]) = Inr p2"
  "decode_local3_fields (named [(''x'', VSigned (lp3_x p3)), (''y'', VSigned (lp3_y p3)),
      (''z'', VSigned (lp3_z p3))]) = Inr p3"
  "geo_point_ok g \<Longrightarrow> decode_geo_fields (named [(''height'', optional_signed (gp_height g)),
      (''latitude'', VSigned (gp_latitude g)), (''longitude'', VSigned (gp_longitude g))]) = Inr g"
  by (simp_all add: decode_local2_fields_iff decode_local3_fields_iff decode_geo_fields_iff bm_get_def
      only_fields_def named_def geo_point_ok_def)

text \<open>Corners of boxes are points of kind \<open>point\<close>.\<close>

lemma corner_key: "plain_key ''point''"
  by (simp add: plain_key_def)

interpretation corner2_codec:
  value_codec "encode_local2 granting ''point''" decode_local2 local2_ok 1 5 800
proof (rule value_codecI [where entries = "local2_entries ''point''"])
  fix p
  assume ok: "local2_ok p"
  then show "encode_local2 granting ''point'' p = Inr (VMap (named (local2_entries ''point'' p)))
    \<and> val_in 1 5 800 (VMap (named (local2_entries ''point'' p)))"
    by (rule encode_local2_eq [OF _ corner_key])
  show "decode_local2 (VMap (named (local2_entries ''point'' p))) = Inr p"
    using point_keys by (simp add: decode_local2_def local2_entries_def spatial_read points_back)
next
  fix v p
  assume wf: "value_wf v" and dec: "decode_local2 v = Inr p"
  then obtain fs where "v = VMap fs" "bm_get fs (ascii ''kind'') = Some (VString (ascii ''point''))"
      "decode_local2_fields (bm_remove (ascii ''kind'') fs) = Inr p"
    by (auto simp: decode_local2_def spatial_defs rbind_eq_Inr fields_new_iff [OF wf] field_iffs)
  with wf show "local2_ok p \<and> v = VMap (named (local2_entries ''point'' p))"
    using local2_read by simp
qed

interpretation corner3_codec:
  value_codec "encode_local3 granting ''point''" decode_local3 local3_ok 1 5 800
proof (rule value_codecI [where entries = "local3_entries ''point''"])
  fix p
  assume ok: "local3_ok p"
  then show "encode_local3 granting ''point'' p = Inr (VMap (named (local3_entries ''point'' p)))
    \<and> val_in 1 5 800 (VMap (named (local3_entries ''point'' p)))"
    by (rule encode_local3_eq [OF _ corner_key])
  show "decode_local3 (VMap (named (local3_entries ''point'' p))) = Inr p"
    using point_keys by (simp add: decode_local3_def local3_entries_def spatial_read points_back)
next
  fix v p
  assume wf: "value_wf v" and dec: "decode_local3 v = Inr p"
  then obtain fs where "v = VMap fs" "bm_get fs (ascii ''kind'') = Some (VString (ascii ''point''))"
      "decode_local3_fields (bm_remove (ascii ''kind'') fs) = Inr p"
    by (auto simp: decode_local3_def spatial_defs rbind_eq_Inr fields_new_iff [OF wf] field_iffs)
  with wf show "local3_ok p \<and> v = VMap (named (local3_entries ''point'' p))"
    using local3_read by simp
qed

text \<open>A decoder that reads the kind first and continues with the other fields.\<close>

lemma kind_dispatch:
  assumes wf: "value_wf v"
    and "rbind (spatial_fields v) (\<lambda>fs. rbind (spatial_take ''kind'' fs) (\<lambda>(x, fs).
      rbind (take_text SInvalidEncoding x) (\<lambda>kind. f kind fs))) = Inr p"
  shows "\<exists>fs kind. v = VMap fs \<and> bm_get fs (ascii ''kind'') = Some (VString kind)
    \<and> f kind (bm_remove (ascii ''kind'') fs) = Inr p"
  using assms(2)
  by (auto simp: rbind_eq_Inr spatial_defs fields_new_iff [OF wf] field_take_iff take_text_iff)

section \<open>Positions\<close>

fun position_ok :: "spatial_position \<Rightarrow> bool" where
  "position_ok (Local2 p) \<longleftrightarrow> local2_ok p"
| "position_ok (Local3 p) \<longleftrightarrow> local3_ok p"
| "position_ok (Geographic p) \<longleftrightarrow> geo_point_ok p"

fun position_entries :: "spatial_position \<Rightarrow> (string \<times> val) list" where
  "position_entries (Local2 p) = local2_entries ''local_2'' p"
| "position_entries (Local3 p) = local3_entries ''local_3'' p"
| "position_entries (Geographic p) = geo_point_entries ''geographic'' p"

interpretation position_codec:
  value_codec "encode_position granting" decode_position position_ok 1 5 800
proof (rule value_codecI [where entries = position_entries])
  fix p
  assume ok: "position_ok p"
  show "encode_position granting p = Inr (VMap (named (position_entries p)))
    \<and> val_in 1 5 800 (VMap (named (position_entries p)))"
    using ok encode_local2_eq [of _ "''local_2''"] encode_local3_eq [of _ "''local_3''"]
      encode_geo_point_eq [of _ "''geographic''"]
    by (cases p) (auto simp: encode_position_def plain_key_def intro: val_in_mono)
  show "decode_position (VMap (named (position_entries p))) = Inr p"
    using ok point_keys
    by (cases p) (simp_all add: decode_position_def local2_entries_def local3_entries_def
        geo_point_entries_def spatial_read points_back)
next
  fix v p
  assume wf: "value_wf v" and dec: "decode_position v = Inr p"
  from kind_dispatch [OF wf dec [unfolded decode_position_def]]
  obtain fs kind where v: "v = VMap fs" "bm_get fs (ascii ''kind'') = Some (VString kind)"
    and choice: "(if kind = ascii ''local_2'' then
         rbind (decode_local2_fields (bm_remove (ascii ''kind'') fs)) (\<lambda>p. Inr (Local2 p))
       else if kind = ascii ''local_3'' then
         rbind (decode_local3_fields (bm_remove (ascii ''kind'') fs)) (\<lambda>p. Inr (Local3 p))
       else if kind = ascii ''geographic'' then
         rbind (decode_geo_fields (bm_remove (ascii ''kind'') fs)) (\<lambda>p. Inr (Geographic p))
       else Inl SInvalidEncoding) = Inr p"
    by blast
  from choice consider
      (two) q where "kind = ascii ''local_2''" "p = Local2 q"
        "decode_local2_fields (bm_remove (ascii ''kind'') fs) = Inr q"
    | (three) q where "kind = ascii ''local_3''" "p = Local3 q"
        "decode_local3_fields (bm_remove (ascii ''kind'') fs) = Inr q"
    | (geo) q where "kind = ascii ''geographic''" "p = Geographic q"
        "decode_geo_fields (bm_remove (ascii ''kind'') fs) = Inr q"
    by (auto simp: rbind_eq_Inr split: if_splits)
  then show "position_ok p \<and> v = VMap (named (position_entries p))"
  proof cases
    case two
    then show ?thesis using local2_read [of fs "''local_2''" q] v wf by simp
  next
    case three
    then show ?thesis using local3_read [of fs "''local_3''" q] v wf by simp
  next
    case geo
    then show ?thesis using geo_point_read [of fs "''geographic''" q] v wf by simp
  qed
qed

section \<open>Geometry\<close>

definition box2_ok :: "local_box2 \<Rightarrow> bool" where
  "box2_ok b \<longleftrightarrow> local2_ok (lb2_min b) \<and> local2_ok (lb2_max b)
     \<and> lp2_x (lb2_min b) \<le> lp2_x (lb2_max b) \<and> lp2_y (lb2_min b) \<le> lp2_y (lb2_max b)"

definition box3_ok :: "local_box3 \<Rightarrow> bool" where
  "box3_ok b \<longleftrightarrow> local3_ok (lb3_min b) \<and> local3_ok (lb3_max b)
     \<and> lp3_x (lb3_min b) \<le> lp3_x (lb3_max b) \<and> lp3_y (lb3_min b) \<le> lp3_y (lb3_max b)
     \<and> lp3_z (lb3_min b) \<le> lp3_z (lb3_max b)"

definition geo_box_ok :: "geographic_box \<Rightarrow> bool" where
  "geo_box_ok b \<longleftrightarrow> longitude_ok (gb_west b) \<and> longitude_ok (gb_east b) \<and> latitude_ok (gb_south b)
     \<and> latitude_ok (gb_north b) \<and> gb_south b \<le> gb_north b"

fun geometry_ok :: "geometry \<Rightarrow> bool" where
  "geometry_ok (GLocalPoint2 p) \<longleftrightarrow> local2_ok p"
| "geometry_ok (GLocalPoint3 p) \<longleftrightarrow> local3_ok p"
| "geometry_ok (GGeographicPoint p) \<longleftrightarrow> geo_point_ok p"
| "geometry_ok (GLocalBox2 b) \<longleftrightarrow> box2_ok b"
| "geometry_ok (GLocalBox3 b) \<longleftrightarrow> box3_ok b"
| "geometry_ok (GGeographicBox b) \<longleftrightarrow> geo_box_ok b"

definition box2_entries :: "local_box2 \<Rightarrow> (string \<times> val) list" where
  "box2_entries b =
     [(''kind'', VString (ascii ''local_box_2'')),
      (''max'', projr (encode_local2 granting ''point'' (lb2_max b))),
      (''min'', projr (encode_local2 granting ''point'' (lb2_min b)))]"

definition box3_entries :: "local_box3 \<Rightarrow> (string \<times> val) list" where
  "box3_entries b =
     [(''kind'', VString (ascii ''local_box_3'')),
      (''max'', projr (encode_local3 granting ''point'' (lb3_max b))),
      (''min'', projr (encode_local3 granting ''point'' (lb3_min b)))]"

definition geo_box_entries :: "geographic_box \<Rightarrow> (string \<times> val) list" where
  "geo_box_entries b =
     [(''east'', VSigned (gb_east b)), (''kind'', VString (ascii ''geographic_box'')),
      (''north'', VSigned (gb_north b)), (''south'', VSigned (gb_south b)), (''west'', VSigned (gb_west b))]"

fun geometry_entries :: "geometry \<Rightarrow> (string \<times> val) list" where
  "geometry_entries (GLocalPoint2 p) = local2_entries ''local_point_2'' p"
| "geometry_entries (GLocalPoint3 p) = local3_entries ''local_point_3'' p"
| "geometry_entries (GGeographicPoint p) = geo_point_entries ''geographic_point'' p"
| "geometry_entries (GLocalBox2 b) = box2_entries b"
| "geometry_entries (GLocalBox3 b) = box3_entries b"
| "geometry_entries (GGeographicBox b) = geo_box_entries b"

lemma box_keys:
  "plain_keys [''kind'', ''max'', ''min'']"
  "plain_keys [''east'', ''kind'', ''north'', ''south'', ''west'']"
  by (simp_all add: plain_keys_def plain_key_def ascii_def)

lemma encode_box2_eq:
  assumes "box2_ok b"
  shows "encode_geometry granting (GLocalBox2 b) = Inr (VMap (named (box2_entries b)))
    \<and> val_in 2 20 3000 (VMap (named (box2_entries b)))"
proof -
  have ok: "local2_ok (lb2_min b)" "local2_ok (lb2_max b)" using assms by (simp_all add: box2_ok_def)
  have "map_value SResourceLimit (box2_entries b) = Inr (VMap (named (box2_entries b)))
      \<and> val_in (Suc 1) 20 3000 (VMap (named (box2_entries b)))"
    by (rule record_encodes [where n = 5 and p = 800])
      (use ok box_keys in \<open>auto intro!: corner2_codec.written_in val_in_name name_ok_ascii
        simp: box2_entries_def plain_key_def value_limits simp del: One_nat_def\<close>)
  then show ?thesis
    by (simp add: encode_geometry_def box2_entries_def spatial_map_granting spatial_text_plain
        plain_key_def corner2_codec.rbind_written ok numeral_2_eq_2)
qed

lemma encode_box3_eq:
  assumes "box3_ok b"
  shows "encode_geometry granting (GLocalBox3 b) = Inr (VMap (named (box3_entries b)))
    \<and> val_in 2 20 3000 (VMap (named (box3_entries b)))"
proof -
  have ok: "local3_ok (lb3_min b)" "local3_ok (lb3_max b)" using assms by (simp_all add: box3_ok_def)
  have "map_value SResourceLimit (box3_entries b) = Inr (VMap (named (box3_entries b)))
      \<and> val_in (Suc 1) 20 3000 (VMap (named (box3_entries b)))"
    by (rule record_encodes [where n = 5 and p = 800])
      (use ok box_keys in \<open>auto intro!: corner3_codec.written_in val_in_name name_ok_ascii
        simp: box3_entries_def plain_key_def value_limits simp del: One_nat_def\<close>)
  then show ?thesis
    by (simp add: encode_geometry_def box3_entries_def spatial_map_granting spatial_text_plain
        plain_key_def corner3_codec.rbind_written ok numeral_2_eq_2)
qed

lemma encode_geo_box_eq:
  assumes "geo_box_ok b"
  shows "encode_geometry granting (GGeographicBox b) = Inr (VMap (named (geo_box_entries b)))
    \<and> val_in 2 20 3000 (VMap (named (geo_box_entries b)))"
proof -
  have "list_all (val_in 1 1 84) (map snd (geo_box_entries b))"
    using assms angles_i128
    by (auto simp: geo_box_entries_def geo_box_ok_def plain_key_def
        intro!: val_in_signed val_in_name name_ok_ascii)
  then have "map_value SResourceLimit (geo_box_entries b) = Inr (VMap (named (geo_box_entries b)))
      \<and> val_in (Suc 1) 20 3000 (VMap (named (geo_box_entries b)))"
    by (rule record_encodes [rotated]) (use box_keys in \<open>auto simp: geo_box_entries_def value_limits\<close>)
  then show ?thesis
    by (simp add: encode_geometry_def geo_box_entries_def spatial_map_granting spatial_text_plain
        plain_key_def numeral_2_eq_2)
qed

lemma local_box2_new_iff:
  "local_box2_new lo hi = Inr b \<longleftrightarrow> b = LocalBox2 lo hi \<and> lp2_x lo \<le> lp2_x hi \<and> lp2_y lo \<le> lp2_y hi"
  by (auto simp: local_box2_new_def)

lemma local_box3_new_iff:
  "local_box3_new lo hi = Inr b \<longleftrightarrow> b = LocalBox3 lo hi \<and> lp3_x lo \<le> lp3_x hi \<and> lp3_y lo \<le> lp3_y hi
     \<and> lp3_z lo \<le> lp3_z hi"
  by (auto simp: local_box3_new_def)

lemma geographic_box_new_iff:
  "geographic_box_new w e s n = Inr b \<longleftrightarrow> b = GeographicBox w e s n \<and> s \<le> n"
  by (auto simp: geographic_box_new_def)

lemma box2_read:
  assumes wf: "value_wf (VMap fs)" and kind: "bm_get fs (ascii ''kind'') = Some (VString (ascii ''local_box_2''))"
    and dec: "decode_box2_fields (bm_remove (ascii ''kind'') fs) = Inr b"
  shows "box2_ok b \<and> fs = named (box2_entries b)"
proof -
  obtain vh vl where got: "bm_get fs (ascii ''max'') = Some vh" "bm_get fs (ascii ''min'') = Some vl"
      "decode_local2 vh = Inr (lb2_max b)" "decode_local2 vl = Inr (lb2_min b)"
      "only_fields fs [''kind'', ''max'', ''min'']"
    and ordered: "lp2_x (lb2_min b) \<le> lp2_x (lb2_max b)" "lp2_y (lb2_min b) \<le> lp2_y (lb2_max b)"
    using dec
    by (auto simp: decode_box2_fields_def spatial_defs rbind_eq_Inr field_iffs taken_simps local_box2_new_iff)
  have exact: "fs = named [(''kind'', VString (ascii ''local_box_2'')), (''max'', vh), (''min'', vl)]
      \<and> list_all value_wf [VString (ascii ''local_box_2''), vh, vl]"
    using taken_named [of fs "[(''kind'', VString (ascii ''local_box_2'')), (''max'', vh), (''min'', vl)]"]
      wf kind got box_keys by auto
  then have "local2_ok (lb2_max b) \<and> vh = projr (encode_local2 granting ''point'' (lb2_max b))"
      "local2_ok (lb2_min b) \<and> vl = projr (encode_local2 granting ''point'' (lb2_min b))"
    using got by (auto dest: corner2_codec.read_written)
  then show ?thesis using exact ordered by (simp add: box2_ok_def box2_entries_def)
qed

lemma box3_read:
  assumes wf: "value_wf (VMap fs)" and kind: "bm_get fs (ascii ''kind'') = Some (VString (ascii ''local_box_3''))"
    and dec: "decode_box3_fields (bm_remove (ascii ''kind'') fs) = Inr b"
  shows "box3_ok b \<and> fs = named (box3_entries b)"
proof -
  obtain vh vl where got: "bm_get fs (ascii ''max'') = Some vh" "bm_get fs (ascii ''min'') = Some vl"
      "decode_local3 vh = Inr (lb3_max b)" "decode_local3 vl = Inr (lb3_min b)"
      "only_fields fs [''kind'', ''max'', ''min'']"
    and ordered: "lp3_x (lb3_min b) \<le> lp3_x (lb3_max b)" "lp3_y (lb3_min b) \<le> lp3_y (lb3_max b)"
      "lp3_z (lb3_min b) \<le> lp3_z (lb3_max b)"
    using dec
    by (auto simp: decode_box3_fields_def spatial_defs rbind_eq_Inr field_iffs taken_simps local_box3_new_iff)
  have exact: "fs = named [(''kind'', VString (ascii ''local_box_3'')), (''max'', vh), (''min'', vl)]
      \<and> list_all value_wf [VString (ascii ''local_box_3''), vh, vl]"
    using taken_named [of fs "[(''kind'', VString (ascii ''local_box_3'')), (''max'', vh), (''min'', vl)]"]
      wf kind got box_keys by auto
  then have "local3_ok (lb3_max b) \<and> vh = projr (encode_local3 granting ''point'' (lb3_max b))"
      "local3_ok (lb3_min b) \<and> vl = projr (encode_local3 granting ''point'' (lb3_min b))"
    using got by (auto dest: corner3_codec.read_written)
  then show ?thesis using exact ordered by (simp add: box3_ok_def box3_entries_def)
qed

lemma geo_box_read:
  assumes wf: "value_wf (VMap fs)" and kind: "bm_get fs (ascii ''kind'') = Some (VString (ascii ''geographic_box''))"
    and dec: "decode_geo_box_fields (bm_remove (ascii ''kind'') fs) = Inr b"
  shows "geo_box_ok b \<and> fs = named (geo_box_entries b)"
proof -
  have got: "bm_get fs (ascii ''east'') = Some (VSigned (gb_east b))"
      "bm_get fs (ascii ''north'') = Some (VSigned (gb_north b))"
      "bm_get fs (ascii ''south'') = Some (VSigned (gb_south b))"
      "bm_get fs (ascii ''west'') = Some (VSigned (gb_west b))"
      "only_fields fs [''kind'', ''east'', ''north'', ''south'', ''west'']" and ok: "geo_box_ok b"
    using dec
    by (auto simp: decode_geo_box_fields_def spatial_defs rbind_eq_Inr field_iffs taken_simps
        geographic_box_new_iff geo_box_ok_def)
  have "fs = named (geo_box_entries b) \<and> list_all value_wf (map snd (geo_box_entries b))"
    by (rule taken_named [OF wf, where keys = "[''kind'', ''east'', ''north'', ''south'', ''west'']"])
      (use got kind box_keys in \<open>auto simp: geo_box_entries_def\<close>)
  with ok show ?thesis by simp
qed

lemma boxes_back:
  "box2_ok b2 \<Longrightarrow> decode_box2_fields (named [(''max'', projr (encode_local2 granting ''point'' (lb2_max b2))),
     (''min'', projr (encode_local2 granting ''point'' (lb2_min b2)))]) = Inr b2"
  "box3_ok b3 \<Longrightarrow> decode_box3_fields (named [(''max'', projr (encode_local3 granting ''point'' (lb3_max b3))),
     (''min'', projr (encode_local3 granting ''point'' (lb3_min b3)))]) = Inr b3"
  "geo_box_ok g \<Longrightarrow> decode_geo_box_fields (named [(''east'', VSigned (gb_east g)),
     (''north'', VSigned (gb_north g)), (''south'', VSigned (gb_south g)), (''west'', VSigned (gb_west g))]) = Inr g"
  by (simp_all add: decode_box2_fields_def decode_box3_fields_def decode_geo_box_fields_def spatial_read
      corner2_codec.written_read corner3_codec.written_read map_err_eq_Inr local_box2_new_iff
      local_box3_new_iff geographic_box_new_iff box2_ok_def box3_ok_def geo_box_ok_def)

lemma encode_geometry_eq:
  assumes "geometry_ok g"
  shows "encode_geometry granting g = Inr (VMap (named (geometry_entries g)))
    \<and> val_in 2 20 3000 (VMap (named (geometry_entries g)))"
proof (cases g)
  case (GLocalPoint2 p)
  then show ?thesis
    using assms encode_local2_eq [of p "''local_point_2''"] val_in_mono [of 1 5 800]
    by (simp add: encode_geometry_def plain_key_def)
next
  case (GLocalPoint3 p)
  then show ?thesis
    using assms encode_local3_eq [of p "''local_point_3''"] val_in_mono [of 1 5 800]
    by (simp add: encode_geometry_def plain_key_def)
next
  case (GGeographicPoint p)
  then show ?thesis
    using assms encode_geo_point_eq [of p "''geographic_point''"] val_in_mono [of 1 5 800]
    by (simp add: encode_geometry_def plain_key_def)
qed (use assms encode_box2_eq encode_box3_eq encode_geo_box_eq in auto)

lemma decode_geometry_inv:
  assumes wf: "value_wf v" and dec: "decode_geometry v = Inr g"
  shows "geometry_ok g \<and> v = VMap (named (geometry_entries g))"
proof -
  from kind_dispatch [OF wf dec [unfolded decode_geometry_def]]
  obtain fs kind where v: "v = VMap fs" "bm_get fs (ascii ''kind'') = Some (VString kind)"
    and choice: "(let fs = bm_remove (ascii ''kind'') fs in
     if kind = ascii ''local_point_2'' then rbind (decode_local2_fields fs) (\<lambda>p. Inr (GLocalPoint2 p))
     else if kind = ascii ''local_point_3'' then rbind (decode_local3_fields fs) (\<lambda>p. Inr (GLocalPoint3 p))
     else if kind = ascii ''geographic_point'' then
       rbind (decode_geo_fields fs) (\<lambda>p. Inr (GGeographicPoint p))
     else if kind = ascii ''local_box_2'' then rbind (decode_box2_fields fs) (\<lambda>b. Inr (GLocalBox2 b))
     else if kind = ascii ''local_box_3'' then rbind (decode_box3_fields fs) (\<lambda>b. Inr (GLocalBox3 b))
     else if kind = ascii ''geographic_box'' then
       rbind (decode_geo_box_fields fs) (\<lambda>b. Inr (GGeographicBox b))
     else Inl SInvalidEncoding) = Inr g"
    unfolding Let_def by blast
  show ?thesis
  proof (cases g)
    case (GLocalPoint2 p)
    with choice have "kind = ascii ''local_point_2''"
        "decode_local2_fields (bm_remove (ascii ''kind'') fs) = Inr p"
      by (auto simp: rbind_eq_Inr Let_def split: if_splits)
    with GLocalPoint2 show ?thesis using local2_read [of fs "''local_point_2''" p] v wf by simp
  next
    case (GLocalPoint3 p)
    with choice have "kind = ascii ''local_point_3''"
        "decode_local3_fields (bm_remove (ascii ''kind'') fs) = Inr p"
      by (auto simp: rbind_eq_Inr Let_def split: if_splits)
    with GLocalPoint3 show ?thesis using local3_read [of fs "''local_point_3''" p] v wf by simp
  next
    case (GGeographicPoint p)
    with choice have "kind = ascii ''geographic_point''"
        "decode_geo_fields (bm_remove (ascii ''kind'') fs) = Inr p"
      by (auto simp: rbind_eq_Inr Let_def split: if_splits)
    with GGeographicPoint show ?thesis using geo_point_read [of fs "''geographic_point''" p] v wf by simp
  next
    case (GLocalBox2 b)
    with choice have "kind = ascii ''local_box_2''" "decode_box2_fields (bm_remove (ascii ''kind'') fs) = Inr b"
      by (auto simp: rbind_eq_Inr Let_def split: if_splits)
    with GLocalBox2 show ?thesis using box2_read [of fs b] v wf by simp
  next
    case (GLocalBox3 b)
    with choice have "kind = ascii ''local_box_3''" "decode_box3_fields (bm_remove (ascii ''kind'') fs) = Inr b"
      by (auto simp: rbind_eq_Inr Let_def split: if_splits)
    with GLocalBox3 show ?thesis using box3_read [of fs b] v wf by simp
  next
    case (GGeographicBox b)
    with choice have "kind = ascii ''geographic_box''" "decode_geo_box_fields (bm_remove (ascii ''kind'') fs) = Inr b"
      by (auto simp: rbind_eq_Inr Let_def split: if_splits)
    with GGeographicBox show ?thesis using geo_box_read [of fs b] v wf by simp
  qed
qed

interpretation geometry_codec:
  value_codec "encode_geometry granting" decode_geometry geometry_ok 2 20 3000
proof (rule value_codecI [where entries = geometry_entries])
  fix g
  assume ok: "geometry_ok g"
  then show "encode_geometry granting g = Inr (VMap (named (geometry_entries g)))
    \<and> val_in 2 20 3000 (VMap (named (geometry_entries g)))" by (rule encode_geometry_eq)
  show "decode_geometry (VMap (named (geometry_entries g))) = Inr g"
    using ok point_keys box_keys
    by (cases g) (simp_all add: decode_geometry_def local2_entries_def local3_entries_def
        geo_point_entries_def box2_entries_def box3_entries_def geo_box_entries_def spatial_read
        points_back boxes_back)
qed (rule decode_geometry_inv)

end
