(* ===== verification/Spatial_Records.thy ===== *)
theory Spatial_Records
  imports Spatial_Parts
begin

text \<open>
  Complete spatial records are read back exactly: the byte codec of \<open>uste-spatial/src/codec.rs\<close>
  accepts exactly the encodings of the records its checking constructors admit.
\<close>

section \<open>Uncertainty, source events and keys\<close>

fun uncertainty_items :: "position_uncertainty \<Rightarrow> (string \<times> val) list" where
  "uncertainty_items PositionUnknown =
     [(''kind'', VString (ascii ''unknown'')), (''radial_nanometres'', VNull)]"
| "uncertainty_items (Radial r) =
     [(''kind'', VString (ascii ''radial'')), (''radial_nanometres'', VUnsigned r)]"

lemma uncertainty_item_keys: "plain_keys [''kind'', ''radial_nanometres'']"
  by (simp add: plain_keys_def plain_key_def ascii_def)

lemma encode_position_uncertainty_eq:
  "encode_uncertainty granting u = Inr (VMap (named (uncertainty_items u)))
    \<and> val_in 1 3 400 (VMap (named (uncertainty_items u)))"
proof -
  have "map_value SResourceLimit (uncertainty_items u) = Inr (VMap (named (uncertainty_items u)))
      \<and> val_in (Suc 0) 3 400 (VMap (named (uncertainty_items u)))"
    by (rule record_encodes [where n = 1 and p = 84]; cases u)
      (use uncertainty_item_keys in \<open>auto intro!: val_in_intros val_in_name name_ok_ascii
        simp: plain_key_def value_limits\<close>)
  then show ?thesis
    by (cases u) (simp_all add: encode_uncertainty_def spatial_map_granting spatial_text_plain plain_key_def)
qed

interpretation position_uncertainty_codec:
  value_codec "encode_uncertainty granting" decode_uncertainty "\<lambda>_. True" 1 3 400
proof (rule value_codecI [where entries = uncertainty_items])
  fix u
  show "encode_uncertainty granting u = Inr (VMap (named (uncertainty_items u)))
    \<and> val_in 1 3 400 (VMap (named (uncertainty_items u)))" by (rule encode_position_uncertainty_eq)
  show "decode_uncertainty (VMap (named (uncertainty_items u))) = Inr u"
    using uncertainty_item_keys by (cases u) (simp_all add: decode_uncertainty_def spatial_read)
next
  fix v u
  assume wf: "value_wf v" and dec: "decode_uncertainty v = Inr u"
  then obtain fs kind radial where v: "v = VMap fs"
    and got: "bm_get fs (ascii ''kind'') = Some (VString kind)"
      "bm_get fs (ascii ''radial_nanometres'') = Some radial" "only_fields fs [''kind'', ''radial_nanometres'']"
    and choice: "(case radial of
         VNull \<Rightarrow> if kind = ascii ''unknown'' then Inr PositionUnknown else Inl SInvalidEncoding
       | VUnsigned r \<Rightarrow> if kind = ascii ''radial'' then Inr (Radial r) else Inl SInvalidEncoding
       | _ \<Rightarrow> Inl SInvalidEncoding) = Inr u"
    unfolding decode_uncertainty_def
    by (auto simp: rbind_eq_Inr spatial_defs fields_new_iff [OF wf] field_take_iff take_text_iff taken_simps)
  have items: "uncertainty_items u = [(''kind'', VString kind), (''radial_nanometres'', radial)]"
    using choice by (cases radial) (auto split: if_splits)
  have "fs = named (uncertainty_items u)"
    using taken_named [of fs "uncertainty_items u"] wf v got uncertainty_item_keys by (auto simp: items)
  with v show "True \<and> v = VMap (named (uncertainty_items u))" by simp
qed

definition source_event_ok :: "source_event_ref \<Rightarrow> bool" where
  "source_event_ok r \<longleftrightarrow> namespace_ref_ok (se_scope r) \<and> identity_ok (se_source_event r)"

definition source_event_entries :: "source_event_ref \<Rightarrow> (string \<times> val) list" where
  "source_event_entries r =
     [(''database'', VBytes (ns_database (se_scope r))), (''event'', VBytes (se_source_event r)),
      (''namespace'', VBytes (ns_namespace (se_scope r)))]"

lemma source_event_keys: "plain_keys [''database'', ''event'', ''namespace'']"
  by (simp add: plain_keys_def plain_key_def ascii_def)

lemma spatial_bytes_eq: "identity_ok bs \<Longrightarrow> spatial_bytes bs = Inr (VBytes bs)"
  by (simp add: spatial_bytes_def bytes_new_def check_inline_length_def identity_ok_def value_limits)

lemma encode_source_event_eq:
  assumes "source_event_ok r"
  shows "encode_source_event granting r = Inr (VMap (named (source_event_entries r)))
    \<and> val_in 1 4 400 (VMap (named (source_event_entries r)))"
proof -
  have "map_value SResourceLimit (source_event_entries r) = Inr (VMap (named (source_event_entries r)))
      \<and> val_in (Suc 0) 4 400 (VMap (named (source_event_entries r)))"
    by (rule record_encodes [where n = 1 and p = 36])
      (use assms source_event_keys in \<open>auto intro!: val_in_bytes
        simp: source_event_entries_def source_event_ok_def namespace_ref_ok_def identity_ok_def value_limits\<close>)
  then show ?thesis
    using assms
    by (simp add: encode_source_event_def spatial_bytes_eq spatial_map_granting source_event_entries_def
        source_event_ok_def namespace_ref_ok_def)
qed

interpretation source_event_codec:
  value_codec "encode_source_event granting" decode_source_event source_event_ok 1 4 400
proof (rule value_codecI [where entries = source_event_entries])
  fix r
  assume ok: "source_event_ok r"
  then show "encode_source_event granting r = Inr (VMap (named (source_event_entries r)))
    \<and> val_in 1 4 400 (VMap (named (source_event_entries r)))" by (rule encode_source_event_eq)
  show "decode_source_event (VMap (named (source_event_entries r))) = Inr r"
    using ok source_event_keys
    by (simp add: decode_source_event_def source_event_entries_def spatial_read source_event_ok_def
        namespace_ref_ok_def)
next
  fix v r
  assume wf: "value_wf v" and dec: "decode_source_event v = Inr r"
  then obtain fs where v: "v = VMap fs" "source_event_ok r"
    and got: "bm_get fs (ascii ''database'') = Some (VBytes (ns_database (se_scope r)))"
      "bm_get fs (ascii ''event'') = Some (VBytes (se_source_event r))"
      "bm_get fs (ascii ''namespace'') = Some (VBytes (ns_namespace (se_scope r)))"
      "only_fields fs [''database'', ''event'', ''namespace'']"
    by (auto simp: decode_source_event_def rbind_eq_Inr spatial_defs fields_new_iff [OF wf] field_iffs
        taken_simps source_event_ok_def namespace_ref_ok_def)
  have "fs = named (source_event_entries r)"
    using taken_named [of fs "source_event_entries r"] wf v got source_event_keys
    by (auto simp: source_event_entries_def)
  with v show "source_event_ok r \<and> v = VMap (named (source_event_entries r))" by simp
qed

definition key_ok :: "observation_key \<Rightarrow> bool" where
  "key_ok k \<longleftrightarrow> record_ref_ok (key_source k) \<and> source_event_ok (key_event k) \<and> utf8_valid (key_session k)
     \<and> observation_key_new (key_source k) (key_session k) (key_event k) = Inr k"

definition key_entries :: "observation_key \<Rightarrow> (string \<times> val) list" where
  "key_entries k =
     [(''event'', projr (encode_source_event granting (key_event k))),
      (''session'', VString (key_session k)), (''source'', VRecordRef (key_source k))]"

lemma observation_key_keys: "plain_keys [''event'', ''session'', ''source'']"
  by (simp add: plain_keys_def plain_key_def ascii_def)

lemma key_session_ok: "key_ok k \<Longrightarrow> string_ok (key_session k) \<and> length (key_session k) \<le> 255"
  by (auto simp: key_ok_def observation_key_new_iff string_ok_def spatial_limits value_limits)

lemma encode_key_eq:
  assumes "key_ok k"
  shows "encode_key granting k = Inr (VMap (named (key_entries k)))
    \<and> val_in 2 13 2000 (VMap (named (key_entries k)))"
proof -
  have ok: "source_event_ok (key_event k)" "record_ref_ok (key_source k)"
    using assms by (simp_all add: key_ok_def)
  have "val_in 1 4 400 (VString (key_session k))"
    using key_session_ok [OF assms] by (intro val_in_string) auto
  then have "map_value SResourceLimit (key_entries k) = Inr (VMap (named (key_entries k)))
      \<and> val_in (Suc 1) 13 2000 (VMap (named (key_entries k)))"
    by (intro record_encodes [where n = 4 and p = 400])
      (use ok observation_key_keys in \<open>auto intro!: source_event_codec.written_in val_in_record
        simp: key_entries_def value_limits simp del: One_nat_def\<close>)
  then show ?thesis
    using key_session_ok [OF assms]
    by (simp add: encode_key_def source_event_codec.rbind_written ok spatial_text_eq string_ok_def
        spatial_map_granting key_entries_def numeral_2_eq_2)
qed

interpretation key_codec: value_codec "encode_key granting" decode_key key_ok 2 13 2000
proof (rule value_codecI [where entries = key_entries])
  fix k
  assume ok: "key_ok k"
  then show "encode_key granting k = Inr (VMap (named (key_entries k)))
    \<and> val_in 2 13 2000 (VMap (named (key_entries k)))" by (rule encode_key_eq)
  show "decode_key (VMap (named (key_entries k))) = Inr k"
    using ok observation_key_keys
    by (simp add: decode_key_def key_entries_def spatial_read source_event_codec.written_read key_ok_def)
next
  fix v k
  assume wf: "value_wf v" and dec: "decode_key v = Inr k"
  then obtain fs ve where v: "v = VMap fs" "decode_source_event ve = Inr (key_event k)"
      "observation_key_new (key_source k) (key_session k) (key_event k) = Inr k"
    and got: "bm_get fs (ascii ''event'') = Some ve"
      "bm_get fs (ascii ''session'') = Some (VString (key_session k))"
      "bm_get fs (ascii ''source'') = Some (VRecordRef (key_source k))"
      "only_fields fs [''event'', ''session'', ''source'']"
    by (auto simp: decode_key_def rbind_eq_Inr spatial_defs fields_new_iff [OF wf] field_take_iff
        take_text_iff take_record_iff taken_simps observation_key_new_iff)
  let ?es = "[(''event'', ve), (''session'', VString (key_session k)), (''source'', VRecordRef (key_source k))]"
  have exact: "fs = named ?es \<and> list_all value_wf (map snd ?es)"
    using taken_named [of fs ?es] wf v got observation_key_keys by auto
  then have "source_event_ok (key_event k) \<and> ve = projr (encode_source_event granting (key_event k))"
    using v(2) by (intro source_event_codec.read_written) simp_all
  with exact v show "key_ok k \<and> v = VMap (named (key_entries k))"
    by (simp add: key_ok_def key_entries_def string_ok_def)
qed

section \<open>Optional parts\<close>

lemma value_codec_optional:
  assumes codec: "value_codec enc dec ok d n p" and null: "\<And>x. dec VNull \<noteq> Inr x" and "1 \<le> n" "1 \<le> p"
  shows "value_codec (encode_optional enc) (decode_optional dec)
    (\<lambda>x. case x of None \<Rightarrow> True | Some x \<Rightarrow> ok x) d n p"
proof
  fix x
  assume "case x of None \<Rightarrow> True | Some x \<Rightarrow> ok x"
  then show "\<exists>v. encode_optional enc x = Inr v \<and> val_in d n p v"
    using value_codec.enc_in [OF codec] val_in_null [OF assms(3,4)]
    by (auto simp: encode_optional_def split: option.splits)
next
  fix v x
  assume wf: "value_wf v"
  have dec: "decode_optional dec v = Inr x \<longleftrightarrow>
      v = VNull \<and> x = None \<or> (\<exists>y. v \<noteq> VNull \<and> x = Some y \<and> dec v = Inr y)"
    by (cases v) (auto simp: decode_optional_def rbind_eq_Inr)
  have "enc y \<noteq> Inr VNull" if "ok y" for y
    using value_codec.dec_iff [OF codec, of VNull y] null that by auto
  then show "decode_optional dec v = Inr x \<longleftrightarrow>
      (case x of None \<Rightarrow> True | Some x \<Rightarrow> ok x) \<and> encode_optional enc x = Inr v"
    unfolding dec using value_codec.dec_iff [OF codec wf]
    by (cases x) (auto simp: encode_optional_def)
qed

lemma fields_of_null: "spatial_fields VNull = Inl SInvalidEncoding"
  by (simp add: spatial_fields_def fields_new_def)

interpretation optional_versioned_codec:
  value_codec "encode_optional (encode_versioned granting)" "decode_optional decode_versioned"
    "\<lambda>x. case x of None \<Rightarrow> True | Some x \<Rightarrow> versioned_ok x" 1 3 300
  by (rule value_codec_optional [OF versioned_codec.value_codec_axioms])
    (simp_all add: decode_versioned_def fields_of_null)

section \<open>Worlds and frames\<close>

definition world_ok :: "world_definition \<Rightarrow> bool" where
  "world_ok w \<longleftrightarrow> record_ref_ok (wd_id w) \<and> version_ok (wd_version w) \<and> versioned_ok (wd_root_frame w)
     \<and> world_new (wd_id w) (wd_version w) (wd_root_frame w) = Inr w"

definition world_entries :: "world_definition \<Rightarrow> (string \<times> val) list" where
  "world_entries w =
     [(''id'', VRecordRef (wd_id w)),
      (''root_frame'', projr (encode_versioned granting (wd_root_frame w))),
      (''version'', encode_version (wd_version w))]"

lemma world_keys: "plain_keys [''id'', ''root_frame'', ''version'']"
  by (simp add: plain_keys_def plain_key_def ascii_def)

lemma encode_world_eq:
  assumes "world_ok w"
  shows "encode_world granting w = Inr (VMap (named (world_entries w)))
    \<and> val_in 2 10 1200 (VMap (named (world_entries w)))"
proof -
  have ok: "versioned_ok (wd_root_frame w)" "record_ref_ok (wd_id w)"
    using assms by (simp_all add: world_ok_def)
  have "map_value SResourceLimit (world_entries w) = Inr (VMap (named (world_entries w)))
      \<and> val_in (Suc 1) 10 1200 (VMap (named (world_entries w)))"
    by (rule record_encodes [where n = 3 and p = 300])
      (use ok world_keys in \<open>auto intro!: versioned_codec.written_in val_in_intros
        simp: world_entries_def value_limits simp del: One_nat_def\<close>)
  then show ?thesis
    by (simp add: encode_world_def versioned_codec.rbind_written ok spatial_map_granting world_entries_def
        numeral_2_eq_2)
qed

interpretation world_codec: value_codec "encode_world granting" decode_world world_ok 2 10 1200
proof (rule value_codecI [where entries = world_entries])
  fix w
  assume ok: "world_ok w"
  then show "encode_world granting w = Inr (VMap (named (world_entries w)))
    \<and> val_in 2 10 1200 (VMap (named (world_entries w)))" by (rule encode_world_eq)
  show "decode_world (VMap (named (world_entries w))) = Inr w"
    using ok world_keys
    by (simp add: decode_world_def world_entries_def spatial_read versioned_codec.written_read world_ok_def)
next
  fix v w
  assume wf: "value_wf v" and dec: "decode_world v = Inr w"
  then obtain fs vr where v: "v = VMap fs" "decode_versioned vr = Inr (wd_root_frame w)"
      "version_ok (wd_version w)" "world_new (wd_id w) (wd_version w) (wd_root_frame w) = Inr w"
    and got: "bm_get fs (ascii ''id'') = Some (VRecordRef (wd_id w))"
      "bm_get fs (ascii ''root_frame'') = Some vr"
      "bm_get fs (ascii ''version'') = Some (encode_version (wd_version w))"
      "only_fields fs [''id'', ''root_frame'', ''version'']"
    by (auto simp: decode_world_def rbind_eq_Inr spatial_defs fields_new_iff [OF wf] field_take_iff
        take_record_iff decode_version_iff taken_simps world_new_iff)
  let ?es = "[(''id'', VRecordRef (wd_id w)), (''root_frame'', vr), (''version'', encode_version (wd_version w))]"
  have exact: "fs = named ?es \<and> list_all value_wf (map snd ?es)"
    using taken_named [of fs ?es] wf v got world_keys by auto
  then have "versioned_ok (wd_root_frame w) \<and> vr = projr (encode_versioned granting (wd_root_frame w))"
    using v(2) by (intro versioned_codec.read_written) simp_all
  with exact v show "world_ok w \<and> v = VMap (named (world_entries w))"
    by (simp add: world_ok_def world_entries_def)
qed

definition parent_ok :: "frame_parent \<Rightarrow> bool" where
  "parent_ok p \<longleftrightarrow> versioned_ok (fp_frame p) \<and> versioned_ok (fp_transform p)"

definition parent_entries :: "frame_parent \<Rightarrow> (string \<times> val) list" where
  "parent_entries p =
     [(''frame'', projr (encode_versioned granting (fp_frame p))),
      (''transform'', projr (encode_versioned granting (fp_transform p)))]"

lemma parent_keys: "plain_keys [''frame'', ''transform'']"
  by (simp add: plain_keys_def plain_key_def ascii_def)

lemma encode_parent_eq:
  assumes "parent_ok p"
  shows "encode_parent granting p = Inr (VMap (named (parent_entries p)))
    \<and> val_in 2 10 1200 (VMap (named (parent_entries p)))"
proof -
  have ok: "versioned_ok (fp_frame p)" "versioned_ok (fp_transform p)"
    using assms by (simp_all add: parent_ok_def)
  have "map_value SResourceLimit (parent_entries p) = Inr (VMap (named (parent_entries p)))
      \<and> val_in (Suc 1) 10 1200 (VMap (named (parent_entries p)))"
    by (rule record_encodes [where n = 3 and p = 300])
      (use ok parent_keys in \<open>auto intro!: versioned_codec.written_in
        simp: parent_entries_def value_limits simp del: One_nat_def\<close>)
  then show ?thesis
    by (simp add: encode_parent_def versioned_codec.rbind_written ok spatial_map_granting parent_entries_def
        numeral_2_eq_2)
qed

interpretation parent_codec: value_codec "encode_parent granting" decode_parent parent_ok 2 10 1200
proof (rule value_codecI [where entries = parent_entries])
  fix p
  assume ok: "parent_ok p"
  then show "encode_parent granting p = Inr (VMap (named (parent_entries p)))
    \<and> val_in 2 10 1200 (VMap (named (parent_entries p)))" by (rule encode_parent_eq)
  show "decode_parent (VMap (named (parent_entries p))) = Inr p"
    using ok parent_keys
    by (simp add: decode_parent_def parent_entries_def spatial_read versioned_codec.written_read parent_ok_def)
next
  fix v p
  assume wf: "value_wf v" and dec: "decode_parent v = Inr p"
  then obtain fs va vb where v: "v = VMap fs" "decode_versioned va = Inr (fp_frame p)"
      "decode_versioned vb = Inr (fp_transform p)"
    and got: "bm_get fs (ascii ''frame'') = Some va" "bm_get fs (ascii ''transform'') = Some vb"
      "only_fields fs [''frame'', ''transform'']"
    by (auto simp: decode_parent_def rbind_eq_Inr spatial_defs fields_new_iff [OF wf] field_take_iff taken_simps)
  let ?es = "[(''frame'', va), (''transform'', vb)]"
  have exact: "fs = named ?es \<and> list_all value_wf (map snd ?es)"
    using taken_named [of fs ?es] wf v got parent_keys by auto
  then have "versioned_ok (fp_frame p) \<and> va = projr (encode_versioned granting (fp_frame p))"
      "versioned_ok (fp_transform p) \<and> vb = projr (encode_versioned granting (fp_transform p))"
    using v by (auto intro!: versioned_codec.read_written)
  with exact v show "parent_ok p \<and> v = VMap (named (parent_entries p))"
    by (simp add: parent_ok_def parent_entries_def)
qed

interpretation optional_parent_codec:
  value_codec "encode_optional (encode_parent granting)" "decode_optional decode_parent"
    "\<lambda>x. case x of None \<Rightarrow> True | Some x \<Rightarrow> parent_ok x" 2 10 1200
  by (rule value_codec_optional [OF parent_codec.value_codec_axioms])
    (simp_all add: decode_parent_def fields_of_null)

definition frame_ok :: "frame_definition \<Rightarrow> bool" where
  "frame_ok f \<longleftrightarrow> record_ref_ok (fd_id f) \<and> version_ok (fd_version f) \<and> record_ref_ok (fd_world f)
     \<and> (case fd_parent f of None \<Rightarrow> True | Some p \<Rightarrow> parent_ok p)
     \<and> frame_new (fd_id f) (fd_version f) (fd_world f) (fd_kind f) (fd_parent f) = Inr f"

lemma frame_new_same:
  assumes "frame_new rid v world kind parent = Inr f"
  shows "frame_new (fd_id f) (fd_version f) (fd_world f) (fd_kind f) (fd_parent f) = Inr f
    \<and> rid = fd_id f \<and> v = fd_version f \<and> world = fd_world f \<and> kind = fd_kind f \<and> parent = fd_parent f"
proof -
  have "f = \<lparr>fd_id = rid, fd_version = v, fd_world = world, fd_profile = CoordinateProfile kind,
      fd_parent = parent\<rparr>"
    using assms by (simp add: frame_new_iff)
  with assms show ?thesis by (simp add: fd_kind_def)
qed

definition frame_entries :: "frame_definition \<Rightarrow> (string \<times> val) list" where
  "frame_entries f =
     [(''coordinate_system'', VString (coordinate_name (fd_kind f))), (''id'', VRecordRef (fd_id f)),
      (''parent'', projr (encode_optional (encode_parent granting) (fd_parent f))),
      (''version'', encode_version (fd_version f)), (''world'', VRecordRef (fd_world f))]"

lemma frame_keys: "plain_keys [''coordinate_system'', ''id'', ''parent'', ''version'', ''world'']"
  by (simp add: plain_keys_def plain_key_def ascii_def)

lemma encode_frame_eq:
  assumes "frame_ok f"
  shows "encode_frame granting f = Inr (VMap (named (frame_entries f)))
    \<and> val_in 3 51 6500 (VMap (named (frame_entries f)))"
proof -
  have ok: "case fd_parent f of None \<Rightarrow> True | Some p \<Rightarrow> parent_ok p" "record_ref_ok (fd_id f)"
      "record_ref_ok (fd_world f)"
    using assms by (simp_all add: frame_ok_def)
  have "map_value SResourceLimit (frame_entries f) = Inr (VMap (named (frame_entries f)))
      \<and> val_in (Suc 2) 51 6500 (VMap (named (frame_entries f)))"
    by (rule record_encodes [where n = 10 and p = 1200])
      (use ok frame_keys in \<open>auto intro!: optional_parent_codec.written_in val_in_intros val_in_name
          coordinate_name_ok simp: frame_entries_def value_limits\<close>)
  then show ?thesis
    by (simp add: encode_frame_def optional_parent_codec.rbind_written ok spatial_map_granting
        frame_entries_def spatial_text_eq coordinate_name_ok name_bounds(2))
qed

interpretation frame_codec: value_codec "encode_frame granting" decode_frame frame_ok 3 51 6500
proof (rule value_codecI [where entries = frame_entries])
  fix f
  assume ok: "frame_ok f"
  then show "encode_frame granting f = Inr (VMap (named (frame_entries f)))
    \<and> val_in 3 51 6500 (VMap (named (frame_entries f)))" by (rule encode_frame_eq)
  show "decode_frame (VMap (named (frame_entries f))) = Inr f"
    using ok frame_keys
    by (simp add: decode_frame_def frame_entries_def spatial_read optional_parent_codec.written_read frame_ok_def)
next
  fix v f
  assume wf: "value_wf v" and dec: "decode_frame v = Inr f"
  then obtain fs vp rid n w k p where raw: "v = VMap fs" "decode_optional decode_parent vp = Inr p"
      "version_ok n" "frame_new rid n w k p = Inr f"
      "bm_get fs (ascii ''coordinate_system'') = Some (VString (coordinate_name k))"
      "bm_get fs (ascii ''id'') = Some (VRecordRef rid)" "bm_get fs (ascii ''parent'') = Some vp"
      "bm_get fs (ascii ''version'') = Some (encode_version n)"
      "bm_get fs (ascii ''world'') = Some (VRecordRef w)"
      "only_fields fs [''coordinate_system'', ''id'', ''parent'', ''version'', ''world'']"
    by (auto simp: decode_frame_def rbind_eq_Inr spatial_defs fields_new_iff [OF wf] field_take_iff
        take_text_iff take_record_iff decode_version_iff coordinate_iff taken_simps)
  note same = frame_new_same [OF raw(4)]
  let ?es = "[(''coordinate_system'', VString (coordinate_name (fd_kind f))), (''id'', VRecordRef (fd_id f)),
      (''parent'', vp), (''version'', encode_version (fd_version f)), (''world'', VRecordRef (fd_world f))]"
  have exact: "fs = named ?es \<and> list_all value_wf (map snd ?es)"
    using taken_named [of fs ?es] wf raw same frame_keys by auto
  then have "(case fd_parent f of None \<Rightarrow> True | Some p \<Rightarrow> parent_ok p)
      \<and> vp = projr (encode_optional (encode_parent granting) (fd_parent f))"
    using raw(2) same by (intro optional_parent_codec.read_written) simp_all
  with exact raw same show "frame_ok f \<and> v = VMap (named (frame_entries f))"
    by (simp add: frame_ok_def frame_entries_def)
qed

section \<open>Geometry versions\<close>

definition geometry_version_ok :: "geometry_version \<Rightarrow> bool" where
  "geometry_version_ok g \<longleftrightarrow> record_ref_ok (gv_id g) \<and> version_ok (gv_version g)
     \<and> record_ref_ok (gv_world g) \<and> versioned_ok (gv_frame g) \<and> geometry_ok (gv_geometry g)
     \<and> (case gv_predecessor g of None \<Rightarrow> True | Some p \<Rightarrow> versioned_ok p)
     \<and> geometry_version_new (gv_id g) (gv_version g) (gv_world g) (gv_frame g) (gv_geometry g)
         (gv_precision g) (gv_predecessor g) = Inr g"

lemma geometry_version_new_same:
  assumes "geometry_version_new rid v world frame geometry precision predecessor = Inr g"
  shows "geometry_version_new (gv_id g) (gv_version g) (gv_world g) (gv_frame g) (gv_geometry g)
      (gv_precision g) (gv_predecessor g) = Inr g
    \<and> rid = gv_id g \<and> v = gv_version g \<and> world = gv_world g \<and> frame = gv_frame g
    \<and> geometry = gv_geometry g \<and> precision = gv_precision g \<and> predecessor = gv_predecessor g"
proof -
  have "g = \<lparr>gv_id = rid, gv_version = v, gv_world = world, gv_frame = frame, gv_geometry = geometry,
      gv_precision = precision, gv_predecessor = predecessor\<rparr>"
    using assms by (simp add: geometry_version_new_iff)
  with assms show ?thesis by simp
qed

definition geometry_version_entries :: "geometry_version \<Rightarrow> (string \<times> val) list" where
  "geometry_version_entries g =
     [(''frame'', projr (encode_versioned granting (gv_frame g))),
      (''geometry'', projr (encode_geometry granting (gv_geometry g))),
      (''id'', VRecordRef (gv_id g)),
      (''precision'', projr (encode_uncertainty granting (gv_precision g))),
      (''predecessor'', projr (encode_optional (encode_versioned granting) (gv_predecessor g))),
      (''version'', encode_version (gv_version g)), (''world'', VRecordRef (gv_world g))]"

lemma geometry_version_keys:
  "plain_keys [''frame'', ''geometry'', ''id'', ''precision'', ''predecessor'', ''version'', ''world'']"
  by (simp add: plain_keys_def plain_key_def ascii_def)

lemma encode_geometry_version_eq:
  assumes "geometry_version_ok g"
  shows "encode_geometry_version granting g = Inr (VMap (named (geometry_version_entries g)))
    \<and> val_in 3 141 22000 (VMap (named (geometry_version_entries g)))"
proof -
  have ok: "versioned_ok (gv_frame g)" "geometry_ok (gv_geometry g)"
      "case gv_predecessor g of None \<Rightarrow> True | Some p \<Rightarrow> versioned_ok p"
      "record_ref_ok (gv_id g)" "record_ref_ok (gv_world g)"
    using assms by (simp_all add: geometry_version_ok_def)
  have "list_all (val_in 2 20 3000) (map snd (geometry_version_entries g))"
    using ok geometry_codec.written_in [OF ok(2)]
      val_in_mono [OF versioned_codec.written_in [OF ok(1)]]
      val_in_mono [OF optional_versioned_codec.written_in [OF ok(3)]]
      val_in_mono [OF position_uncertainty_codec.written_in [OF TrueI, of "gv_precision g"]]
    by (simp add: geometry_version_entries_def val_in_record val_in_version)
  then have "map_value SResourceLimit (geometry_version_entries g)
        = Inr (VMap (named (geometry_version_entries g)))
      \<and> val_in (Suc 2) 141 22000 (VMap (named (geometry_version_entries g)))"
    by (rule record_encodes [rotated])
      (use geometry_version_keys in \<open>auto simp: geometry_version_entries_def value_limits\<close>)
  moreover have "encode_geometry_version granting g = map_value SResourceLimit (geometry_version_entries g)"
    using geometry_version_keys
    by (subst map_value_permuted [symmetric, where es = "let es = geometry_version_entries g in
          [es ! 0, es ! 1, es ! 2, es ! 4, es ! 3, es ! 5, es ! 6]"])
      (simp_all add: encode_geometry_version_def versioned_codec.rbind_written geometry_codec.rbind_written
        optional_versioned_codec.rbind_written position_uncertainty_codec.rbind_written ok
        spatial_map_granting geometry_version_entries_def)
  ultimately show ?thesis by simp
qed

interpretation geometry_version_codec:
  value_codec "encode_geometry_version granting" decode_geometry_version geometry_version_ok 3 141 22000
proof (rule value_codecI [where entries = geometry_version_entries])
  fix g
  assume ok: "geometry_version_ok g"
  then show "encode_geometry_version granting g = Inr (VMap (named (geometry_version_entries g)))
    \<and> val_in 3 141 22000 (VMap (named (geometry_version_entries g)))" by (rule encode_geometry_version_eq)
  show "decode_geometry_version (VMap (named (geometry_version_entries g))) = Inr g"
    using ok geometry_version_keys
    by (simp add: decode_geometry_version_def geometry_version_entries_def spatial_read
        versioned_codec.written_read geometry_codec.written_read optional_versioned_codec.written_read
        position_uncertainty_codec.written_read geometry_version_ok_def)
next
  fix v g
  assume wf: "value_wf v" and dec: "decode_geometry_version v = Inr g"
  then obtain fs vf vg vu vp rid n w f geo u p where raw: "v = VMap fs"
      "decode_versioned vf = Inr f" "decode_geometry vg = Inr geo" "decode_uncertainty vu = Inr u"
      "decode_optional decode_versioned vp = Inr p" "version_ok n"
      "geometry_version_new rid n w f geo u p = Inr g"
      "bm_get fs (ascii ''frame'') = Some vf" "bm_get fs (ascii ''geometry'') = Some vg"
      "bm_get fs (ascii ''id'') = Some (VRecordRef rid)" "bm_get fs (ascii ''precision'') = Some vu"
      "bm_get fs (ascii ''predecessor'') = Some vp"
      "bm_get fs (ascii ''version'') = Some (encode_version n)"
      "bm_get fs (ascii ''world'') = Some (VRecordRef w)"
      "only_fields fs [''frame'', ''geometry'', ''id'', ''predecessor'', ''precision'', ''version'', ''world'']"
    by (auto simp: decode_geometry_version_def rbind_eq_Inr spatial_defs fields_new_iff [OF wf]
        field_take_iff take_record_iff decode_version_iff taken_simps)
  note same = geometry_version_new_same [OF raw(7)]
  let ?es = "[(''frame'', vf), (''geometry'', vg), (''id'', VRecordRef rid), (''precision'', vu),
      (''predecessor'', vp), (''version'', encode_version n), (''world'', VRecordRef w)]"
  have exact: "fs = named ?es \<and> list_all value_wf (map snd ?es)"
  proof (rule taken_named [OF _ _ _ raw(15)])
    show "value_wf (VMap fs)" using wf raw(1) by simp
  qed (use raw geometry_version_keys in auto)
  then have "versioned_ok f \<and> vf = projr (encode_versioned granting f)"
      "geometry_ok geo \<and> vg = projr (encode_geometry granting geo)"
      "vu = projr (encode_uncertainty granting u)"
      "(case p of None \<Rightarrow> True | Some p \<Rightarrow> versioned_ok p)
        \<and> vp = projr (encode_optional (encode_versioned granting) p)"
    using versioned_codec.read_written [OF _ raw(2)] geometry_codec.read_written [OF _ raw(3)]
      position_uncertainty_codec.read_written [OF _ raw(4)]
      optional_versioned_codec.read_written [OF _ raw(5)] by simp_all
  with exact raw(1,6) same show "geometry_version_ok g \<and> v = VMap (named (geometry_version_entries g))"
    by (simp add: geometry_version_ok_def geometry_version_entries_def)
qed

section \<open>Observations\<close>

definition observation_ok :: "position_observation \<Rightarrow> bool" where
  "observation_ok obs \<longleftrightarrow> record_ref_ok (po_id obs) \<and> record_ref_ok (po_entity obs)
     \<and> record_ref_ok (po_world obs) \<and> versioned_ok (po_frame obs) \<and> key_ok (po_key obs)
     \<and> record_ref_ok (po_evidence obs) \<and> envelope_ok (po_source_time obs) \<and> position_ok (po_position obs)
     \<and> (case po_correction_of obs of None \<Rightarrow> True | Some r \<Rightarrow> record_ref_ok r)
     \<and> observation_new (po_id obs) (po_entity obs) (po_world obs) (po_frame obs) (po_key obs)
         (po_evidence obs) (po_source_time obs) (po_position obs) (po_uncertainty obs)
         (po_correction_of obs) = Inr obs"

lemma observation_new_same:
  assumes "observation_new rid entity world frame key evidence t position u correction = Inr obs"
  shows "observation_new (po_id obs) (po_entity obs) (po_world obs) (po_frame obs) (po_key obs)
      (po_evidence obs) (po_source_time obs) (po_position obs) (po_uncertainty obs)
      (po_correction_of obs) = Inr obs
    \<and> rid = po_id obs \<and> entity = po_entity obs \<and> world = po_world obs \<and> frame = po_frame obs
    \<and> key = po_key obs \<and> evidence = po_evidence obs \<and> t = po_source_time obs
    \<and> position = po_position obs \<and> u = po_uncertainty obs \<and> correction = po_correction_of obs"
proof -
  have "obs = \<lparr>po_id = rid, po_entity = entity, po_world = world, po_frame = frame, po_key = key,
          po_evidence = evidence, po_source_time = t, po_position = position, po_uncertainty = u,
          po_correction_of = correction\<rparr>"
    using assms by (simp add: observation_new_iff)
  with assms show ?thesis by simp
qed

definition observation_entries :: "position_observation \<Rightarrow> (string \<times> val) list" where
  "observation_entries obs =
     [(''correction_of'', optional_record (po_correction_of obs)),
      (''entity'', VRecordRef (po_entity obs)), (''evidence'', VRecordRef (po_evidence obs)),
      (''frame'', projr (encode_versioned granting (po_frame obs))), (''id'', VRecordRef (po_id obs)),
      (''key'', projr (encode_key granting (po_key obs))),
      (''position'', projr (encode_position granting (po_position obs))),
      (''source_time'', projr (envelope_to_value (po_source_time obs))),
      (''uncertainty'', projr (encode_uncertainty granting (po_uncertainty obs))),
      (''world'', VRecordRef (po_world obs))]"

lemma observation_keys:
  "plain_keys [''correction_of'', ''entity'', ''evidence'', ''frame'', ''id'', ''key'', ''position'',
     ''source_time'', ''uncertainty'', ''world'']"
  by (simp add: plain_keys_def plain_key_def ascii_def)

lemma encode_observation_eq:
  assumes "observation_ok obs"
  shows "encode_observation granting obs = Inr (VMap (named (observation_entries obs)))
    \<and> val_in 4 6381 5400000 (VMap (named (observation_entries obs)))"
proof -
  have ok: "versioned_ok (po_frame obs)" "key_ok (po_key obs)" "position_ok (po_position obs)"
      "envelope_ok (po_source_time obs)" "record_ref_ok (po_id obs)" "record_ref_ok (po_entity obs)"
      "record_ref_ok (po_world obs)" "record_ref_ok (po_evidence obs)"
      "case po_correction_of obs of None \<Rightarrow> True | Some r \<Rightarrow> record_ref_ok r"
    using assms by (simp_all add: observation_ok_def)
  have "list_all (val_in 3 638 530000) (map snd (observation_entries obs))"
    using ok envelope_codec.written_in [OF ok(4)]
      val_in_mono [OF versioned_codec.written_in [OF ok(1)]]
      val_in_mono [OF key_codec.written_in [OF ok(2)]]
      val_in_mono [OF position_codec.written_in [OF ok(3)]]
      val_in_mono [OF position_uncertainty_codec.written_in [OF TrueI, of "po_uncertainty obs"]]
    by (simp add: observation_entries_def val_in_record val_in_optional_record)
  then have "map_value SResourceLimit (observation_entries obs)
        = Inr (VMap (named (observation_entries obs)))
      \<and> val_in (Suc 3) 6381 5400000 (VMap (named (observation_entries obs)))"
    by (rule record_encodes [rotated])
      (use observation_keys in \<open>auto simp: observation_entries_def value_limits\<close>)
  moreover have "rbind (map_err (\<lambda>_. SInvalidObservation) (envelope_to_value (po_source_time obs))) f
      = f (projr (envelope_to_value (po_source_time obs)))" for f :: "val \<Rightarrow> spatial_error + val"
    using envelope_codec.enc_in [OF ok(4)] by auto
  then have "encode_observation granting obs = map_value SResourceLimit (observation_entries obs)"
    by (simp add: encode_observation_def versioned_codec.rbind_written key_codec.rbind_written
        position_codec.rbind_written position_uncertainty_codec.rbind_written ok spatial_map_granting
        observation_entries_def optional_record_def)
  ultimately show ?thesis by simp
qed

lemma decode_observation_inv:
  assumes wf: "value_wf v" and dec: "decode_observation v = Inr obs"
  shows "observation_ok obs \<and> v = VMap (named (observation_entries obs))"
proof -
  obtain fs vf vk vp vt vu c en ev f rid k p t u w where raw: "v = VMap fs"
      "decode_versioned vf = Inr f" "decode_key vk = Inr k" "decode_position vp = Inr p"
      "envelope_from_value vt = Inr t" "decode_uncertainty vu = Inr u"
      "observation_new rid en w f k ev t p u c = Inr obs"
      "only_fields fs [''correction_of'', ''entity'', ''evidence'', ''frame'', ''id'', ''key'',
        ''position'', ''source_time'', ''uncertainty'', ''world'']"
      "list_all (\<lambda>(key, v). bm_get fs (ascii key) = Some v)
        [(''correction_of'', optional_record c), (''entity'', VRecordRef en), (''evidence'', VRecordRef ev),
         (''frame'', vf), (''id'', VRecordRef rid), (''key'', vk), (''position'', vp),
         (''source_time'', vt), (''uncertainty'', vu), (''world'', VRecordRef w)]"
    using dec
    by (auto simp: decode_observation_def rbind_eq_Inr spatial_defs fields_new_iff [OF wf]
        field_take_iff take_record_iff take_optional_record_iff map_err_eq_Inr taken_simps)
  note same = observation_new_same [OF raw(7)]
  let ?es = "[(''correction_of'', optional_record c), (''entity'', VRecordRef en),
      (''evidence'', VRecordRef ev), (''frame'', vf), (''id'', VRecordRef rid), (''key'', vk),
      (''position'', vp), (''source_time'', vt), (''uncertainty'', vu), (''world'', VRecordRef w)]"
  have exact: "fs = named ?es \<and> list_all value_wf (map snd ?es)"
  proof (rule taken_named [OF _ _ raw(9) raw(8)])
    show "value_wf (VMap fs)" using wf raw(1) by simp
    show "plain_keys (map fst ?es)" using observation_keys by simp
  qed auto
  then have "versioned_ok f \<and> vf = projr (encode_versioned granting f)"
      "key_ok k \<and> vk = projr (encode_key granting k)"
      "position_ok p \<and> vp = projr (encode_position granting p)"
      "envelope_ok t \<and> vt = projr (envelope_to_value t)"
      "vu = projr (encode_uncertainty granting u)"
    using versioned_codec.read_written [OF _ raw(2)] key_codec.read_written [OF _ raw(3)]
      position_codec.read_written [OF _ raw(4)] envelope_codec.read_written [OF _ raw(5)]
      position_uncertainty_codec.read_written [OF _ raw(6)] by simp_all
  moreover have "case c of None \<Rightarrow> True | Some r \<Rightarrow> record_ref_ok r"
    using exact by (auto simp: optional_record_def split: option.splits)
  ultimately show ?thesis
    using exact raw(1) same by (simp add: observation_ok_def observation_entries_def)
qed

interpretation observation_codec:
  value_codec "encode_observation granting" decode_observation observation_ok 4 6381 5400000
proof (rule value_codecI [where entries = observation_entries])
  fix obs
  assume ok: "observation_ok obs"
  then show "encode_observation granting obs = Inr (VMap (named (observation_entries obs)))
    \<and> val_in 4 6381 5400000 (VMap (named (observation_entries obs)))" by (rule encode_observation_eq)
  show "decode_observation (VMap (named (observation_entries obs))) = Inr obs"
    using ok observation_keys
    by (simp add: decode_observation_def observation_entries_def spatial_read
        versioned_codec.written_read key_codec.written_read position_codec.written_read
        envelope_codec.written_read position_uncertainty_codec.written_read observation_ok_def)
qed (rule decode_observation_inv)

section \<open>Records\<close>

fun record_ok :: "spatial_record \<Rightarrow> bool" where
  "record_ok (World w) \<longleftrightarrow> world_ok w"
| "record_ok (Frame f) \<longleftrightarrow> frame_ok f"
| "record_ok (GeometryRecord g) \<longleftrightarrow> geometry_version_ok g"
| "record_ok (Observation obs) \<longleftrightarrow> observation_ok obs"

fun record_kind :: "spatial_record \<Rightarrow> string" where
  "record_kind (World w) = ''world''"
| "record_kind (Frame f) = ''frame''"
| "record_kind (GeometryRecord g) = ''geometry''"
| "record_kind (Observation obs) = ''observation''"

fun record_body :: "spatial_record \<Rightarrow> val" where
  "record_body (World w) = projr (encode_world granting w)"
| "record_body (Frame f) = projr (encode_frame granting f)"
| "record_body (GeometryRecord g) = projr (encode_geometry_version granting g)"
| "record_body (Observation obs) = projr (encode_observation granting obs)"

definition record_entries :: "spatial_record \<Rightarrow> (string \<times> val) list" where
  "record_entries r =
     [(''body'', record_body r), (''kind'', VString (ascii (record_kind r))),
      (''profile'', VString SPATIAL_PROFILE), (''schema_version'', VUnsigned SCHEMA_VERSION)]"

lemma record_keys: "plain_keys [''body'', ''kind'', ''profile'', ''schema_version'']"
  by (simp add: plain_keys_def plain_key_def ascii_def)

lemma record_kind_plain: "plain_key (record_kind r)" "plain_key ''uste-spatial-record-v1''"
  by (cases r) (simp_all add: plain_key_def)

lemma record_body_in: "record_ok r \<Longrightarrow> val_in 4 6381 5400000 (record_body r)"
  by (cases r) (auto intro: observation_codec.written_in val_in_mono [OF world_codec.written_in]
      val_in_mono [OF frame_codec.written_in] val_in_mono [OF geometry_version_codec.written_in])

text \<open>A record whose first field is much larger than the others.\<close>

lemma record_encodes_head:
  assumes "plain_keys (map fst ((key, v) # es))" "val_in d n1 p1 v" "list_all (val_in d n p) (map snd es)"
    and "Suc (n1 + length es * n) \<le> n'" "103 + p1 + length es * (83 + p) \<le> p'"
    and "Suc d \<le> MAX_NESTING_DEPTH" "n' \<le> MAX_VALUE_NODES" "Suc (length es) \<le> MAX_COLLECTION_ENTRIES"
  shows "map_value limit ((key, v) # es) = Inr (VMap (named ((key, v) # es)))
    \<and> val_in (Suc d) n' p' (VMap (named ((key, v) # es)))"
proof -
  have "plain_keys (map fst es)" using assms(1) by (auto simp: plain_keys_def)
  then have rest: "val_in (Suc d) (Suc (length es * n)) (20 + length es * (83 + p)) (VMap (named es))"
    using assms by (intro val_in_record_map) auto
  have nodes: "node_count (VMap (named ((key, v) # es))) = node_count v + node_count (VMap (named es))"
    by (simp add: named_def)
  have deep: "depth (VMap (named ((key, v) # es))) \<le> Suc d"
    using assms(2,3) by (auto simp: named_def fold_max_le val_in_def list_all_iff)
  have "length (encode_payload (VMap (named ((key, v) # es)))) \<le> 20 + (83 + p1) + length es * (83 + p)"
  proof -
    have "length (concat (map (\<lambda>(k, v). write_length (length k) @ k @ encode_payload v) (named es)))
        \<le> length es * (83 + p)"
      unfolding length_concat map_map comp_def named_simps(1) [symmetric]
    proof (rule sum_list_map_le)
      fix x
      assume "x \<in> set (named es)"
      moreover obtain k y where x: "x = (k, y)" by (cases x)
      ultimately have "val_in d n p y" "length k \<le> 64"
        using assms(3) plain_keys_ok [OF \<open>plain_keys (map fst es)\<close>] by (auto simp: set_named list_all_iff)
      with length_write_length_le [of "length k"]
      show "length (case x of (k, v) \<Rightarrow> write_length (length k) @ k @ encode_payload v) \<le> 83 + p"
        by (simp add: x val_in_def)
    qed
    moreover have "length (ascii key) \<le> 64"
      using assms(1) by (auto simp: plain_keys_def plain_key_def)
    moreover have "length (encode_payload v) \<le> p1" using assms(2) by (simp add: val_in_def)
    ultimately show ?thesis
      using length_write_length_le [of "length (ascii key)"] length_write_length_le [of "Suc (length es)"]
      by (simp add: named_def)
  qed
  moreover have "value_wf (VMap (named ((key, v) # es)))"
    using plain_keys_named [OF assms(1)] plain_keys_ok [OF assms(1)] assms(2,3,8)
    by (fastforce simp: bm_ok_def val_in_def set_named list_all_iff simp del: named_simps(2))
  ultimately have "val_in (Suc d) n' p' (VMap (named ((key, v) # es)))"
    using assms(2,4,5) rest nodes deep by (simp add: val_in_def)
  with assms show ?thesis by (auto simp: map_value_named val_in_def)
qed

lemma record_to_value_eq:
  assumes "record_ok r"
  shows "record_to_value granting r = Inr (VMap (named (record_entries r)))
    \<and> val_in 5 6385 5410000 (VMap (named (record_entries r)))"
proof -
  have body: "val_in 4 6381 5400000 (record_body r)" using assms by (rule record_body_in)
  have "map_value SResourceLimit (record_entries r) = Inr (VMap (named (record_entries r)))
      \<and> val_in (Suc 4) 6385 5410000 (VMap (named (record_entries r)))"
    unfolding record_entries_def
    by (rule record_encodes_head [OF _ body, where n = 1 and p = 84])
      (use record_keys record_kind_plain in \<open>auto intro!: val_in_unsigned val_in_name name_ok_ascii
        simp: SPATIAL_PROFILE_def value_limits\<close>)
  moreover have "record_to_value granting r = map_value SResourceLimit (record_entries r)"
    using assms record_kind_plain
    by (cases r) (simp_all add: record_to_value_def world_codec.rbind_written frame_codec.rbind_written
        geometry_version_codec.rbind_written observation_codec.rbind_written spatial_text_plain
        SPATIAL_PROFILE_def spatial_map_granting record_entries_def rbind_assoc plain_key_def)
  ultimately show ?thesis by simp
qed

lemma record_read_back:
  assumes "record_ok r"
  shows "record_from_value (VMap (named (record_entries r))) = Inr r"
  using assms record_keys
  by (cases r) (simp_all add: record_from_value_def record_from_body_def record_entries_def spatial_read
      world_codec.written_read frame_codec.written_read geometry_version_codec.written_read
      observation_codec.written_read)

lemma record_from_value_inv:
  assumes wf: "value_wf v" and dec: "record_from_value v = Inr r"
  shows "record_ok r \<and> v = VMap (named (record_entries r))"
proof -
  obtain fs body kind where v: "v = VMap fs"
    and got: "list_all (\<lambda>(key, v). bm_get fs (ascii key) = Some v)
        [(''body'', body), (''kind'', VString kind), (''profile'', VString SPATIAL_PROFILE),
         (''schema_version'', VUnsigned SCHEMA_VERSION)]"
      "only_fields fs [''body'', ''kind'', ''profile'', ''schema_version'']"
    and choice: "record_from_body kind body = Inr r"
    using dec unfolding record_from_value_def
    by (auto simp: rbind_eq_Inr spatial_defs fields_new_iff [OF wf] field_take_iff
        take_text_iff expect_spatial_text_iff take_u128_iff taken_simps)
  let ?es = "[(''body'', body), (''kind'', VString kind), (''profile'', VString SPATIAL_PROFILE),
      (''schema_version'', VUnsigned SCHEMA_VERSION)]"
  have exact: "fs = named ?es \<and> list_all value_wf (map snd ?es)"
  proof (rule taken_named [OF _ _ got])
    show "value_wf (VMap fs)" using wf v by simp
    show "plain_keys (map fst ?es)" using record_keys by simp
  qed auto
  have "record_ok r \<and> kind = ascii (record_kind r) \<and> body = record_body r"
    using choice exact
    by (cases r) (auto simp: record_from_body_def rbind_eq_Inr split: if_splits dest: world_codec.read_written
        frame_codec.read_written geometry_version_codec.read_written observation_codec.read_written)
  with exact v show ?thesis by (simp add: record_entries_def)
qed

interpretation record_codec:
  value_codec "record_to_value granting" record_from_value record_ok 5 6385 5410000
  by (rule value_codecI [where entries = record_entries])
    (simp_all add: record_to_value_eq record_read_back record_from_value_inv)

lemma encode_record_iff:
  "encode_record reserve r = Inr bs \<longleftrightarrow>
     (\<exists>v. record_to_value reserve r = Inr v \<and> encode_value reserve v = Inr bs)"
  by (simp add: encode_record_def rbind_eq_Inr map_err_eq_Inr)

lemma decode_record_iff:
  "decode_record alloc bs = Inr r \<longleftrightarrow> (\<exists>v. decode_value alloc bs = Inr v \<and> record_from_value v = Inr r)"
  by (simp add: decode_record_def rbind_eq_Inr map_err_eq_Inr)

lemma decode_encode_record_iff:
  assumes "length bs \<le> usize_max"
  shows "decode_record granted bs = Inr r \<longleftrightarrow> record_ok r \<and> encode_record granting r = Inr bs"
  unfolding decode_record_iff encode_record_iff
  by (rule record_codec.framed [OF _ _ _ assms]) (simp_all add: value_limits MAX_VALUE_PAYLOAD_def)

lemma encode_record_total:
  assumes "record_ok r"
  shows "\<exists>bs. encode_record granting r = Inr bs \<and> length bs \<le> 5410026"
proof -
  obtain v bs where "record_to_value granting r = Inr v" "encode_value granting v = Inr bs"
      "length bs \<le> 5410000 + 26"
    using assms
    by (rule record_codec.framed_total [rotated 3]) (simp_all add: value_limits MAX_VALUE_PAYLOAD_def)
  then show ?thesis by (auto simp: encode_record_iff)
qed

section \<open>Refused reservations\<close>

definition limited :: "spatial_error + 'a \<Rightarrow> spatial_error + 'a \<Rightarrow> bool" where
  "limited r full \<longleftrightarrow> r = full \<or> r = Inl SResourceLimit"

named_theorems limited_intros \<open>composition of limited results\<close>

lemma limited_refl [limited_intros]: "limited r r"
  by (simp add: limited_def)

lemma limited_rbind [limited_intros]:
  "limited r r' \<Longrightarrow> (\<And>x. limited (f x) (g x)) \<Longrightarrow> limited (rbind r f) (rbind r' g)"
  by (cases r') (auto simp: limited_def, metis)

lemma limited_map [limited_intros]: "limited (spatial_map reserve es) (spatial_map granting es)"
  by (simp add: limited_def spatial_map_def ensure_def)

lemma limited_prod [limited_intros]:
  "(\<And>a b. limited (f a b) (g a b)) \<Longrightarrow> limited (case x of (a, b) \<Rightarrow> f a b) (case x of (a, b) \<Rightarrow> g a b)"
  by (cases x) auto

lemma limited_optional [limited_intros]:
  "(\<And>x. limited (f x) (g x)) \<Longrightarrow> limited (encode_optional f x) (encode_optional g x)"
  by (cases x) (auto simp: encode_optional_def limited_refl)

lemma limited_parts [limited_intros]:
  "limited (encode_versioned reserve r) (encode_versioned granting r)"
  "limited (encode_local2 reserve kind p2) (encode_local2 granting kind p2)"
  "limited (encode_local3 reserve kind p3) (encode_local3 granting kind p3)"
  "limited (encode_geo_point reserve kind gp) (encode_geo_point granting kind gp)"
  "limited (encode_source_event reserve se) (encode_source_event granting se)"
  unfolding encode_versioned_def encode_local2_def encode_local3_def encode_geo_point_def
    encode_source_event_def
  by (intro limited_intros)+

lemma limited_choices [limited_intros]:
  "limited (encode_uncertainty reserve u) (encode_uncertainty granting u)"
  "limited (encode_position reserve pos) (encode_position granting pos)"
  "limited (encode_geometry reserve g) (encode_geometry granting g)"
  subgoal unfolding encode_uncertainty_def by (cases u) (simp_all add: limited_intros)
  subgoal unfolding encode_position_def by (cases pos) (simp_all add: limited_intros)
  subgoal unfolding encode_geometry_def by (cases g) (simp_all add: limited_intros)
  done

lemma limited_bodies [limited_intros]:
  "limited (encode_key reserve k) (encode_key granting k)"
  "limited (encode_parent reserve p) (encode_parent granting p)"
  "limited (encode_world reserve w) (encode_world granting w)"
  unfolding encode_key_def encode_parent_def encode_world_def
  by (intro limited_intros)+

lemma limited_records [limited_intros]:
  "limited (encode_frame reserve f) (encode_frame granting f)"
  "limited (encode_geometry_version reserve gv) (encode_geometry_version granting gv)"
  "limited (encode_observation reserve obs) (encode_observation granting obs)"
  unfolding encode_frame_def encode_geometry_version_def encode_observation_def
  by (intro limited_intros)+

lemma limited_record_to_value: "limited (record_to_value reserve r) (record_to_value granting r)"
  unfolding record_to_value_def by (cases r) (simp_all add: limited_intros)

lemma limited_encode_value:
  "limited (map_err (\<lambda>err. case err of EResourceLimit \<Rightarrow> SResourceLimit | _ \<Rightarrow> SInvalidEncoding)
     (encode_value reserve v))
   (map_err (\<lambda>err. case err of EResourceLimit \<Rightarrow> SResourceLimit | _ \<Rightarrow> SInvalidEncoding)
     (encode_value granting v))"
  by (cases "payload_len v") (auto simp: limited_def encode_value_def Let_def ensure_def)

lemma limited_encode_record: "limited (encode_record reserve r) (encode_record granting r)"
  unfolding encode_record_def by (intro limited_rbind limited_record_to_value limited_encode_value)

lemma decode_record_refused:
  "decode_record alloc bs = decode_record granted bs \<or> decode_record alloc bs = Inl SInvalidEncoding"
  using degrades_decode_value [of alloc bs] by (auto simp: degrades_def decode_record_def map_err_def)

section \<open>Property\<close>

text \<open>
  C30.  The stored form of spatial records is exact: a byte string decodes to a record exactly when
  the record is one the constructors admit and the byte string is its encoding, and every admissible
  record is encoded.  A refused reservation can only turn the answer of the encoder into the
  resource-limit error, and the answer of the decoder into the invalid-encoding error.
\<close>

theorem stored_record_exact:
  assumes "length bs \<le> usize_max"
  shows "(decode_record granted bs = Inr r \<longleftrightarrow> record_ok r \<and> encode_record granting r = Inr bs)
    \<and> (record_ok r \<longrightarrow> (\<exists>bs. encode_record granting r = Inr bs \<and> length bs \<le> 5410026))
    \<and> (encode_record reserve r = encode_record granting r
        \<or> encode_record reserve r = Inl SResourceLimit)
    \<and> (decode_record alloc bs = decode_record granted bs
        \<or> decode_record alloc bs = Inl SInvalidEncoding)"
  using decode_encode_record_iff [OF assms] encode_record_total limited_encode_record [of reserve r]
    decode_record_refused [of alloc bs]
  by (simp add: limited_def)

definition example_ref :: "u8 \<Rightarrow> record_ref" where
  "example_ref n = RecordRef (NamespaceRef (replicate 16 1) (replicate 16 2)) (replicate 16 n)"

definition example_world :: spatial_record where
  "example_world =
     World \<lparr>wd_id = example_ref 3, wd_version = 1, wd_root_frame = VersionedRef (example_ref 4) 1\<rparr>"

lemma example_ref_ok: "record_ref_ok (example_ref n)" "rr_scope (example_ref n) = rr_scope (example_ref m)"
  by (simp_all add: example_ref_def record_ref_ok_def namespace_ref_ok_def identity_ok_def)

lemma example_world_ok: "record_ok example_world"
  using example_ref_ok(2) [of 4 3]
  by (simp add: example_world_def world_ok_def example_ref_ok version_ok_def versioned_ok_def usize_max_def
      world_new_iff)

theorem stored_record_exact_witness:
  "\<exists>bs. encode_record granting example_world = Inr bs \<and> decode_record granted bs = Inr example_world"
proof -
  obtain bs where bs: "encode_record granting example_world = Inr bs" "length bs \<le> 5410026"
    using stored_record_exact [of "[]" example_world granting] example_world_ok by auto
  then have "length bs \<le> usize_max" by (simp add: usize_max_def)
  from stored_record_exact [OF this, of example_world granting] bs example_world_ok show ?thesis by auto
qed

end
