(* ===== verification/Spatial_Catalog.thy ===== *)
theory Spatial_Catalog
  imports Spatial_Records BTree_Map
begin

text \<open>
  The in-memory history of spatial records, \<open>uste-spatial/src/catalog.rs\<close>: a batch is staged
  against a borrowed base, validated as a whole and then published.  The hash function \<open>H\<close> and the
  answers \<open>reserve\<close> of the allocator are arguments.  The walk over the ancestors of a frame is a
  loop without a static bound, so its value is an option, with \<^term>\<open>None\<close> for a walk that never
  ends; the operations above it inherit the option, and in \<open>publish_prepared\<close> and \<open>apply_batch\<close>
  \<^term>\<open>None\<close> is also the panic of the assertion.
\<close>

section \<open>The catalog\<close>

datatype observation_outcome = Inserted record_ref | Duplicate record_ref

datatype 'a recorded_entry = HistoryEntry (recorded_revision: commit_revision) (entry_value: 'a)

type_synonym 'a histories = "(record_ref, 'a recorded_entry list) bmap"

record spatial_catalog =
  sc_worlds :: "world_definition histories"
  sc_frames :: "frame_definition histories"
  sc_geometries :: "geometry_version histories"
  sc_observations :: "(record_ref, position_observation recorded_entry) bmap"
  sc_source_events :: "(observation_key, record_ref) bmap"
  sc_last_revision :: "commit_revision option"
  sc_entry_count :: nat
  sc_logical_bytes :: nat
  sc_content_anchor :: bytes

record prepared_catalog_batch =
  pb_base_revision :: "commit_revision option"
  pb_base_entry_count :: nat
  pb_base_logical_bytes :: nat
  pb_base_content_anchor :: bytes
  pb_revision :: commit_revision
  pb_inserted :: "spatial_record list"
  pb_outcomes :: "observation_outcome list"
  pb_effect_revisions :: "commit_revision list"
  pb_resulting_entry_count :: nat
  pb_resulting_logical_bytes :: nat
  pb_resulting_content_anchor :: bytes

definition catalog_new :: spatial_catalog where
  "catalog_new =
     \<lparr>sc_worlds = [], sc_frames = [], sc_geometries = [], sc_observations = [], sc_source_events = [],
      sc_last_revision = None, sc_entry_count = 0, sc_logical_bytes = 0,
      sc_content_anchor = replicate 32 0\<rparr>"

definition after_revision :: "commit_revision option \<Rightarrow> commit_revision \<Rightarrow> bool" where
  "after_revision past revision \<longleftrightarrow>
     (case past of None \<Rightarrow> True | Some previous \<Rightarrow> revision_get previous < revision_get revision)"

definition push_history :: "record_ref \<Rightarrow> 'a \<Rightarrow> (record_ref, 'a list) bmap \<Rightarrow> (record_ref, 'a list) bmap" where
  "push_history rid e m = bm_insert rid ((case bm_get m rid of None \<Rightarrow> [] | Some es \<Rightarrow> es) @ [e]) m"

subsection \<open>Reads\<close>

definition vec_get :: "'a list \<Rightarrow> nat \<Rightarrow> 'a option" where
  "vec_get xs i = (if i < length xs then Some (xs ! i) else None)"

definition vec_last :: "'a list \<Rightarrow> 'a option" where
  "vec_last xs = (if xs = [] then None else Some (last xs))"

definition history_entry :: "'a recorded_entry list option \<Rightarrow> spatial_version \<Rightarrow> 'a recorded_entry option" where
  "history_entry history version =
     (if version < 1 then None
      else case history of None \<Rightarrow> None | Some es \<Rightarrow> vec_get es (version - 1))"

definition visible ::
  "'a recorded_entry option \<Rightarrow> commit_revision \<Rightarrow> spatial_error \<Rightarrow> spatial_error + 'a" where
  "visible entry revision missing =
     (case entry of
        None \<Rightarrow> Inl missing
      | Some e \<Rightarrow>
          if revision_get (recorded_revision e) \<le> revision_get revision then Inr (entry_value e)
          else Inl missing)"

definition world_at ::
  "spatial_catalog \<Rightarrow> versioned_ref \<Rightarrow> commit_revision \<Rightarrow> spatial_error + world_definition" where
  "world_at c reference knowledge_revision =
     visible (history_entry (bm_get (sc_worlds c) (vr_record reference)) (vr_version reference))
       knowledge_revision SMissingWorld"

definition frame_at ::
  "spatial_catalog \<Rightarrow> versioned_ref \<Rightarrow> commit_revision \<Rightarrow> spatial_error + frame_definition" where
  "frame_at c reference knowledge_revision =
     visible (history_entry (bm_get (sc_frames c) (vr_record reference)) (vr_version reference))
       knowledge_revision SMissingFrameVersion"

definition geometry_at ::
  "spatial_catalog \<Rightarrow> versioned_ref \<Rightarrow> commit_revision \<Rightarrow> spatial_error + geometry_version" where
  "geometry_at c reference knowledge_revision =
     visible (history_entry (bm_get (sc_geometries c) (vr_record reference)) (vr_version reference))
       knowledge_revision SMissingGeometryVersion"

definition observation_at ::
  "spatial_catalog \<Rightarrow> record_ref \<Rightarrow> commit_revision \<Rightarrow> spatial_error + position_observation" where
  "observation_at c rid knowledge_revision =
     visible (bm_get (sc_observations c) rid) knowledge_revision SMissingObservation"

definition frame_history_len :: "spatial_catalog \<Rightarrow> record_ref \<Rightarrow> nat" where
  "frame_history_len c rid = (case bm_get (sc_frames c) rid of None \<Rightarrow> 0 | Some es \<Rightarrow> length es)"

text \<open>The visitor threads a state of its own; the maps are visited in key order.\<close>

definition visit_histories ::
  "(commit_revision \<Rightarrow> 'a \<Rightarrow> 's \<Rightarrow> 'e + 's) \<Rightarrow> 'a histories \<Rightarrow> 's \<Rightarrow> 'e + 's" where
  "visit_histories visitor m =
     rfold (\<lambda>(_, entries). rfold (\<lambda>e. visitor (recorded_revision e) (entry_value e)) entries) m"

definition visit_records ::
  "(commit_revision \<Rightarrow> spatial_record \<Rightarrow> 's \<Rightarrow> 'e + 's) \<Rightarrow> spatial_catalog \<Rightarrow> 's \<Rightarrow> 'e + 's" where
  "visit_records visitor c s =
     rbind (visit_histories (\<lambda>r w. visitor r (World w)) (sc_worlds c) s) (\<lambda>s.
     rbind (visit_histories (\<lambda>r f. visitor r (Frame f)) (sc_frames c) s) (\<lambda>s.
     rbind (visit_histories (\<lambda>r g. visitor r (GeometryRecord g)) (sc_geometries c) s) (\<lambda>s.
     rfold (\<lambda>(_, e). visitor (recorded_revision e) (Observation (entry_value e)))
       (sc_observations c) s)))"

section \<open>Staging a batch\<close>

datatype category = CatWorld | CatFrame | CatGeometry | CatObservation

record catalog_preparation =
  cp_base :: spatial_catalog
  cp_revision :: commit_revision
  cp_worlds :: "(record_ref, world_definition list) bmap"
  cp_frames :: "(record_ref, frame_definition list) bmap"
  cp_geometries :: "(record_ref, geometry_version list) bmap"
  cp_observations :: "(record_ref, position_observation) bmap"
  cp_source_events :: "(observation_key, record_ref) bmap"
  cp_inserted_indices :: "nat list"
  cp_outcomes :: "observation_outcome list"
  cp_effect_revisions :: "commit_revision list"
  cp_new_logical_bytes :: nat
  cp_resulting_content_anchor :: bytes

definition preparation_new ::
  "(nat \<Rightarrow> bool) \<Rightarrow> spatial_catalog \<Rightarrow> commit_revision \<Rightarrow> nat \<Rightarrow> spatial_error + catalog_preparation" where
  "preparation_new reserve base revision record_count =
     rbind (ensure (reserve record_count) SResourceLimit) (\<lambda>_.
     rbind (ensure (reserve record_count) SResourceLimit) (\<lambda>_.
     rbind (ensure (reserve record_count) SResourceLimit) (\<lambda>_.
     Inr \<lparr>cp_base = base, cp_revision = revision, cp_worlds = [], cp_frames = [], cp_geometries = [],
          cp_observations = [], cp_source_events = [], cp_inserted_indices = [], cp_outcomes = [],
          cp_effect_revisions = [], cp_new_logical_bytes = 0,
          cp_resulting_content_anchor = sc_content_anchor base\<rparr>)))"

definition category_of :: "catalog_preparation \<Rightarrow> record_ref \<Rightarrow> category option" where
  "category_of p rid =
     (if bm_get (cp_worlds p) rid \<noteq> None \<or> bm_get (sc_worlds (cp_base p)) rid \<noteq> None
      then Some CatWorld
      else if bm_get (cp_frames p) rid \<noteq> None \<or> bm_get (sc_frames (cp_base p)) rid \<noteq> None
      then Some CatFrame
      else if bm_get (cp_geometries p) rid \<noteq> None \<or> bm_get (sc_geometries (cp_base p)) rid \<noteq> None
      then Some CatGeometry
      else if bm_get (cp_observations p) rid \<noteq> None \<or> bm_get (sc_observations (cp_base p)) rid \<noteq> None
      then Some CatObservation
      else None)"

definition ensure_category ::
  "catalog_preparation \<Rightarrow> record_ref \<Rightarrow> category \<Rightarrow> spatial_error + unit" where
  "ensure_category p rid expected =
     (case category_of p rid of
        None \<Rightarrow> Inr ()
      | Some actual \<Rightarrow> if actual = expected then Inr () else Inl SDuplicateRecord)"

definition or_else :: "'a option \<Rightarrow> 'a option \<Rightarrow> 'a option" where
  "or_else a b = (case a of None \<Rightarrow> b | Some x \<Rightarrow> Some x)"

definition latest ::
  "(record_ref, 'a list) bmap \<Rightarrow> 'a histories \<Rightarrow> record_ref \<Rightarrow> 'a option" where
  "latest staged base rid =
     or_else (Option.bind (bm_get staged rid) vec_last)
       (Option.bind (bm_get base rid) (\<lambda>es. map_option entry_value (vec_last es)))"

definition latest_world :: "catalog_preparation \<Rightarrow> record_ref \<Rightarrow> world_definition option" where
  "latest_world p = latest (cp_worlds p) (sc_worlds (cp_base p))"

definition latest_frame :: "catalog_preparation \<Rightarrow> record_ref \<Rightarrow> frame_definition option" where
  "latest_frame p = latest (cp_frames p) (sc_frames (cp_base p))"

definition latest_geometry :: "catalog_preparation \<Rightarrow> record_ref \<Rightarrow> geometry_version option" where
  "latest_geometry p = latest (cp_geometries p) (sc_geometries (cp_base p))"

definition world_visible :: "catalog_preparation \<Rightarrow> record_ref \<Rightarrow> spatial_error + world_definition" where
  "world_visible p rid = ok_or (latest_world p rid) SMissingWorld"

definition staged_frame_at ::
  "catalog_preparation \<Rightarrow> versioned_ref \<Rightarrow> spatial_error + frame_definition" where
  "staged_frame_at p reference =
     ok_or (or_else
       (Option.bind (bm_get (cp_frames p) (vr_record reference))
          (find (\<lambda>f. fd_version f = vr_version reference)))
       (map_option entry_value
          (history_entry (bm_get (sc_frames (cp_base p)) (vr_record reference)) (vr_version reference))))
     SMissingFrameVersion"

definition staged_observation ::
  "catalog_preparation \<Rightarrow> record_ref \<Rightarrow> (commit_revision \<times> position_observation) option" where
  "staged_observation p rid =
     or_else (map_option (\<lambda>obs. (cp_revision p, obs)) (bm_get (cp_observations p) rid))
       (map_option (\<lambda>e. (recorded_revision e, entry_value e)) (bm_get (sc_observations (cp_base p)) rid))"

definition staged_source_event :: "catalog_preparation \<Rightarrow> observation_key \<Rightarrow> record_ref option" where
  "staged_source_event p key =
     or_else (bm_get (cp_source_events p) key) (bm_get (sc_source_events (cp_base p)) key)"

definition CATALOG_ENTRY_DOMAIN :: bytes where
  "CATALOG_ENTRY_DOMAIN = ascii ''USTE-SPATIAL-CATALOG-ENTRY-V1'' @ [0]"

definition entry_anchor :: "(bytes \<Rightarrow> bytes) \<Rightarrow> commit_revision \<Rightarrow> bytes \<Rightarrow> bytes" where
  "entry_anchor H revision encoded =
     H (CATALOG_ENTRY_DOMAIN @ be_bytes 8 (revision_get revision) @ be_bytes 8 (length encoded) @ encoded)"

definition xor_anchor :: "bytes \<Rightarrow> bytes \<Rightarrow> bytes" where
  "xor_anchor anchor entry = map2 (XOR) anchor entry"

definition check_next_value :: "spatial_version option \<Rightarrow> spatial_version \<Rightarrow> spatial_error + unit" where
  "check_next_value previous version =
     (case previous of
        None \<Rightarrow> if version = VERSION_FIRST then Inr () else Inl SVersionConflict
      | Some previous \<Rightarrow>
          rbind (map_err from_primitive (version_checked_next previous)) (\<lambda>next.
          if next = version then Inr () else Inl SVersionConflict))"

definition charge ::
  "(bytes \<Rightarrow> bytes) \<Rightarrow> (nat \<Rightarrow> bool) \<Rightarrow> nat \<Rightarrow> spatial_record \<Rightarrow> catalog_preparation \<Rightarrow>
   spatial_error + catalog_preparation" where
  "charge H reserve index record p =
     rbind (ok_or (Option.bind (checked_add (sc_entry_count (cp_base p)) (length (cp_inserted_indices p)))
       (\<lambda>count. checked_add count 1)) SResourceLimit) (\<lambda>resulting_entry_count.
     rbind (encode_record reserve record) (\<lambda>encoded.
     rbind (ok_or (Option.bind (checked_add (cp_new_logical_bytes p) 12)
       (\<lambda>count. checked_add count (length encoded))) SResourceLimit) (\<lambda>new_logical_bytes.
     rbind (ok_or (checked_add (sc_logical_bytes (cp_base p)) new_logical_bytes) SResourceLimit)
       (\<lambda>resulting_logical_bytes.
     if resulting_entry_count > MAX_SPATIAL_CATALOG_ENTRIES
         \<or> resulting_logical_bytes > MAX_SPATIAL_CATALOG_LOGICAL_BYTES
     then Inl SResourceLimit
     else Inr (p\<lparr>cp_inserted_indices := cp_inserted_indices p @ [index],
                 cp_effect_revisions := cp_effect_revisions p @ [cp_revision p],
                 cp_new_logical_bytes := new_logical_bytes,
                 cp_resulting_content_anchor :=
                   xor_anchor (cp_resulting_content_anchor p)
                     (entry_anchor H (cp_revision p) encoded)\<rparr>)))))"

definition stage_world ::
  "(bytes \<Rightarrow> bytes) \<Rightarrow> (nat \<Rightarrow> bool) \<Rightarrow> nat \<Rightarrow> world_definition \<Rightarrow> catalog_preparation \<Rightarrow>
   spatial_error + catalog_preparation" where
  "stage_world H reserve index world p =
     rbind (ensure_category p (wd_id world) CatWorld) (\<lambda>_.
     let previous = latest_world p (wd_id world) in
     rbind (check_next_value (map_option wd_version previous) (wd_version world)) (\<lambda>_.
     rbind (case previous of
         None \<Rightarrow> Inr ()
       | Some previous \<Rightarrow>
           ensure (vr_record (wd_root_frame previous) = vr_record (wd_root_frame world))
             SInvalidRootFrame) (\<lambda>_.
     rbind (charge H reserve index (World world) p) (\<lambda>p.
     rbind (ensure (reserve 1) SResourceLimit) (\<lambda>_.
     Inr (p\<lparr>cp_worlds := push_history (wd_id world) world (cp_worlds p)\<rparr>))))))"

definition stage_frame ::
  "(bytes \<Rightarrow> bytes) \<Rightarrow> (nat \<Rightarrow> bool) \<Rightarrow> nat \<Rightarrow> frame_definition \<Rightarrow> catalog_preparation \<Rightarrow>
   spatial_error + catalog_preparation" where
  "stage_frame H reserve index frame p =
     rbind (ensure_category p (fd_id frame) CatFrame) (\<lambda>_.
     let previous = latest_frame p (fd_id frame) in
     rbind (check_next_value (map_option fd_version previous) (fd_version frame)) (\<lambda>_.
     rbind (case previous of
         None \<Rightarrow> Inr ()
       | Some previous \<Rightarrow>
           ensure (\<not> (fd_world previous \<noteq> fd_world frame \<or> fd_kind previous \<noteq> fd_kind frame))
             SVersionConflict) (\<lambda>_.
     rbind (charge H reserve index (Frame frame) p) (\<lambda>p.
     rbind (ensure (reserve 1) SResourceLimit) (\<lambda>_.
     Inr (p\<lparr>cp_frames := push_history (fd_id frame) frame (cp_frames p)\<rparr>))))))"

definition stage_geometry ::
  "(bytes \<Rightarrow> bytes) \<Rightarrow> (nat \<Rightarrow> bool) \<Rightarrow> nat \<Rightarrow> geometry_version \<Rightarrow> catalog_preparation \<Rightarrow>
   spatial_error + catalog_preparation" where
  "stage_geometry H reserve index geometry p =
     rbind (ensure_category p (gv_id geometry) CatGeometry) (\<lambda>_.
     let previous = latest_geometry p (gv_id geometry) in
     rbind (check_next_value (map_option gv_version previous) (gv_version geometry)) (\<lambda>_.
     rbind (case (previous, gv_predecessor geometry) of
         (None, None) \<Rightarrow> Inr ()
       | (Some previous, Some reference) \<Rightarrow>
           ensure (vr_record reference = gv_id geometry \<and> vr_version reference = gv_version previous)
             SInvalidPredecessor
       | _ \<Rightarrow> Inl SInvalidPredecessor) (\<lambda>_.
     rbind (charge H reserve index (GeometryRecord geometry) p) (\<lambda>p.
     rbind (ensure (reserve 1) SResourceLimit) (\<lambda>_.
     Inr (p\<lparr>cp_geometries := push_history (gv_id geometry) geometry (cp_geometries p)\<rparr>))))))"

definition stage_duplicate ::
  "record_ref \<Rightarrow> commit_revision \<Rightarrow> catalog_preparation \<Rightarrow> catalog_preparation" where
  "stage_duplicate existing recorded p =
     p\<lparr>cp_outcomes := cp_outcomes p @ [Duplicate existing],
       cp_effect_revisions := cp_effect_revisions p @ [recorded]\<rparr>"

definition stage_observation ::
  "(bytes \<Rightarrow> bytes) \<Rightarrow> (nat \<Rightarrow> bool) \<Rightarrow> nat \<Rightarrow> position_observation \<Rightarrow> catalog_preparation \<Rightarrow>
   spatial_error + catalog_preparation" where
  "stage_observation H reserve index obs p =
     rbind (ensure_category p (po_id obs) CatObservation) (\<lambda>_.
     case staged_observation p (po_id obs) of
       Some (recorded, existing) \<Rightarrow>
         if existing \<noteq> obs then Inl SDuplicateRecord
         else Inr (stage_duplicate (po_id obs) recorded p)
     | None \<Rightarrow>
        (case staged_source_event p (po_key obs) of
           Some existing_id \<Rightarrow>
             rbind (ok_or (staged_observation p existing_id) SInvalidObservation)
               (\<lambda>(recorded, existing).
             if existing \<noteq> obs then Inl SSourceEventConflict
             else Inr (stage_duplicate existing_id recorded p))
         | None \<Rightarrow>
             rbind (charge H reserve index (Observation obs) p) (\<lambda>p.
             Inr (p\<lparr>cp_observations := bm_insert (po_id obs) obs (cp_observations p),
                    cp_source_events := bm_insert (po_key obs) (po_id obs) (cp_source_events p),
                    cp_outcomes := cp_outcomes p @ [Inserted (po_id obs)]\<rparr>))))"

definition stage ::
  "(bytes \<Rightarrow> bytes) \<Rightarrow> (nat \<Rightarrow> bool) \<Rightarrow> nat \<Rightarrow> spatial_record \<Rightarrow> catalog_preparation \<Rightarrow>
   spatial_error + catalog_preparation" where
  "stage H reserve index record p =
     (case record of
        World w \<Rightarrow> stage_world H reserve index w p
      | Frame f \<Rightarrow> stage_frame H reserve index f p
      | GeometryRecord g \<Rightarrow> stage_geometry H reserve index g p
      | Observation obs \<Rightarrow> stage_observation H reserve index obs p)"

definition preparation_finish ::
  "(nat \<Rightarrow> bool) \<Rightarrow> catalog_preparation \<Rightarrow> spatial_record list \<Rightarrow>
   spatial_error + prepared_catalog_batch" where
  "preparation_finish reserve p records =
     rbind (ensure (length (cp_effect_revisions p) = length records) SInvalidEncoding) (\<lambda>_.
     rbind (ensure (reserve (length (cp_inserted_indices p))) SResourceLimit) (\<lambda>_.
     rbind (rfold (\<lambda>index inserted.
         rbind (ok_or (vec_get records index) SInvalidEncoding) (\<lambda>r. Inr (inserted @ [r])))
       (cp_inserted_indices p) []) (\<lambda>inserted.
     rbind (ok_or (checked_add (sc_entry_count (cp_base p)) (length inserted)) SResourceLimit)
       (\<lambda>resulting_entry_count.
     rbind (ok_or (checked_add (sc_logical_bytes (cp_base p)) (cp_new_logical_bytes p)) SResourceLimit)
       (\<lambda>resulting_logical_bytes.
     Inr \<lparr>pb_base_revision = sc_last_revision (cp_base p),
          pb_base_entry_count = sc_entry_count (cp_base p),
          pb_base_logical_bytes = sc_logical_bytes (cp_base p),
          pb_base_content_anchor = sc_content_anchor (cp_base p),
          pb_revision = cp_revision p,
          pb_inserted = inserted,
          pb_outcomes = cp_outcomes p,
          pb_effect_revisions = cp_effect_revisions p,
          pb_resulting_entry_count = resulting_entry_count,
          pb_resulting_logical_bytes = resulting_logical_bytes,
          pb_resulting_content_anchor = cp_resulting_content_anchor p\<rparr>)))))"

section \<open>Validating a batch\<close>

definition obind :: "('e + 'a) option \<Rightarrow> ('a \<Rightarrow> ('e + 'b) option) \<Rightarrow> ('e + 'b) option" where
  "obind m f = (case m of None \<Rightarrow> None | Some (Inl e) \<Rightarrow> Some (Inl e) | Some (Inr x) \<Rightarrow> f x)"

partial_function (option) frame_walk ::
  "catalog_preparation \<Rightarrow> record_ref \<Rightarrow> record_ref \<Rightarrow> record_ref set \<Rightarrow> nat \<Rightarrow> frame_parent \<Rightarrow>
   (spatial_error + unit) option" where
  "frame_walk p world root seen level parent =
     (case checked_add level 1 of
        None \<Rightarrow> Some (Inl SResourceLimit)
      | Some level \<Rightarrow>
          if level > MAX_FRAME_DEPTH then Some (Inl SResourceLimit)
          else if vr_record (fp_frame parent) \<in> seen then Some (Inl SFrameCycle)
          else case staged_frame_at p (fp_frame parent) of
              Inl e \<Rightarrow> Some (Inl e)
            | Inr next \<Rightarrow>
                if fd_world next \<noteq> world then Some (Inl SScopeMismatch)
                else case fd_parent next of
                    Some next_parent \<Rightarrow>
                      frame_walk p world root (insert (vr_record (fp_frame parent)) seen) level next_parent
                  | None \<Rightarrow>
                      if fd_id next = root then Some (Inr ()) else Some (Inl SInvalidRootFrame))"

definition validate_frame ::
  "catalog_preparation \<Rightarrow> frame_definition \<Rightarrow> (spatial_error + unit) option" where
  "validate_frame p frame =
     obind (Some (world_visible p (fd_world frame))) (\<lambda>world.
     if vr_record (wd_root_frame world) = fd_id frame
     then Some (ensure (fd_parent frame = None) SInvalidRootFrame)
     else
       obind (Some (ok_or (fd_parent frame) SMissingFrame)) (\<lambda>parent.
       frame_walk p (fd_world frame) (vr_record (wd_root_frame world)) {fd_id frame} 0 parent))"

definition validate_record ::
  "catalog_preparation \<Rightarrow> commit_revision \<Rightarrow> spatial_record \<Rightarrow> (spatial_error + unit) option" where
  "validate_record p revision record =
     (case record of
        World world \<Rightarrow> Some (
          rbind (staged_frame_at p (wd_root_frame world)) (\<lambda>root.
          ensure (\<not> (fd_world root \<noteq> wd_id world \<or> fd_parent root \<noteq> None)) SInvalidRootFrame))
      | Frame frame \<Rightarrow> validate_frame p frame
      | GeometryRecord geometry \<Rightarrow> Some (
          rbind (world_visible p (gv_world geometry)) (\<lambda>_.
          rbind (staged_frame_at p (gv_frame geometry)) (\<lambda>frame.
          ensure (\<not> (fd_world frame \<noteq> gv_world geometry
              \<or> \<not> accepts_geometry (fd_kind frame) (gv_geometry geometry))) SIncompatibleFrame)))
      | Observation obs \<Rightarrow> Some (
          rbind (world_visible p (po_world obs)) (\<lambda>_.
          rbind (staged_frame_at p (po_frame obs)) (\<lambda>frame.
          rbind (ensure (\<not> (fd_world frame \<noteq> po_world obs
              \<or> \<not> profile_accepts (fd_profile frame) (po_position obs))) SIncompatibleFrame) (\<lambda>_.
          case po_correction_of obs of
            None \<Rightarrow> Inr ()
          | Some previous_id \<Rightarrow>
              rbind (ok_or (case staged_observation p previous_id of
                  None \<Rightarrow> None
                | Some (recorded, previous) \<Rightarrow>
                    if revision_get recorded < revision_get revision then Some (recorded, previous)
                    else None) SInvalidCorrection) (\<lambda>(recorded, previous).
              ensure (\<not> (po_entity previous \<noteq> po_entity obs \<or> po_world previous \<noteq> po_world obs))
                SInvalidCorrection))))))"

fun validate_records ::
  "catalog_preparation \<Rightarrow> commit_revision \<Rightarrow> spatial_record list \<Rightarrow> (spatial_error + unit) option" where
  "validate_records p revision [] = Some (Inr ())"
| "validate_records p revision (record # records) =
     obind (validate_record p revision record) (\<lambda>_. validate_records p revision records)"

section \<open>Preparing and publishing\<close>

definition prepare_batch ::
  "(bytes \<Rightarrow> bytes) \<Rightarrow> (nat \<Rightarrow> bool) \<Rightarrow> spatial_catalog \<Rightarrow> commit_revision \<Rightarrow> spatial_record list \<Rightarrow>
   (spatial_error + prepared_catalog_batch) option" where
  "prepare_batch H reserve c revision records =
     (if length records > MAX_SPATIAL_BATCH_RECORDS then Some (Inl SResourceLimit)
      else if records = [] \<or> \<not> after_revision (sc_last_revision c) revision
      then Some (Inl SVersionConflict)
      else
        obind (Some (preparation_new reserve c revision (length records))) (\<lambda>p.
        obind (Some (rfold (\<lambda>(index, record). stage H reserve index record) (enumerate 0 records) p)) (\<lambda>p.
        obind (validate_records p revision records) (\<lambda>_.
        Some (preparation_finish reserve p records)))))"

definition catalog_can_publish :: "spatial_catalog \<Rightarrow> prepared_catalog_batch \<Rightarrow> bool" where
  "catalog_can_publish c prepared \<longleftrightarrow>
     (sc_last_revision c, sc_entry_count c, sc_logical_bytes c, sc_content_anchor c)
     = (pb_base_revision prepared, pb_base_entry_count prepared, pb_base_logical_bytes prepared,
        pb_base_content_anchor prepared)"

definition publish_record :: "commit_revision \<Rightarrow> spatial_record \<Rightarrow> spatial_catalog \<Rightarrow> spatial_catalog" where
  "publish_record revision record c =
     (case record of
        World w \<Rightarrow> c\<lparr>sc_worlds := push_history (wd_id w) (HistoryEntry revision w) (sc_worlds c)\<rparr>
      | Frame f \<Rightarrow> c\<lparr>sc_frames := push_history (fd_id f) (HistoryEntry revision f) (sc_frames c)\<rparr>
      | GeometryRecord g \<Rightarrow>
          c\<lparr>sc_geometries := push_history (gv_id g) (HistoryEntry revision g) (sc_geometries c)\<rparr>
      | Observation obs \<Rightarrow>
          c\<lparr>sc_source_events := bm_insert (po_key obs) (po_id obs) (sc_source_events c),
            sc_observations := bm_insert (po_id obs) (HistoryEntry revision obs) (sc_observations c)\<rparr>)"

definition publish_prepared ::
  "spatial_catalog \<Rightarrow> prepared_catalog_batch \<Rightarrow> (observation_outcome list \<times> spatial_catalog) option" where
  "publish_prepared c prepared =
     (if (sc_last_revision c, sc_entry_count c, sc_logical_bytes c, sc_content_anchor c)
         \<noteq> (pb_base_revision prepared, pb_base_entry_count prepared, pb_base_logical_bytes prepared,
            pb_base_content_anchor prepared)
      then None
      else
        Some (pb_outcomes prepared,
          (fold (publish_record (pb_revision prepared)) (pb_inserted prepared) c)
            \<lparr>sc_last_revision := Some (pb_revision prepared),
             sc_entry_count := pb_resulting_entry_count prepared,
             sc_logical_bytes := pb_resulting_logical_bytes prepared,
             sc_content_anchor := pb_resulting_content_anchor prepared\<rparr>))"

definition apply_batch ::
  "(bytes \<Rightarrow> bytes) \<Rightarrow> (nat \<Rightarrow> bool) \<Rightarrow> commit_revision \<Rightarrow> spatial_record list \<Rightarrow> spatial_catalog \<Rightarrow>
   ((spatial_error + observation_outcome list) \<times> spatial_catalog) option" where
  "apply_batch H reserve revision records c =
     (case prepare_batch H reserve c revision records of
        None \<Rightarrow> None
      | Some (Inl e) \<Rightarrow> Some (Inl e, c)
      | Some (Inr prepared) \<Rightarrow>
          (case publish_prepared c prepared of
             None \<Rightarrow> None
           | Some (outcomes, c) \<Rightarrow> Some (Inr outcomes, c)))"

section \<open>Every batch is decided\<close>

lemma obind_Some [simp]: "obind (Some (Inr x)) f = f x" "obind (Some (Inl e)) f = Some (Inl e)"
  by (simp_all add: obind_def)

lemma obind_returns: "\<exists>r. m = Some r \<Longrightarrow> (\<And>x. m = Some (Inr x) \<Longrightarrow> \<exists>r. f x = Some r) \<Longrightarrow> \<exists>r. obind m f = Some r"
  by (auto simp: obind_def split: sum.splits)

lemma obind_eq_Inr: "obind m f = Some (Inr y) \<longleftrightarrow> (\<exists>x. m = Some (Inr x) \<and> f x = Some (Inr y))"
  by (auto simp: obind_def split: option.splits sum.splits)

text \<open>The walk ends whatever the catalog holds: each round raises the depth, which is bounded.\<close>

lemma frame_walk_returns: "\<exists>r. frame_walk p world root seen level parent = Some r"
proof (induction "MAX_FRAME_DEPTH - level" arbitrary: seen level parent rule: less_induct)
  case less
  then show ?case
    by (subst frame_walk.simps) (auto split: option.splits sum.splits)
qed

lemma validate_frame_returns: "\<exists>r. validate_frame p frame = Some r"
  unfolding validate_frame_def by (intro obind_returns) (auto intro!: obind_returns frame_walk_returns)

lemma validate_record_returns: "\<exists>r. validate_record p revision record = Some r"
  by (cases "record") (simp_all add: validate_record_def validate_frame_returns)

lemma validate_records_returns: "\<exists>r. validate_records p revision records = Some r"
  by (induction records) (auto intro!: obind_returns simp: validate_record_returns)

lemma prepare_batch_returns: "\<exists>r. prepare_batch H reserve c revision records = Some r"
  unfolding prepare_batch_def by (auto intro!: obind_returns simp: validate_records_returns)

lemma preparation_finish_iff:
  "preparation_finish reserve p records = Inr b \<longleftrightarrow>
     length (cp_effect_revisions p) = length records
     \<and> reserve (length (cp_inserted_indices p))
     \<and> (\<forall>i \<in> set (cp_inserted_indices p). i < length records)
     \<and> sc_entry_count (cp_base p) + length (cp_inserted_indices p) \<le> usize_max
     \<and> sc_logical_bytes (cp_base p) + cp_new_logical_bytes p \<le> usize_max
     \<and> b = \<lparr>pb_base_revision = sc_last_revision (cp_base p),
          pb_base_entry_count = sc_entry_count (cp_base p),
          pb_base_logical_bytes = sc_logical_bytes (cp_base p),
          pb_base_content_anchor = sc_content_anchor (cp_base p),
          pb_revision = cp_revision p,
          pb_inserted = map ((!) records) (cp_inserted_indices p),
          pb_outcomes = cp_outcomes p,
          pb_effect_revisions = cp_effect_revisions p,
          pb_resulting_entry_count = sc_entry_count (cp_base p) + length (cp_inserted_indices p),
          pb_resulting_logical_bytes = sc_logical_bytes (cp_base p) + cp_new_logical_bytes p,
          pb_resulting_content_anchor = cp_resulting_content_anchor p\<rparr>"
proof -
  have "rfold (\<lambda>index inserted.
         rbind (ok_or (vec_get records index) SInvalidEncoding) (\<lambda>r. Inr (inserted @ [r]))) js out = Inr ins
      \<longleftrightarrow> (\<forall>i \<in> set js. i < length records) \<and> ins = out @ map ((!) records) js" for js out ins
    by (induction js arbitrary: out) (auto simp: rbind_iffs vec_get_def)
  then show ?thesis
    by (auto simp: preparation_finish_def rbind_iffs)
qed

definition is_observation :: "spatial_record \<Rightarrow> bool" where
  "is_observation r \<longleftrightarrow> (case r of Observation _ \<Rightarrow> True | _ \<Rightarrow> False)"

text \<open>What staging a record does to the bookkeeping of the preparation.\<close>

lemma charge_iff:
  "charge H reserve index record p = Inr p' \<longleftrightarrow>
     (\<exists>encoded. encode_record reserve record = Inr encoded
       \<and> sc_entry_count (cp_base p) + length (cp_inserted_indices p) + 1 \<le> MAX_SPATIAL_CATALOG_ENTRIES
       \<and> sc_logical_bytes (cp_base p) + (cp_new_logical_bytes p + 12 + length encoded)
           \<le> MAX_SPATIAL_CATALOG_LOGICAL_BYTES
       \<and> p' = p\<lparr>cp_inserted_indices := cp_inserted_indices p @ [index],
                 cp_effect_revisions := cp_effect_revisions p @ [cp_revision p],
                 cp_new_logical_bytes := cp_new_logical_bytes p + 12 + length encoded,
                 cp_resulting_content_anchor :=
                   xor_anchor (cp_resulting_content_anchor p)
                     (entry_anchor H (cp_revision p) encoded)\<rparr>)"
proof -
  have limits: "MAX_SPATIAL_CATALOG_ENTRIES \<le> usize_max" "MAX_SPATIAL_CATALOG_LOGICAL_BYTES \<le> usize_max"
    by (simp_all add: spatial_limits usize_max_def)
  have added: "ok_or (Option.bind (checked_add a b) (\<lambda>c. checked_add c d)) SResourceLimit =
      (if a + b + d \<le> usize_max then Inr (a + b + d) else Inl SResourceLimit)"
    "ok_or (checked_add a b) SResourceLimit =
      (if a + b \<le> usize_max then Inr (a + b) else Inl SResourceLimit)" for a b d
    by (simp_all add: checked_add_def)
  show ?thesis
    unfolding charge_def added
    using limits by (cases "encode_record reserve record") auto
qed

lemma ensure_category_iff: "ensure_category p rid c = Inr u \<longleftrightarrow> category_of p rid \<in> {None, Some c}"
  by (auto simp: ensure_category_def split: option.splits)

lemma check_next_value_iff:
  "check_next_value previous version = Inr u \<longleftrightarrow>
     (case previous of None \<Rightarrow> version = 1 | Some v \<Rightarrow> version = Suc v \<and> v < usize_max)"
  by (auto simp: check_next_value_def VERSION_FIRST_def rbind_iffs map_err_eq_Inr version_checked_next_iff
      split: option.splits)

lemma stage_world_iff:
  "stage_world H reserve index w p = Inr p' \<longleftrightarrow>
     category_of p (wd_id w) \<in> {None, Some CatWorld}
     \<and> check_next_value (map_option wd_version (latest_world p (wd_id w))) (wd_version w) = Inr ()
     \<and> (case latest_world p (wd_id w) of None \<Rightarrow> True
         | Some previous \<Rightarrow> vr_record (wd_root_frame previous) = vr_record (wd_root_frame w))
     \<and> reserve 1
     \<and> (\<exists>q. charge H reserve index (World w) p = Inr q
         \<and> p' = q\<lparr>cp_worlds := push_history (wd_id w) w (cp_worlds q)\<rparr>)"
  unfolding stage_world_def rbind_eq_Inr Let_def ensure_category_iff
  by (cases "latest_world p (wd_id w)") auto

lemma stage_frame_iff:
  "stage_frame H reserve index f p = Inr p' \<longleftrightarrow>
     category_of p (fd_id f) \<in> {None, Some CatFrame}
     \<and> check_next_value (map_option fd_version (latest_frame p (fd_id f))) (fd_version f) = Inr ()
     \<and> (case latest_frame p (fd_id f) of None \<Rightarrow> True
         | Some previous \<Rightarrow> fd_world previous = fd_world f \<and> fd_kind previous = fd_kind f)
     \<and> reserve 1
     \<and> (\<exists>q. charge H reserve index (Frame f) p = Inr q
         \<and> p' = q\<lparr>cp_frames := push_history (fd_id f) f (cp_frames q)\<rparr>)"
  unfolding stage_frame_def rbind_eq_Inr Let_def ensure_category_iff
  by (cases "latest_frame p (fd_id f)") auto

lemma stage_geometry_iff:
  "stage_geometry H reserve index g p = Inr p' \<longleftrightarrow>
     category_of p (gv_id g) \<in> {None, Some CatGeometry}
     \<and> check_next_value (map_option gv_version (latest_geometry p (gv_id g))) (gv_version g) = Inr ()
     \<and> (case latest_geometry p (gv_id g) of
          None \<Rightarrow> gv_predecessor g = None
        | Some previous \<Rightarrow> gv_predecessor g = Some (VersionedRef (gv_id g) (gv_version previous)))
     \<and> reserve 1
     \<and> (\<exists>q. charge H reserve index (GeometryRecord g) p = Inr q
         \<and> p' = q\<lparr>cp_geometries := push_history (gv_id g) g (cp_geometries q)\<rparr>)"
proof -
  have "ensure (vr_record r = a \<and> vr_version r = b) e = Inr u \<longleftrightarrow> r = VersionedRef a b" for r a b e u
    by (cases r) (auto simp: ensure_def)
  then show ?thesis
    unfolding stage_geometry_def rbind_eq_Inr Let_def ensure_category_iff
    by (cases "latest_geometry p (gv_id g)"; cases "gv_predecessor g") auto
qed

text \<open>
  An observation is a retry of one already known under its identity, or it is new under its
  identity and its source event; an event known under another identity is refused.
\<close>

lemma stage_observation_iff:
  assumes "\<And>k rid r existing. staged_source_event p k = Some rid \<Longrightarrow> staged_observation p rid = Some (r, existing) \<Longrightarrow>
    po_id existing = rid"
  shows "stage_observation H reserve index obs p = Inr p' \<longleftrightarrow>
     category_of p (po_id obs) \<in> {None, Some CatObservation}
     \<and> (case staged_observation p (po_id obs) of
          Some (r, existing) \<Rightarrow> existing = obs \<and> p' = stage_duplicate (po_id obs) r p
        | None \<Rightarrow> staged_source_event p (po_key obs) = None
            \<and> (\<exists>q. charge H reserve index (Observation obs) p = Inr q
               \<and> p' = q\<lparr>cp_observations := bm_insert (po_id obs) obs (cp_observations q),
                        cp_source_events := bm_insert (po_key obs) (po_id obs) (cp_source_events q),
                        cp_outcomes := cp_outcomes q @ [Inserted (po_id obs)]\<rparr>))"
proof (cases "staged_observation p (po_id obs)")
  case None
  then show ?thesis
    using assms [of "po_key obs"]
    by (cases "staged_source_event p (po_key obs)")
      (auto simp: stage_observation_def rbind_eq_Inr ensure_category_iff split: if_splits)
next
  case (Some e)
  then show ?thesis
    by (cases e) (auto simp: stage_observation_def rbind_eq_Inr ensure_category_iff split: if_splits)
qed

lemma charge_keeps:
  assumes "charge H reserve index r p = Inr p'"
  shows "cp_base p' = cp_base p" "cp_revision p' = cp_revision p" "cp_outcomes p' = cp_outcomes p"
    and "cp_worlds p' = cp_worlds p" "cp_frames p' = cp_frames p" "cp_geometries p' = cp_geometries p"
    and "cp_observations p' = cp_observations p" "cp_source_events p' = cp_source_events p"
    and "cp_inserted_indices p' = cp_inserted_indices p @ [index]"
    and "cp_effect_revisions p' = cp_effect_revisions p @ [cp_revision p]"
  using assms by (auto simp: charge_iff)

lemma stage_observation_books:
  assumes "stage_observation H reserve index obs p = Inr p'"
  shows "(\<exists>q. charge H reserve index (Observation obs) p = Inr q
       \<and> p' = q\<lparr>cp_observations := bm_insert (po_id obs) obs (cp_observations q),
                cp_source_events := bm_insert (po_key obs) (po_id obs) (cp_source_events q),
                cp_outcomes := cp_outcomes q @ [Inserted (po_id obs)]\<rparr>)
    \<or> (\<exists>rid r. p' = stage_duplicate rid r p)"
  using assms
  by (auto simp: stage_observation_def rbind_eq_Inr split: option.splits if_splits) blast+

lemma stage_books:
  assumes "stage H reserve index r p = Inr p'"
  shows "cp_base p' = cp_base p \<and> cp_revision p' = cp_revision p
    \<and> length (cp_effect_revisions p') = Suc (length (cp_effect_revisions p))
    \<and> length (cp_outcomes p') = length (cp_outcomes p) + (if is_observation r then 1 else 0)
    \<and> set (cp_inserted_indices p') \<subseteq> insert index (set (cp_inserted_indices p))"
proof (cases r)
  case (Observation obs)
  then show ?thesis
    using assms by (auto simp: stage_def is_observation_def stage_duplicate_def charge_keeps
        dest!: stage_observation_books)
qed (use assms in \<open>auto simp: stage_def is_observation_def stage_world_iff stage_frame_iff
    stage_geometry_iff charge_keeps\<close>)

abbreviation stage_all ::
  "(bytes \<Rightarrow> bytes) \<Rightarrow> (nat \<Rightarrow> bool) \<Rightarrow> nat \<Rightarrow> spatial_record list \<Rightarrow> catalog_preparation \<Rightarrow>
   spatial_error + catalog_preparation" where
  "stage_all H reserve n records \<equiv> rfold (\<lambda>(index, r). stage H reserve index r) (enumerate n records)"

lemma stage_all_books:
  assumes "stage_all H reserve n rs p = Inr p'"
  shows "cp_base p' = cp_base p \<and> cp_revision p' = cp_revision p
    \<and> length (cp_effect_revisions p') = length rs + length (cp_effect_revisions p)
    \<and> length (cp_outcomes p') = length (cp_outcomes p) + length (filter is_observation rs)
    \<and> set (cp_inserted_indices p') \<subseteq> {n..<n + length rs} \<union> set (cp_inserted_indices p)"
  using assms
proof (induction rs arbitrary: n p)
  case (Cons r rs)
  then obtain q where q: "stage H reserve n r p = Inr q" "stage_all H reserve (Suc n) rs q = Inr p'"
    by (auto simp: rbind_iffs)
  have "set (cp_inserted_indices p') \<subseteq> {Suc n..<Suc n + length rs} \<union> insert n (set (cp_inserted_indices p))"
    using stage_books [OF q(1)] Cons.IH [OF q(2)] by blast
  also have "\<dots> = {n..<n + length (r # rs)} \<union> set (cp_inserted_indices p)" by auto
  finally show ?case using stage_books [OF q(1)] Cons.IH [OF q(2)] by simp
qed simp

lemma prepare_batch_iff:
  "prepare_batch H reserve c revision rs = Some (Inr b) \<longleftrightarrow>
     length rs \<le> MAX_SPATIAL_BATCH_RECORDS \<and> rs \<noteq> [] \<and> after_revision (sc_last_revision c) revision
     \<and> (\<exists>p q. preparation_new reserve c revision (length rs) = Inr p \<and> stage_all H reserve 0 rs p = Inr q
         \<and> validate_records q revision rs = Some (Inr ()) \<and> preparation_finish reserve q rs = Inr b)"
  by (auto simp: prepare_batch_def obind_eq_Inr)

lemma preparation_new_iff:
  "preparation_new reserve base revision n = Inr p \<longleftrightarrow> reserve n
     \<and> p = \<lparr>cp_base = base, cp_revision = revision, cp_worlds = [], cp_frames = [], cp_geometries = [],
          cp_observations = [], cp_source_events = [], cp_inserted_indices = [], cp_outcomes = [],
          cp_effect_revisions = [], cp_new_logical_bytes = 0,
          cp_resulting_content_anchor = sc_content_anchor base\<rparr>"
  by (auto simp: preparation_new_def rbind_iffs)

lemma prepare_batch_base:
  assumes "prepare_batch H reserve c revision rs = Some (Inr b)"
  shows "catalog_can_publish c b" "pb_revision b = revision" "after_revision (sc_last_revision c) revision"
    and "length (pb_outcomes b) = length (filter is_observation rs)"
    and "length (pb_effect_revisions b) = length rs"
proof -
  obtain p q where p: "preparation_new reserve c revision (length rs) = Inr p"
    and q: "stage_all H reserve 0 rs p = Inr q" and b: "preparation_finish reserve q rs = Inr b"
    using assms by (auto simp: prepare_batch_iff)
  show "after_revision (sc_last_revision c) revision" using assms by (simp add: prepare_batch_iff)
  show "catalog_can_publish c b" "pb_revision b = revision"
    and "length (pb_outcomes b) = length (filter is_observation rs)"
    and "length (pb_effect_revisions b) = length rs"
    using stage_all_books [OF q] p b
    by (auto simp: catalog_can_publish_def preparation_finish_iff preparation_new_iff)
qed

lemma publish_prepared_eq:
  assumes "catalog_can_publish c b"
  shows "publish_prepared c b = Some (pb_outcomes b,
    (fold (publish_record (pb_revision b)) (pb_inserted b) c)
      \<lparr>sc_last_revision := Some (pb_revision b), sc_entry_count := pb_resulting_entry_count b,
       sc_logical_bytes := pb_resulting_logical_bytes b,
       sc_content_anchor := pb_resulting_content_anchor b\<rparr>)"
  using assms by (simp add: publish_prepared_def catalog_can_publish_def)

section \<open>Property\<close>

text \<open>
  C26.  Every batch is decided, on any catalog: the walk over frame ancestors ends, the assertion of
  the publication never fails, and the batch is either refused with the catalog unchanged or
  admitted at its revision, later than every earlier one, with one outcome per observation.
\<close>

theorem apply_batch_decided:
  "(\<exists>e. apply_batch H reserve revision records c = Some (Inl e, c))
   \<or> (\<exists>outcomes c'. apply_batch H reserve revision records c = Some (Inr outcomes, c')
        \<and> sc_last_revision c' = Some revision \<and> after_revision (sc_last_revision c) revision
        \<and> length outcomes = length (filter is_observation records))"
proof -
  obtain r where r: "prepare_batch H reserve c revision records = Some r"
    using prepare_batch_returns by blast
  show ?thesis
  proof (cases r)
    case (Inl e)
    then show ?thesis using r by (simp add: apply_batch_def)
  next
    case (Inr b)
    then show ?thesis
      using r prepare_batch_base [of H reserve c revision records b]
      by (simp add: apply_batch_def publish_prepared_eq)
  qed
qed

end
