(* ===== verification/Catalog_View.thy ===== *)
theory Catalog_View
  imports Spatial_Catalog
begin

text \<open>
  What a catalog, or a catalog with a staged batch on top of it, holds, as functions from
  identities to histories.  Staging and publishing refine one abstract step on such views, and the
  validation of a batch is a predicate on the view of the whole batch.
\<close>

section \<open>Histories in ordered maps\<close>

definition hist :: "(record_ref, 'a list) bmap \<Rightarrow> record_ref \<Rightarrow> 'a list" where
  "hist m rid = (case bm_get m rid of None \<Rightarrow> [] | Some es \<Rightarrow> es)"

definition hist_ok :: "(record_ref, 'a list) bmap \<Rightarrow> bool" where
  "hist_ok m \<longleftrightarrow> bm_ok m \<and> (\<forall>rid. bm_get m rid \<noteq> Some [])"

lemma hist_Nil [simp]: "hist [] rid = []"
  by (simp add: hist_def)

lemma hist_ok_Nil [simp]: "hist_ok []"
  by (simp add: hist_ok_def)

lemma hist_push: "hist_ok m \<Longrightarrow> hist (push_history rid e m) = (hist m)(rid := hist m rid @ [e])"
  by (auto simp: hist_def push_history_def hist_ok_def bm_get_insert fun_eq_iff)

lemma hist_ok_push: "hist_ok m \<Longrightarrow> hist_ok (push_history rid e m)"
  by (auto simp: hist_ok_def push_history_def bm_ok_insert bm_get_insert)

lemma hist_get: "hist_ok m \<Longrightarrow> bm_get m rid = (if hist m rid = [] then None else Some (hist m rid))"
  by (auto simp: hist_ok_def hist_def split: option.splits)

lemma hist_ext:
  assumes "hist_ok m" "hist_ok n" "hist m = hist n"
  shows "m = n"
proof -
  have "bm_get m rid = bm_get n rid" for rid
    using assms hist_get [of m rid] hist_get [of n rid] by simp
  then show ?thesis using assms(1,2) by (intro bm_ext) (auto simp: hist_ok_def)
qed

section \<open>Views\<close>

record catalog_view =
  vw_worlds :: "record_ref \<Rightarrow> world_definition recorded_entry list"
  vw_frames :: "record_ref \<Rightarrow> frame_definition recorded_entry list"
  vw_geometries :: "record_ref \<Rightarrow> geometry_version recorded_entry list"
  vw_observations :: "record_ref \<Rightarrow> position_observation recorded_entry option"
  vw_events :: "observation_key \<Rightarrow> record_ref option"

definition catalog_ok :: "spatial_catalog \<Rightarrow> bool" where
  "catalog_ok c \<longleftrightarrow> hist_ok (sc_worlds c) \<and> hist_ok (sc_frames c) \<and> hist_ok (sc_geometries c)
     \<and> bm_ok (sc_observations c) \<and> bm_ok (sc_source_events c)"

definition view :: "spatial_catalog \<Rightarrow> catalog_view" where
  "view c =
     \<lparr>vw_worlds = hist (sc_worlds c), vw_frames = hist (sc_frames c),
      vw_geometries = hist (sc_geometries c), vw_observations = bm_get (sc_observations c),
      vw_events = bm_get (sc_source_events c)\<rparr>"

definition prep_ok :: "catalog_preparation \<Rightarrow> bool" where
  "prep_ok p \<longleftrightarrow> catalog_ok (cp_base p) \<and> hist_ok (cp_worlds p) \<and> hist_ok (cp_frames p)
     \<and> hist_ok (cp_geometries p) \<and> bm_ok (cp_observations p) \<and> bm_ok (cp_source_events p)"

definition pview :: "catalog_preparation \<Rightarrow> catalog_view" where
  "pview p =
     \<lparr>vw_worlds = (\<lambda>rid. hist (sc_worlds (cp_base p)) rid
        @ map (HistoryEntry (cp_revision p)) (hist (cp_worlds p) rid)),
      vw_frames = (\<lambda>rid. hist (sc_frames (cp_base p)) rid
        @ map (HistoryEntry (cp_revision p)) (hist (cp_frames p) rid)),
      vw_geometries = (\<lambda>rid. hist (sc_geometries (cp_base p)) rid
        @ map (HistoryEntry (cp_revision p)) (hist (cp_geometries p) rid)),
      vw_observations = (\<lambda>rid. or_else
        (map_option (HistoryEntry (cp_revision p)) (bm_get (cp_observations p) rid))
        (bm_get (sc_observations (cp_base p)) rid)),
      vw_events = (\<lambda>k. or_else (bm_get (cp_source_events p) k) (bm_get (sc_source_events (cp_base p)) k))\<rparr>"

definition add_record :: "commit_revision \<Rightarrow> spatial_record \<Rightarrow> catalog_view \<Rightarrow> catalog_view" where
  "add_record revision r v =
     (case r of
        World w \<Rightarrow> v\<lparr>vw_worlds := (vw_worlds v)(wd_id w := vw_worlds v (wd_id w) @ [HistoryEntry revision w])\<rparr>
      | Frame f \<Rightarrow> v\<lparr>vw_frames := (vw_frames v)(fd_id f := vw_frames v (fd_id f) @ [HistoryEntry revision f])\<rparr>
      | GeometryRecord g \<Rightarrow>
          v\<lparr>vw_geometries := (vw_geometries v)(gv_id g := vw_geometries v (gv_id g) @ [HistoryEntry revision g])\<rparr>
      | Observation obs \<Rightarrow>
          v\<lparr>vw_observations := (vw_observations v)(po_id obs \<mapsto> HistoryEntry revision obs),
            vw_events := (vw_events v)(po_key obs \<mapsto> po_id obs)\<rparr>)"

lemma publish_record_view:
  assumes "catalog_ok c"
  shows "catalog_ok (publish_record revision r c)
    \<and> view (publish_record revision r c) = add_record revision r (view c)"
  using assms
  by (cases r) (simp_all add: catalog_ok_def view_def add_record_def publish_record_def hist_push hist_ok_push
      bm_ok_insert bm_get_insert)

lemma publish_records_view:
  "catalog_ok c \<Longrightarrow> catalog_ok (fold (publish_record revision) rs c)
    \<and> view (fold (publish_record revision) rs c) = fold (add_record revision) rs (view c)"
  by (induction rs arbitrary: c) (simp_all add: publish_record_view)

section \<open>Lookups of a preparation\<close>

definition vlatest :: "'a recorded_entry list \<Rightarrow> 'a option" where
  "vlatest h = map_option entry_value (vec_last h)"

definition vframe :: "catalog_view \<Rightarrow> versioned_ref \<Rightarrow> frame_definition option" where
  "vframe v reference =
     map_option entry_value
       (history_entry (Some (vw_frames v (vr_record reference))) (vr_version reference))"

definition vcategory :: "catalog_view \<Rightarrow> record_ref \<Rightarrow> category option" where
  "vcategory v rid =
     (if vw_worlds v rid \<noteq> [] then Some CatWorld
      else if vw_frames v rid \<noteq> [] then Some CatFrame
      else if vw_geometries v rid \<noteq> [] then Some CatGeometry
      else if vw_observations v rid \<noteq> None then Some CatObservation
      else None)"

definition numbered :: "('a \<Rightarrow> nat) \<Rightarrow> 'a recorded_entry list \<Rightarrow> bool" where
  "numbered version h \<longleftrightarrow> (\<forall>i < length h. version (entry_value (h ! i)) = Suc i)"

lemma latest_view:
  assumes "hist_ok staged" "hist_ok base"
  shows "latest staged base rid = vlatest (hist base rid @ map (HistoryEntry revision) (hist staged rid))"
  using assms by (auto simp: latest_def vlatest_def vec_last_def or_else_def hist_get [of staged] hist_get [of base]
      last_map)

lemma latest_pview:
  assumes "prep_ok p"
  shows "latest_world p rid = vlatest (vw_worlds (pview p) rid)"
    and "latest_frame p rid = vlatest (vw_frames (pview p) rid)"
    and "latest_geometry p rid = vlatest (vw_geometries (pview p) rid)"
  using assms by (simp_all add: latest_world_def latest_frame_def latest_geometry_def latest_view
      [where revision = "cp_revision p"] prep_ok_def catalog_ok_def pview_def)

lemma category_pview: "prep_ok p \<Longrightarrow> category_of p rid = vcategory (pview p) rid"
  by (auto simp: category_of_def vcategory_def pview_def prep_ok_def catalog_ok_def hist_get or_else_def
      split: option.splits)

lemma staged_observation_pview:
  "staged_observation p rid =
     map_option (\<lambda>e. (recorded_revision e, entry_value e)) (vw_observations (pview p) rid)"
  by (auto simp: staged_observation_def pview_def or_else_def split: option.splits)

lemma staged_source_event_pview: "staged_source_event p k = vw_events (pview p) k"
  by (simp add: staged_source_event_def pview_def)

text \<open>In a numbered history the search by version finds the entry at the index of the version.\<close>

lemma numbered_Nil [simp]: "numbered version []"
  by (simp add: numbered_def)

lemma numbered_append:
  "numbered version (a @ b) \<longleftrightarrow>
     numbered version a \<and> (\<forall>i < length b. version (entry_value (b ! i)) = Suc (length a + i))"
proof
  assume all: "numbered version (a @ b)"
  have "version (entry_value (b ! i)) = Suc (length a + i)" if "i < length b" for i
    using all that unfolding numbered_def by (elim allE [of _ "length a + i"]) simp
  moreover have "version (entry_value (a ! i)) = Suc i" if "i < length a" for i
    using all that unfolding numbered_def by (elim allE [of _ i]) (simp add: nth_append)
  ultimately show "numbered version a \<and> (\<forall>i < length b. version (entry_value (b ! i)) = Suc (length a + i))"
    by (simp add: numbered_def)
next
  assume "numbered version a \<and> (\<forall>i < length b. version (entry_value (b ! i)) = Suc (length a + i))"
  then show "numbered version (a @ b)"
    by (auto simp: numbered_def nth_append)
qed

lemma numbered_snoc: "numbered version (h @ [e]) \<longleftrightarrow> numbered version h \<and> version (entry_value e) = Suc (length h)"
  by (simp add: numbered_append)

lemma numbered_find:
  assumes "numbered version (a @ map (HistoryEntry revision) b)"
  shows "or_else (find (\<lambda>x. version x = n) b) (map_option entry_value (history_entry (Some a) n))
    = map_option entry_value (history_entry (Some (a @ map (HistoryEntry revision) b)) n)"
proof -
  have a: "numbered version a" and b: "\<And>i. i < length b \<Longrightarrow> version (b ! i) = Suc (length a + i)"
    using assms by (auto simp: numbered_append)
  show ?thesis
  proof (cases "length a < n \<and> n \<le> length a + length b")
    case True
    then obtain k where k: "n = Suc (length a + k)" "k < length b"
      by (metis Suc_le_eq add_Suc_right less_iff_Suc_add nat_add_left_cancel_less)
    have "find (\<lambda>x. version x = n) b = Some (b ! k)"
      using b k by (auto simp: find_Some_iff intro!: exI [of _ k])
    then show ?thesis using k by (simp add: or_else_def history_entry_def vec_get_def nth_append)
  next
    case False
    then have "find (\<lambda>x. version x = n) b = None"
      using b by (auto simp: find_None_iff in_set_conv_nth)
    then show ?thesis using False by (auto simp: or_else_def history_entry_def vec_get_def nth_append)
  qed
qed

lemma vlatest_numbered:
  assumes "numbered version h"
  shows "map_option version (vlatest h) = (if h = [] then None else Some (length h))"
  using assms by (auto simp: vlatest_def vec_last_def last_conv_nth numbered_def)

lemma staged_frame_pview:
  assumes "prep_ok p" "numbered fd_version (vw_frames (pview p) (vr_record reference))"
  shows "staged_frame_at p reference = ok_or (vframe (pview p) reference) SMissingFrameVersion"
proof -
  have "or_else (Option.bind (bm_get (cp_frames p) rid) (find P))
      (map_option entry_value (history_entry (bm_get (sc_frames (cp_base p)) rid) n))
    = or_else (find P (hist (cp_frames p) rid))
      (map_option entry_value (history_entry (Some (hist (sc_frames (cp_base p)) rid)) n))" for rid P n
    using assms(1)
    by (auto simp: prep_ok_def catalog_ok_def hist_get [of "cp_frames p"] hist_get [of "sc_frames (cp_base p)"]
        history_entry_def vec_get_def)
  then show ?thesis
    using assms(2) by (simp add: staged_frame_at_def vframe_def pview_def numbered_find)
qed

section \<open>Well-formed views\<close>

definition rising :: "'a recorded_entry list \<Rightarrow> bool" where
  "rising h \<longleftrightarrow> sorted (map (\<lambda>e. revision_get (recorded_revision e)) h)"

definition unchanging :: "('a \<Rightarrow> 'b) \<Rightarrow> 'a recorded_entry list \<Rightarrow> bool" where
  "unchanging f h \<longleftrightarrow> (\<forall>a \<in> set h. \<forall>b \<in> set h. f (entry_value a) = f (entry_value b))"

definition world_history :: "record_ref \<Rightarrow> world_definition recorded_entry list \<Rightarrow> bool" where
  "world_history rid h \<longleftrightarrow> numbered wd_version h \<and> rising h
     \<and> (\<forall>e \<in> set h. wd_id (entry_value e) = rid)
     \<and> unchanging (\<lambda>w. vr_record (wd_root_frame w)) h"

definition frame_history :: "record_ref \<Rightarrow> frame_definition recorded_entry list \<Rightarrow> bool" where
  "frame_history rid h \<longleftrightarrow> numbered fd_version h \<and> rising h
     \<and> (\<forall>e \<in> set h. fd_id (entry_value e) = rid)
     \<and> unchanging fd_world h \<and> unchanging fd_kind h"

definition predecessor_of :: "record_ref \<Rightarrow> nat \<Rightarrow> versioned_ref option" where
  "predecessor_of rid n = (if n = 0 then None else Some (VersionedRef rid n))"

definition geometry_history :: "record_ref \<Rightarrow> geometry_version recorded_entry list \<Rightarrow> bool" where
  "geometry_history rid h \<longleftrightarrow> numbered gv_version h \<and> rising h
     \<and> (\<forall>e \<in> set h. gv_id (entry_value e) = rid
          \<and> gv_predecessor (entry_value e) = predecessor_of rid (gv_version (entry_value e) - 1))"

definition one_category :: "catalog_view \<Rightarrow> record_ref \<Rightarrow> bool" where
  "one_category v rid \<longleftrightarrow>
     (vw_worlds v rid = [] \<or> vw_frames v rid = [] \<and> vw_geometries v rid = [] \<and> vw_observations v rid = None)
     \<and> (vw_frames v rid = [] \<or> vw_geometries v rid = [] \<and> vw_observations v rid = None)
     \<and> (vw_geometries v rid = [] \<or> vw_observations v rid = None)"

definition events_ok :: "catalog_view \<Rightarrow> bool" where
  "events_ok v \<longleftrightarrow>
     (\<forall>rid e. vw_observations v rid = Some e \<longrightarrow> po_id (entry_value e) = rid)
     \<and> (\<forall>k rid. vw_events v k = Some rid \<longleftrightarrow>
          (\<exists>e. vw_observations v rid = Some e \<and> po_key (entry_value e) = k))"

definition view_ok :: "catalog_view \<Rightarrow> bool" where
  "view_ok v \<longleftrightarrow>
     (\<forall>rid. world_history rid (vw_worlds v rid) \<and> frame_history rid (vw_frames v rid)
        \<and> geometry_history rid (vw_geometries v rid) \<and> one_category v rid)
     \<and> events_ok v"

definition stored :: "catalog_view \<Rightarrow> commit_revision \<Rightarrow> spatial_record \<Rightarrow> bool" where
  "stored v revision r =
     (case r of
        World w \<Rightarrow> HistoryEntry revision w \<in> set (vw_worlds v (wd_id w))
      | Frame f \<Rightarrow> HistoryEntry revision f \<in> set (vw_frames v (fd_id f))
      | GeometryRecord g \<Rightarrow> HistoryEntry revision g \<in> set (vw_geometries v (gv_id g))
      | Observation obs \<Rightarrow> vw_observations v (po_id obs) = Some (HistoryEntry revision obs))"

definition admissible :: "catalog_view \<Rightarrow> spatial_record \<Rightarrow> bool" where
  "admissible v r =
     (case r of
        World w \<Rightarrow> vcategory v (wd_id w) \<in> {None, Some CatWorld}
          \<and> wd_version w = Suc (length (vw_worlds v (wd_id w)))
          \<and> (\<forall>e \<in> set (vw_worlds v (wd_id w)).
               vr_record (wd_root_frame (entry_value e)) = vr_record (wd_root_frame w))
      | Frame f \<Rightarrow> vcategory v (fd_id f) \<in> {None, Some CatFrame}
          \<and> fd_version f = Suc (length (vw_frames v (fd_id f)))
          \<and> (\<forall>e \<in> set (vw_frames v (fd_id f)).
               fd_world (entry_value e) = fd_world f \<and> fd_kind (entry_value e) = fd_kind f)
      | GeometryRecord g \<Rightarrow> vcategory v (gv_id g) \<in> {None, Some CatGeometry}
          \<and> gv_version g = Suc (length (vw_geometries v (gv_id g)))
          \<and> gv_predecessor g = predecessor_of (gv_id g) (length (vw_geometries v (gv_id g)))
      | Observation obs \<Rightarrow> vcategory v (po_id obs) = None \<and> vw_events v (po_key obs) = None)"

lemma stored_add:
  assumes "admissible v r"
  shows "stored (add_record revision r v) revision' r' \<longleftrightarrow> revision' = revision \<and> r' = r \<or> stored v revision' r'"
proof (cases r)
  case (Observation obs)
  then have "vw_observations v (po_id obs) = None"
    using assms by (auto simp: admissible_def vcategory_def split: if_splits)
  then show ?thesis unfolding Observation
    by (cases r') (auto simp: add_record_def stored_def)
qed (cases r'; auto simp: add_record_def stored_def)+

lemma rising_snoc:
  "rising (h @ [e]) \<longleftrightarrow> rising h
     \<and> (\<forall>x \<in> set h. revision_get (recorded_revision x) \<le> revision_get (recorded_revision e))"
  by (auto simp: rising_def sorted_append)

lemma unchanging_snoc:
  "unchanging f (h @ [e]) \<longleftrightarrow> unchanging f h \<and> (\<forall>x \<in> set h. f (entry_value x) = f (entry_value e))"
  unfolding unchanging_def by (auto dest: sym)

lemma world_history_snoc:
  "world_history rid (h @ [HistoryEntry revision w]) \<longleftrightarrow> world_history rid h
     \<and> wd_version w = Suc (length h) \<and> wd_id w = rid
     \<and> (\<forall>x \<in> set h. revision_get (recorded_revision x) \<le> revision_get revision)
     \<and> (\<forall>x \<in> set h. vr_record (wd_root_frame (entry_value x)) = vr_record (wd_root_frame w))"
  unfolding world_history_def numbered_snoc rising_snoc unchanging_snoc by auto

lemma frame_history_snoc:
  "frame_history rid (h @ [HistoryEntry revision f]) \<longleftrightarrow> frame_history rid h
     \<and> fd_version f = Suc (length h) \<and> fd_id f = rid
     \<and> (\<forall>x \<in> set h. revision_get (recorded_revision x) \<le> revision_get revision)
     \<and> (\<forall>x \<in> set h. fd_world (entry_value x) = fd_world f \<and> fd_kind (entry_value x) = fd_kind f)"
  unfolding frame_history_def numbered_snoc rising_snoc unchanging_snoc by auto

lemma geometry_history_snoc:
  "geometry_history rid (h @ [HistoryEntry revision g]) \<longleftrightarrow> geometry_history rid h
     \<and> gv_version g = Suc (length h) \<and> gv_id g = rid
     \<and> (\<forall>x \<in> set h. revision_get (recorded_revision x) \<le> revision_get revision)
     \<and> gv_predecessor g = predecessor_of rid (length h)"
  unfolding geometry_history_def numbered_snoc rising_snoc by auto

lemma view_okD:
  assumes "view_ok v"
  shows "world_history rid (vw_worlds v rid)" "frame_history rid (vw_frames v rid)"
    and "geometry_history rid (vw_geometries v rid)" "one_category v rid" "events_ok v"
  using assms by (simp_all add: view_ok_def)

lemma stored_history:
  assumes "view_ok v"
  shows "w \<in> set (vw_worlds v rid) \<Longrightarrow> stored v (recorded_revision w) (World (entry_value w))"
    and "f \<in> set (vw_frames v rid) \<Longrightarrow> stored v (recorded_revision f) (Frame (entry_value f))"
    and "g \<in> set (vw_geometries v rid) \<Longrightarrow> stored v (recorded_revision g) (GeometryRecord (entry_value g))"
    and "vw_observations v rid = Some e \<Longrightarrow> stored v (recorded_revision e) (Observation (entry_value e))"
  using view_okD(1-4) [OF assms, of rid] view_okD(5) [OF assms]
  by (auto simp: stored_def world_history_def frame_history_def geometry_history_def events_ok_def)

lemma vcategory_free:
  assumes "view_ok v"
  shows "vcategory v rid \<in> {None, Some CatWorld} \<longleftrightarrow>
      vw_frames v rid = [] \<and> vw_geometries v rid = [] \<and> vw_observations v rid = None"
    and "vcategory v rid \<in> {None, Some CatFrame} \<longleftrightarrow>
      vw_worlds v rid = [] \<and> vw_geometries v rid = [] \<and> vw_observations v rid = None"
    and "vcategory v rid \<in> {None, Some CatGeometry} \<longleftrightarrow>
      vw_worlds v rid = [] \<and> vw_frames v rid = [] \<and> vw_observations v rid = None"
    and "vcategory v rid \<in> {None, Some CatObservation} \<longleftrightarrow>
      vw_worlds v rid = [] \<and> vw_frames v rid = [] \<and> vw_geometries v rid = []"
    and "vcategory v rid = None \<longleftrightarrow>
      vw_worlds v rid = [] \<and> vw_frames v rid = [] \<and> vw_geometries v rid = [] \<and> vw_observations v rid = None"
  using view_okD(4) [OF assms, of rid] by (auto simp: vcategory_def one_category_def)

lemma view_ok_add:
  assumes ok: "view_ok v" and adm: "admissible v r"
    and past: "\<And>r' x. stored v r' x \<Longrightarrow> revision_get r' \<le> revision_get revision"
  shows "view_ok (add_record revision r v)"
proof (cases r)
  case (World w)
  have "world_history (wd_id w) (vw_worlds v (wd_id w) @ [HistoryEntry revision w])"
    using view_okD(1) [OF ok, of "wd_id w"] adm past [OF stored_history(1) [OF ok]] unfolding World
    by (simp add: world_history_snoc admissible_def)
  moreover have "vw_frames v (wd_id w) = [] \<and> vw_geometries v (wd_id w) = [] \<and> vw_observations v (wd_id w) = None"
    using adm vcategory_free(1) [OF ok] unfolding World by (simp add: admissible_def)
  ultimately show ?thesis
    using ok unfolding World by (simp add: view_ok_def add_record_def one_category_def events_ok_def)
next
  case (Frame f)
  have "frame_history (fd_id f) (vw_frames v (fd_id f) @ [HistoryEntry revision f])"
    using view_okD(2) [OF ok, of "fd_id f"] adm past [OF stored_history(2) [OF ok]] unfolding Frame
    by (simp add: frame_history_snoc admissible_def)
  moreover have "vw_worlds v (fd_id f) = [] \<and> vw_geometries v (fd_id f) = [] \<and> vw_observations v (fd_id f) = None"
    using adm vcategory_free(2) [OF ok] unfolding Frame by (simp add: admissible_def)
  ultimately show ?thesis
    using ok unfolding Frame by (simp add: view_ok_def add_record_def one_category_def events_ok_def)
next
  case (GeometryRecord g)
  have "geometry_history (gv_id g) (vw_geometries v (gv_id g) @ [HistoryEntry revision g])"
    using view_okD(3) [OF ok, of "gv_id g"] adm past [OF stored_history(3) [OF ok]] unfolding GeometryRecord
    by (simp add: geometry_history_snoc admissible_def)
  moreover have "vw_worlds v (gv_id g) = [] \<and> vw_frames v (gv_id g) = [] \<and> vw_observations v (gv_id g) = None"
    using adm vcategory_free(3) [OF ok] unfolding GeometryRecord by (simp add: admissible_def)
  ultimately show ?thesis
    using ok unfolding GeometryRecord by (simp add: view_ok_def add_record_def one_category_def events_ok_def)
next
  case (Observation obs)
  have new: "vw_worlds v (po_id obs) = [] \<and> vw_frames v (po_id obs) = [] \<and> vw_geometries v (po_id obs) = []"
      "vw_observations v (po_id obs) = None" "vw_events v (po_key obs) = None"
    using adm vcategory_free(5) [OF ok] unfolding Observation by (simp_all add: admissible_def)
  have "po_key (entry_value e) \<noteq> po_key obs" if "vw_observations v rid = Some e" for rid e
    using view_okD(5) [OF ok] that new(3) unfolding events_ok_def by (metis option.distinct(1))
  then have "events_ok (add_record revision r v)"
    using view_okD(5) [OF ok] new unfolding Observation
    by (auto simp: events_ok_def add_record_def)
  then show ?thesis
    using ok new(1) unfolding Observation by (simp add: view_ok_def add_record_def one_category_def)
qed

section \<open>Staging refines the abstract step\<close>

lemma check_next_view:
  assumes "numbered version h"
  shows "check_next_value (map_option version (vlatest h)) n = Inr () \<longleftrightarrow> n = Suc (length h) \<and> length h < usize_max"
proof -
  have "0 < usize_max" by (simp add: usize_max_def)
  then show ?thesis by (simp add: check_next_value_iff vlatest_numbered [OF assms])
qed

lemma vlatest_unchanging:
  assumes "unchanging f h"
  shows "(case vlatest h of None \<Rightarrow> True | Some x \<Rightarrow> f x = y) \<longleftrightarrow> (\<forall>e \<in> set h. f (entry_value e) = y)"
proof (cases "h = []")
  case False
  then have "last h \<in> set h" by simp
  with assms have all: "\<forall>e \<in> set h. f (entry_value e) = f (entry_value (last h))"
    unfolding unchanging_def by blast
  have "(\<forall>e \<in> set h. f (entry_value e) = y) \<longleftrightarrow> f (entry_value (last h)) = y"
    using all \<open>last h \<in> set h\<close> by metis
  then show ?thesis using False by (simp add: vlatest_def vec_last_def)
qed (simp add: vlatest_def vec_last_def)

definition room :: "catalog_view \<Rightarrow> spatial_record \<Rightarrow> bool" where
  "room v r =
     (case r of
        World w \<Rightarrow> length (vw_worlds v (wd_id w)) < usize_max
      | Frame f \<Rightarrow> length (vw_frames v (fd_id f)) < usize_max
      | GeometryRecord g \<Rightarrow> length (vw_geometries v (gv_id g)) < usize_max
      | Observation obs \<Rightarrow> True)"

definition push_staged :: "spatial_record \<Rightarrow> catalog_preparation \<Rightarrow> catalog_preparation" where
  "push_staged r p =
     (case r of
        World w \<Rightarrow> p\<lparr>cp_worlds := push_history (wd_id w) w (cp_worlds p)\<rparr>
      | Frame f \<Rightarrow> p\<lparr>cp_frames := push_history (fd_id f) f (cp_frames p)\<rparr>
      | GeometryRecord g \<Rightarrow> p\<lparr>cp_geometries := push_history (gv_id g) g (cp_geometries p)\<rparr>
      | Observation obs \<Rightarrow>
          p\<lparr>cp_observations := bm_insert (po_id obs) obs (cp_observations p),
            cp_source_events := bm_insert (po_key obs) (po_id obs) (cp_source_events p),
            cp_outcomes := cp_outcomes p @ [Inserted (po_id obs)]\<rparr>)"

lemma push_staged_view:
  assumes "prep_ok p"
  shows "prep_ok (push_staged r p) \<and> pview (push_staged r p) = add_record (cp_revision p) r (pview p)"
  using assms
  by (cases r) (simp_all add: push_staged_def prep_ok_def pview_def add_record_def hist_push hist_ok_push
      bm_ok_insert bm_get_insert fun_eq_iff or_else_def)

lemma charge_view:
  assumes "charge H reserve index r p = Inr q"
  shows "prep_ok q \<longleftrightarrow> prep_ok p" "pview q = pview p"
  using assms by (simp_all add: prep_ok_def pview_def charge_keeps)

lemma stage_observation_view:
  assumes "view_ok (pview p)"
  shows "stage_observation H reserve index obs p = Inr p' \<longleftrightarrow>
     category_of p (po_id obs) \<in> {None, Some CatObservation}
     \<and> (case staged_observation p (po_id obs) of
          Some (r, existing) \<Rightarrow> existing = obs \<and> p' = stage_duplicate (po_id obs) r p
        | None \<Rightarrow> staged_source_event p (po_key obs) = None
            \<and> (\<exists>q. charge H reserve index (Observation obs) p = Inr q \<and> p' = push_staged (Observation obs) q))"
  unfolding push_staged_def spatial_record.case using view_okD(5) [OF assms]
  by (intro stage_observation_iff) (auto simp: staged_observation_pview staged_source_event_pview events_ok_def)

text \<open>Staging a record that is not a retry: exactly the admissible ones that fit.\<close>

lemma stage_new_iff:
  assumes p: "prep_ok p" and v: "view_ok (pview p)"
    and new: "\<And>obs. r = Observation obs \<Longrightarrow> vw_observations (pview p) (po_id obs) = None"
  shows "stage H reserve index r p = Inr p' \<longleftrightarrow>
     admissible (pview p) r \<and> room (pview p) r \<and> (is_observation r \<or> reserve 1)
     \<and> (\<exists>q. charge H reserve index r p = Inr q \<and> p' = push_staged r q)"
proof (cases r)
  case (World w)
  have "numbered wd_version (vw_worlds (pview p) (wd_id w))"
      "unchanging (\<lambda>w. vr_record (wd_root_frame w)) (vw_worlds (pview p) (wd_id w))"
    using view_okD(1) [OF v, of "wd_id w"] by (simp_all add: world_history_def)
  then show ?thesis
    using p by (auto simp: World stage_def stage_world_iff latest_pview category_pview check_next_view
        vlatest_unchanging admissible_def room_def is_observation_def push_staged_def)
next
  case (Frame f)
  have num: "numbered fd_version (vw_frames (pview p) (fd_id f))"
    and same: "unchanging fd_world (vw_frames (pview p) (fd_id f))" "unchanging fd_kind (vw_frames (pview p) (fd_id f))"
    using view_okD(2) [OF v, of "fd_id f"] by (simp_all add: frame_history_def)
  have "(case vlatest (vw_frames (pview p) (fd_id f)) of None \<Rightarrow> True
         | Some previous \<Rightarrow> fd_world previous = fd_world f \<and> fd_kind previous = fd_kind f)
      \<longleftrightarrow> (\<forall>e \<in> set (vw_frames (pview p) (fd_id f)). fd_world (entry_value e) = fd_world f \<and> fd_kind (entry_value e) = fd_kind f)"
    using vlatest_unchanging [OF same(1), of "fd_world f"] vlatest_unchanging [OF same(2), of "fd_kind f"]
    by (auto split: option.splits)
  then show ?thesis
    using p num by (auto simp: Frame stage_def stage_frame_iff latest_pview category_pview check_next_view
        admissible_def room_def is_observation_def push_staged_def)
next
  case (GeometryRecord g)
  have num: "numbered gv_version (vw_geometries (pview p) (gv_id g))"
    using view_okD(3) [OF v, of "gv_id g"] by (simp add: geometry_history_def)
  have "(case vlatest (vw_geometries (pview p) (gv_id g)) of
          None \<Rightarrow> gv_predecessor g = None
        | Some previous \<Rightarrow> gv_predecessor g = Some (VersionedRef (gv_id g) (gv_version previous)))
      \<longleftrightarrow> gv_predecessor g = predecessor_of (gv_id g) (length (vw_geometries (pview p) (gv_id g)))"
    using vlatest_numbered [OF num] by (auto simp: predecessor_of_def split: option.splits if_splits)
  then show ?thesis
    using p num by (auto simp: GeometryRecord stage_def stage_geometry_iff latest_pview category_pview
        check_next_view admissible_def room_def is_observation_def push_staged_def)
next
  case (Observation obs)
  have "vcategory (pview p) (po_id obs) \<in> {None, Some CatObservation} \<longleftrightarrow> vcategory (pview p) (po_id obs) = None"
    using vcategory_free(4,5) [OF v, of "po_id obs"] new [OF Observation] by simp
  then show ?thesis
    using p new [OF Observation]
    by (simp add: Observation stage_def stage_observation_view [OF v] staged_observation_pview
        staged_source_event_pview category_pview admissible_def room_def is_observation_def)
qed

text \<open>A retry of a known observation changes nothing but the outcomes.\<close>

lemma stage_retry_iff:
  assumes p: "prep_ok p" and v: "view_ok (pview p)" and known: "vw_observations (pview p) (po_id obs) = Some e"
  shows "stage H reserve index (Observation obs) p = Inr p' \<longleftrightarrow>
     entry_value e = obs \<and> p' = stage_duplicate (po_id obs) (recorded_revision e) p"
proof -
  have "vcategory (pview p) (po_id obs) \<in> {None, Some CatObservation}"
    using view_okD(4) [OF v, of "po_id obs"] known vcategory_free(4) [OF v] by (auto simp: one_category_def)
  then show ?thesis
    using p known
    by (simp add: stage_def stage_observation_view [OF v] staged_observation_pview
        category_pview)
qed

lemma stage_duplicate_view:
  "prep_ok (stage_duplicate rid r p) = prep_ok p" "pview (stage_duplicate rid r p) = pview p"
  by (simp_all add: stage_duplicate_def prep_ok_def pview_def)

lemma stage_cases:
  assumes p: "prep_ok p" and v: "view_ok (pview p)" and st: "stage H reserve index r p = Inr p'"
  obtains (new) q where "admissible (pview p) r" "charge H reserve index r p = Inr q" "p' = push_staged r q"
  | (retry) revision where "stored (pview p) revision r" "p' = stage_duplicate (record_id r) revision p"
proof (cases "\<exists>obs e. r = Observation obs \<and> vw_observations (pview p) (po_id obs) = Some e")
  case True
  then obtain obs e where r: "r = Observation obs" and e: "vw_observations (pview p) (po_id obs) = Some e"
    by blast
  show ?thesis
    using retry [of "recorded_revision e"] st stage_retry_iff [OF p v e] e unfolding r by (auto simp: stored_def)
next
  case False
  then have "vw_observations (pview p) (po_id obs) = None" if "r = Observation obs" for obs
    using that by auto
  then show ?thesis using new st stage_new_iff [OF p v] by blast
qed

section \<open>Staging a whole batch\<close>

text \<open>The bytes a stored record is charged for, and what each one adds to the anchor.\<close>

definition record_bytes :: "spatial_record \<Rightarrow> bytes" where
  "record_bytes r = projr (encode_record granting r)"

definition record_weight :: "spatial_record \<Rightarrow> nat" where
  "record_weight r = 12 + length (record_bytes r)"

definition anchor_step :: "(bytes \<Rightarrow> bytes) \<Rightarrow> commit_revision \<times> spatial_record \<Rightarrow> bytes \<Rightarrow> bytes" where
  "anchor_step H e anchor = xor_anchor anchor (entry_anchor H (fst e) (record_bytes (snd e)))"

fun admits :: "commit_revision \<Rightarrow> catalog_view \<Rightarrow> spatial_record list \<Rightarrow> bool" where
  "admits revision v [] \<longleftrightarrow> True"
| "admits revision v (r # rs) \<longleftrightarrow> admissible v r \<and> admits revision (add_record revision r v) rs"

lemma admits_stored:
  "admits revision v rs \<Longrightarrow>
     stored (fold (add_record revision) rs v) revision' x \<longleftrightarrow> revision' = revision \<and> x \<in> set rs \<or> stored v revision' x"
  by (induction rs arbitrary: v) (auto simp: stored_add)

lemma admits_view_ok:
  assumes "admits revision v rs" "view_ok v"
    and "\<And>r' x. stored v r' x \<Longrightarrow> revision_get r' \<le> revision_get revision"
  shows "view_ok (fold (add_record revision) rs v)"
  using assms
proof (induction rs arbitrary: v)
  case (Cons r rs)
  have "revision_get r' \<le> revision_get revision" if "stored (add_record revision r v) r' x" for r' x
    using that Cons.prems by (auto simp: stored_add)
  then show ?case using Cons by (simp add: view_ok_add)
qed simp

lemma charge_granting:
  assumes "charge H reserve index r p = Inr q"
  shows "encode_record granting r = Inr (record_bytes r)"
    and "cp_new_logical_bytes q = cp_new_logical_bytes p + record_weight r"
    and "cp_resulting_content_anchor q = anchor_step H (cp_revision p, r) (cp_resulting_content_anchor p)"
    and "sc_entry_count (cp_base p) + length (cp_inserted_indices q) \<le> MAX_SPATIAL_CATALOG_ENTRIES"
    and "sc_logical_bytes (cp_base p) + cp_new_logical_bytes q \<le> MAX_SPATIAL_CATALOG_LOGICAL_BYTES"
proof -
  obtain bs where bs: "encode_record reserve r = Inr bs"
    using assms by (auto simp: charge_iff)
  then show enc: "encode_record granting r = Inr (record_bytes r)"
    using limited_encode_record [of reserve r] by (simp add: limited_def record_bytes_def) (metis sum.sel(2))
  then have "bs = record_bytes r"
    using limited_encode_record [of reserve r] bs by (auto simp: limited_def)
  then show "cp_new_logical_bytes q = cp_new_logical_bytes p + record_weight r"
    and "cp_resulting_content_anchor q = anchor_step H (cp_revision p, r) (cp_resulting_content_anchor p)"
    and "sc_entry_count (cp_base p) + length (cp_inserted_indices q) \<le> MAX_SPATIAL_CATALOG_ENTRIES"
    and "sc_logical_bytes (cp_base p) + cp_new_logical_bytes q \<le> MAX_SPATIAL_CATALOG_LOGICAL_BYTES"
    using assms bs by (auto simp: charge_iff record_weight_def anchor_step_def add_ac)
qed

lemma push_staged_books [simp]:
  "cp_base (push_staged r q) = cp_base q" "cp_revision (push_staged r q) = cp_revision q"
  "cp_inserted_indices (push_staged r q) = cp_inserted_indices q"
  "cp_new_logical_bytes (push_staged r q) = cp_new_logical_bytes q"
  "cp_resulting_content_anchor (push_staged r q) = cp_resulting_content_anchor q"
  by (cases r; simp add: push_staged_def)+

lemma stage_duplicate_books [simp]:
  "cp_base (stage_duplicate rid r q) = cp_base q" "cp_revision (stage_duplicate rid r q) = cp_revision q"
  "cp_inserted_indices (stage_duplicate rid r q) = cp_inserted_indices q"
  "cp_new_logical_bytes (stage_duplicate rid r q) = cp_new_logical_bytes q"
  "cp_resulting_content_anchor (stage_duplicate rid r q) = cp_resulting_content_anchor q"
  by (simp_all add: stage_duplicate_def)

definition within_limits :: "catalog_preparation \<Rightarrow> bool" where
  "within_limits p \<longleftrightarrow>
     sc_entry_count (cp_base p) + length (cp_inserted_indices p) \<le> MAX_SPATIAL_CATALOG_ENTRIES
     \<and> sc_logical_bytes (cp_base p) + cp_new_logical_bytes p \<le> MAX_SPATIAL_CATALOG_LOGICAL_BYTES"

text \<open>\<open>p\<close> becomes \<open>q\<close> by staging the new records \<open>ins\<close>.\<close>

definition staged_as ::
  "(bytes \<Rightarrow> bytes) \<Rightarrow> catalog_preparation \<Rightarrow> spatial_record list \<Rightarrow> catalog_preparation \<Rightarrow> bool" where
  "staged_as H p ins q \<longleftrightarrow>
     cp_base q = cp_base p \<and> cp_revision q = cp_revision p
     \<and> prep_ok q \<and> view_ok (pview q) \<and> within_limits q
     \<and> (\<forall>r x. stored (pview q) r x \<longrightarrow> revision_get r \<le> revision_get (cp_revision p))
     \<and> admits (cp_revision p) (pview p) ins
     \<and> pview q = fold (add_record (cp_revision p)) ins (pview p)
     \<and> (\<forall>r \<in> set ins. encode_record granting r = Inr (record_bytes r))
     \<and> cp_new_logical_bytes q = cp_new_logical_bytes p + sum_list (map record_weight ins)
     \<and> cp_resulting_content_anchor q
         = fold (\<lambda>r. anchor_step H (cp_revision p, r)) ins (cp_resulting_content_anchor p)"

lemma admits_append:
  "admits revision v (a @ b) \<longleftrightarrow> admits revision v a \<and> admits revision (fold (add_record revision) a v) b"
  by (induction a arbitrary: v) auto

lemma staged_as_append:
  "staged_as H p a q \<Longrightarrow> staged_as H q b t \<Longrightarrow> staged_as H p (a @ b) t"
  unfolding staged_as_def by (auto simp: admits_append)

lemma staged_as_stage:
  assumes "stage H reserve index r p = Inr q" and p: "staged_as H p [] p"
  obtains "staged_as H p [r] q" "cp_inserted_indices q = cp_inserted_indices p @ [index]"
      "stored (pview q) (cp_revision p) r"
  | revision where "staged_as H p [] q" "cp_inserted_indices q = cp_inserted_indices p"
      "stored (pview q) revision r"
proof -
  have ok: "prep_ok p" "view_ok (pview p)"
    and past: "\<And>r x. stored (pview p) r x \<Longrightarrow> revision_get r \<le> revision_get (cp_revision p)"
    using p by (auto simp: staged_as_def)
  show thesis
  proof (rule stage_cases [OF ok assms(1)])
    fix c
    assume adm: "admissible (pview p) r" and c: "charge H reserve index r p = Inr c" and q: "q = push_staged r c"
    have v: "prep_ok q" "pview q = add_record (cp_revision p) r (pview p)"
      using push_staged_view [of c r] charge_view [OF c] charge_keeps [OF c] ok q by auto
    moreover have "within_limits q"
      using charge_granting(4,5) [OF c] charge_keeps [OF c] by (simp add: within_limits_def q)
    moreover have "revision_get r' \<le> revision_get (cp_revision p)" if "stored (pview q) r' x" for r' x
      using that past by (auto simp: v stored_add [OF adm])
    moreover have "view_ok (pview q)" using past by (simp add: v view_ok_add [OF ok(2) adm])
    ultimately have "staged_as H p [r] q"
      using adm charge_keeps [OF c] charge_granting [OF c] by (auto simp: staged_as_def q)
    then show thesis
      using that(1) charge_keeps [OF c] by (simp add: q v [unfolded q] stored_add [OF adm])
  next
    fix revision
    assume "stored (pview p) revision r" and q: "q = stage_duplicate (record_id r) revision p"
    moreover have "staged_as H p [] q"
      using p by (simp add: q staged_as_def within_limits_def stage_duplicate_view)
    ultimately show thesis using that(2) by (simp add: stage_duplicate_view)
  qed
qed

lemma staged_as_stored:
  assumes "staged_as H p ins q" "stored (pview p) r x"
  shows "stored (pview q) r x"
  using assms admits_stored [of "cp_revision p" "pview p" ins] by (simp add: staged_as_def)

lemma staged_as_self: "staged_as H p ins q \<Longrightarrow> staged_as H q [] q"
  unfolding staged_as_def by auto

lemma stage_all_view:
  assumes "stage_all H reserve n rs p = Inr q" "staged_as H p [] p" "\<And>i. i < length rs \<Longrightarrow> full ! (n + i) = rs ! i"
  shows "\<exists>js. cp_inserted_indices q = cp_inserted_indices p @ js \<and> length js \<le> length rs
    \<and> staged_as H p (map ((!) full) js) q \<and> (\<forall>r \<in> set rs. \<exists>revision. stored (pview q) revision r)"
  using assms
proof (induction rs arbitrary: n p)
  case (Cons r rs)
  obtain p' where p': "stage H reserve n r p = Inr p'" and q: "stage_all H reserve (Suc n) rs p' = Inr q"
    using Cons.prems(1) by (auto simp: rbind_iffs)
  have r: "full ! n = r" using Cons.prems(3) [of 0] by simp
  have full: "full ! (Suc n + i) = rs ! i" if "i < length rs" for i
    using Cons.prems(3) [of "Suc i"] that by simp
  have IH: "\<exists>js. cp_inserted_indices q = cp_inserted_indices p' @ js \<and> length js \<le> length rs
      \<and> staged_as H p' (map ((!) full) js) q \<and> (\<forall>r \<in> set rs. \<exists>revision. stored (pview q) revision r)"
    if "staged_as H p ins p'" for ins
    using Cons.IH [OF q staged_as_self [OF that] full] .
  from p' Cons.prems(2) show ?case
  proof (cases rule: staged_as_stage)
    case 1
    then obtain js where js: "cp_inserted_indices q = cp_inserted_indices p' @ js" "length js \<le> length rs"
        "staged_as H p' (map ((!) full) js) q" "\<forall>r \<in> set rs. \<exists>revision. stored (pview q) revision r"
      using IH by blast
    then show ?thesis
      using staged_as_append [OF 1(1) js(3)] staged_as_stored [OF js(3) 1(3)]
      by (intro exI [of _ "n # js"]) (auto simp: r 1(2))
  next
    case (2 revision)
    then obtain js where js: "cp_inserted_indices q = cp_inserted_indices p' @ js" "length js \<le> length rs"
        "staged_as H p' (map ((!) full) js) q" "\<forall>r \<in> set rs. \<exists>revision. stored (pview q) revision r"
      using IH by blast
    then show ?thesis
      using staged_as_append [OF 2(1) js(3)] staged_as_stored [OF js(3) 2(3)]
      by (intro exI [of _ js]) (auto simp: 2(2))
  qed
qed simp

end
