(* ===== verification/Catalog_Valid.thy ===== *)
theory Catalog_Valid
  imports Catalog_View
begin

text \<open>
  The validation of a batch as a predicate on the view of the whole batch, and the view of a
  catalog as it was known at a revision.  Validity is kept by every extension of the view, so what
  was checked when a record was admitted holds for every later reader.
\<close>

section \<open>Validity of a record in a view\<close>

fun rooted :: "nat \<Rightarrow> catalog_view \<Rightarrow> record_ref \<Rightarrow> record_ref \<Rightarrow> record_ref set \<Rightarrow> frame_parent \<Rightarrow> bool" where
  "rooted 0 v world root seen parent \<longleftrightarrow> False"
| "rooted (Suc n) v world root seen parent \<longleftrightarrow>
     vr_record (fp_frame parent) \<notin> seen
     \<and> (case vframe v (fp_frame parent) of
          None \<Rightarrow> False
        | Some next \<Rightarrow> fd_world next = world
            \<and> (case fd_parent next of
                 Some next_parent \<Rightarrow>
                   rooted n v world root (insert (vr_record (fp_frame parent)) seen) next_parent
               | None \<Rightarrow> fd_id next = root))"

definition frame_valid :: "catalog_view \<Rightarrow> frame_definition \<Rightarrow> bool" where
  "frame_valid v f \<longleftrightarrow>
     (\<exists>w. vlatest (vw_worlds v (fd_world f)) = Some w
       \<and> (if vr_record (wd_root_frame w) = fd_id f then fd_parent f = None
          else \<exists>parent. fd_parent f = Some parent
            \<and> rooted MAX_FRAME_DEPTH v (fd_world f) (vr_record (wd_root_frame w)) {fd_id f} parent))"

definition record_valid :: "catalog_view \<Rightarrow> commit_revision \<Rightarrow> spatial_record \<Rightarrow> bool" where
  "record_valid v revision r =
     (case r of
        World w \<Rightarrow>
          (\<exists>root. vframe v (wd_root_frame w) = Some root \<and> fd_world root = wd_id w \<and> fd_parent root = None)
      | Frame f \<Rightarrow> frame_valid v f
      | GeometryRecord g \<Rightarrow>
          vw_worlds v (gv_world g) \<noteq> []
          \<and> (\<exists>f. vframe v (gv_frame g) = Some f \<and> fd_world f = gv_world g
               \<and> accepts_geometry (fd_kind f) (gv_geometry g))
      | Observation obs \<Rightarrow>
          vw_worlds v (po_world obs) \<noteq> []
          \<and> (\<exists>f. vframe v (po_frame obs) = Some f \<and> fd_world f = po_world obs
               \<and> profile_accepts (fd_profile f) (po_position obs))
          \<and> (case po_correction_of obs of
               None \<Rightarrow> True
             | Some previous \<Rightarrow> \<exists>e. vw_observations v previous = Some e
                 \<and> revision_get (recorded_revision e) < revision_get revision
                 \<and> po_entity (entry_value e) = po_entity obs \<and> po_world (entry_value e) = po_world obs))"

lemma frame_walk_rooted:
  assumes p: "prep_ok p" "view_ok (pview p)"
  shows "frame_walk p world root seen level parent = Some (Inr ()) \<longleftrightarrow>
    rooted (MAX_FRAME_DEPTH - level) (pview p) world root seen parent"
proof (induction "MAX_FRAME_DEPTH - level" arbitrary: seen level parent)
  case 0
  then have "MAX_FRAME_DEPTH < level + 1" by simp
  then show ?case using 0 by (subst frame_walk.simps) (auto split: option.splits)
next
  case (Suc n)
  have level: "level + 1 \<le> MAX_FRAME_DEPTH" "n = MAX_FRAME_DEPTH - (level + 1)" using Suc.hyps(2) by simp_all
  have "MAX_FRAME_DEPTH \<le> usize_max" by (simp add: MAX_FRAME_DEPTH_def usize_max_def)
  with level have add: "level + 1 \<le> usize_max" by simp
  have "numbered fd_version (vw_frames (pview p) (vr_record (fp_frame parent)))"
    using view_okD(2) [OF p(2)] by (simp add: frame_history_def)
  note frame = staged_frame_pview [OF p(1) this]
  show ?case
    unfolding Suc.hyps(2) [symmetric] rooted.simps
    using level add Suc.hyps(1) [of "level + 1"]
    by (subst frame_walk.simps) (auto simp: frame split: option.splits)
qed

lemma validate_record_view:
  assumes p: "prep_ok p" "view_ok (pview p)"
  shows "validate_record p revision r = Some (Inr ()) \<longleftrightarrow> record_valid (pview p) revision r"
proof -
  have "numbered fd_version (vw_frames (pview p) rid)" for rid
    using view_okD(2) [OF p(2)] by (simp add: frame_history_def)
  then have frame: "staged_frame_at p reference = ok_or (vframe (pview p) reference) SMissingFrameVersion"
    for reference using staged_frame_pview [OF p(1)] by simp
  have world: "world_visible p rid = ok_or (vlatest (vw_worlds (pview p) rid)) SMissingWorld" for rid
    using latest_pview(1) [OF p(1)] by (simp add: world_visible_def)
  have some: "h \<noteq> [] \<longleftrightarrow> (\<exists>x. vlatest h = Some x)" for h :: "world_definition recorded_entry list"
    by (auto simp: vlatest_def vec_last_def)
  show ?thesis
  proof (cases r)
    case (World w)
    then show ?thesis by (auto simp: validate_record_def record_valid_def frame rbind_iffs)
  next
    case (Frame f)
    then show ?thesis
      by (auto simp: validate_record_def record_valid_def validate_frame_def frame_valid_def world
          obind_eq_Inr frame_walk_rooted [OF p])
  next
    case (GeometryRecord g)
    then show ?thesis
      by (auto simp: validate_record_def record_valid_def frame world rbind_iffs some)
  next
    case (Observation obs)
    then show ?thesis
      by (auto simp: validate_record_def record_valid_def frame world rbind_iffs some
          staged_observation_pview split: option.splits)
  qed
qed

lemma validate_records_view:
  assumes p: "prep_ok p" "view_ok (pview p)"
  shows "validate_records p revision rs = Some (Inr ()) \<longleftrightarrow> (\<forall>r \<in> set rs. record_valid (pview p) revision r)"
  by (induction rs) (auto simp: obind_eq_Inr validate_record_view [OF p])

section \<open>Extension keeps validity\<close>

definition extends :: "catalog_view \<Rightarrow> catalog_view \<Rightarrow> bool" where
  "extends v v' \<longleftrightarrow>
     (\<forall>rid. (\<exists>t. vw_worlds v' rid = vw_worlds v rid @ t) \<and> (\<exists>t. vw_frames v' rid = vw_frames v rid @ t)
        \<and> (\<exists>t. vw_geometries v' rid = vw_geometries v rid @ t))
     \<and> vw_observations v \<subseteq>\<^sub>m vw_observations v'"

lemma history_entry_append:
  "history_entry (Some h) n = Some e \<Longrightarrow> history_entry (Some (h @ t)) n = Some e"
  by (auto simp: history_entry_def vec_get_def nth_append split: if_splits)

lemma vframe_extends:
  assumes "extends v v'" "vframe v reference = Some f"
  shows "vframe v' reference = Some f"
proof -
  obtain t where "vw_frames v' (vr_record reference) = vw_frames v (vr_record reference) @ t"
    using assms(1) by (auto simp: extends_def)
  moreover obtain e where "history_entry (Some (vw_frames v (vr_record reference))) (vr_version reference) = Some e"
      "entry_value e = f"
    using assms(2) by (auto simp: vframe_def)
  ultimately show ?thesis by (simp add: vframe_def history_entry_append)
qed

lemma rooted_extends:
  assumes "extends v v'"
  shows "rooted n v world root seen parent \<Longrightarrow> rooted n v' world root seen parent"
proof (induction n arbitrary: seen parent)
  case (Suc n)
  then show ?case
    by (auto dest: vframe_extends [OF assms] split: option.splits)
qed simp

lemma world_root_extends:
  assumes "extends v v'" "view_ok v'" "vlatest (vw_worlds v rid) = Some w"
  obtains w' where "vlatest (vw_worlds v' rid) = Some w'" "vr_record (wd_root_frame w') = vr_record (wd_root_frame w)"
proof -
  obtain t where t: "vw_worlds v' rid = vw_worlds v rid @ t" using assms(1) by (auto simp: extends_def)
  have some: "vw_worlds v rid \<noteq> []" "w = entry_value (last (vw_worlds v rid))"
    using assms(3) by (auto simp: vlatest_def vec_last_def split: if_splits)
  then have "last (vw_worlds v rid) \<in> set (vw_worlds v' rid)" "last (vw_worlds v' rid) \<in> set (vw_worlds v' rid)"
    by (simp add: t) (rule last_in_set, simp add: t some)
  moreover have "unchanging (\<lambda>w. vr_record (wd_root_frame w)) (vw_worlds v' rid)"
    using view_okD(1) [OF assms(2)] by (simp add: world_history_def)
  ultimately have "vr_record (wd_root_frame (entry_value (last (vw_worlds v' rid)))) = vr_record (wd_root_frame w)"
    unfolding unchanging_def some(2) by blast
  then show thesis
    using that [of "entry_value (last (vw_worlds v' rid))"] some(1) by (simp add: vlatest_def vec_last_def t)
qed

lemma record_valid_extends:
  assumes ext: "extends v v'" and ok: "view_ok v'" and valid: "record_valid v revision r"
  shows "record_valid v' revision r"
proof -
  have worlds: "vw_worlds v' rid \<noteq> []" if "vw_worlds v rid \<noteq> []" for rid
    using that ext by (auto simp: extends_def) (metis Nil_is_append_conv)
  show ?thesis
  proof (cases r)
    case (World w)
    then show ?thesis using valid vframe_extends [OF ext] by (auto simp: record_valid_def)
  next
    case (Frame f)
    then obtain w where w: "vlatest (vw_worlds v (fd_world f)) = Some w"
      using valid by (auto simp: record_valid_def frame_valid_def)
    obtain w' where "vlatest (vw_worlds v' (fd_world f)) = Some w'"
        "vr_record (wd_root_frame w') = vr_record (wd_root_frame w)"
      by (rule world_root_extends [OF ext ok w])
    then show ?thesis
      using Frame w valid rooted_extends [OF ext]
      by (auto simp: record_valid_def frame_valid_def split: if_splits)
  next
    case (GeometryRecord g)
    then show ?thesis using valid worlds vframe_extends [OF ext] by (auto simp: record_valid_def)
  next
    case (Observation obs)
    have "vw_observations v' rid = Some e" if "vw_observations v rid = Some e" for rid e
      using ext that by (auto simp: extends_def map_le_def dom_def)
    then show ?thesis using Observation valid worlds vframe_extends [OF ext]
      by (auto simp: record_valid_def split: option.splits)
  qed
qed

section \<open>The view at a revision\<close>

abbreviation known_at :: "commit_revision \<Rightarrow> 'a recorded_entry \<Rightarrow> bool" where
  "known_at revision e \<equiv> revision_get (recorded_revision e) \<le> revision_get revision"

definition known_observation :: "commit_revision \<Rightarrow> 'a recorded_entry option \<Rightarrow> 'a recorded_entry option" where
  "known_observation revision r = (case r of None \<Rightarrow> None | Some e \<Rightarrow> if known_at revision e then Some e else None)"

definition view_at :: "commit_revision \<Rightarrow> catalog_view \<Rightarrow> catalog_view" where
  "view_at revision v =
     \<lparr>vw_worlds = (\<lambda>rid. filter (known_at revision) (vw_worlds v rid)),
      vw_frames = (\<lambda>rid. filter (known_at revision) (vw_frames v rid)),
      vw_geometries = (\<lambda>rid. filter (known_at revision) (vw_geometries v rid)),
      vw_observations = (\<lambda>rid. known_observation revision (vw_observations v rid)),
      vw_events = (\<lambda>k. Option.bind (vw_events v k)
        (\<lambda>rid. map_option (\<lambda>_. rid) (known_observation revision (vw_observations v rid))))\<rparr>"

lemma rising_filter:
  assumes "rising h"
  shows "\<exists>t. h = filter (known_at revision) h @ t \<and> (\<forall>e \<in> set t. \<not> known_at revision e)"
  using assms
proof (induction h)
  case (Cons e h)
  show ?case
  proof (cases "known_at revision e")
    case True
    then show ?thesis using Cons by (auto simp: rising_def)
  next
    case False
    then have "filter (known_at revision) h = []"
      using Cons.prems by (fastforce simp: rising_def filter_empty_conv)
    then show ?thesis using False Cons.prems by (fastforce simp: rising_def filter_empty_conv)
  qed
qed simp

lemma history_entry_known:
  assumes "rising h"
  shows "history_entry (Some (filter (known_at revision) h)) n = known_observation revision (history_entry (Some h) n)"
proof -
  define a where "a = filter (known_at revision) h"
  obtain t where t: "h = a @ t" "\<forall>e \<in> set t. \<not> known_at revision e"
    using rising_filter [OF assms, of revision] by (auto simp: a_def)
  have a: "\<forall>e \<in> set a. known_at revision e" by (simp add: a_def)
  show ?thesis
    unfolding a_def [symmetric] t(1)
    using t(2) a by (auto simp: history_entry_def vec_get_def known_observation_def nth_append)
qed

lemma rising_filter_le:
  assumes "rising h" "revision_get r \<le> revision_get k"
  shows "\<exists>t. filter (known_at k) h = filter (known_at r) h @ t"
proof -
  obtain t where t: "h = filter (known_at r) h @ t"
    using rising_filter [OF assms(1)] by blast
  have "filter (known_at k) (filter (known_at r) h) = filter (known_at r) h"
    using assms(2) by (auto intro!: filter_cong)
  then have "filter (known_at k) h = filter (known_at r) h @ filter (known_at k) t"
    using arg_cong [OF t, of "filter (known_at k)"] by simp
  then show ?thesis by blast
qed

lemma view_ok_rising:
  assumes "view_ok v"
  shows "rising (vw_worlds v rid)" "rising (vw_frames v rid)" "rising (vw_geometries v rid)"
  using view_okD(1-3) [OF assms, of rid] by (simp_all add: world_history_def frame_history_def geometry_history_def)

lemma view_at_extends:
  assumes "view_ok v" "revision_get r \<le> revision_get k"
  shows "extends (view_at r v) (view_at k v)"
  using view_ok_rising [OF assms(1)] assms(2)
  by (auto simp: extends_def view_at_def rising_filter_le map_le_def known_observation_def
      split: option.splits if_splits)

end
