(* ===== verification/Catalog_Invariant.thy ===== *)
theory Catalog_Invariant
  imports Catalog_Valid "HOL-Library.Multiset"
begin

text \<open>
  The log of everything a catalog holds, the invariant of the catalogs that batches build, and what
  readers of such a catalog may rely on.
\<close>

section \<open>The log of a catalog\<close>

definition history_log :: "('a \<Rightarrow> spatial_record) \<Rightarrow> 'a histories \<Rightarrow> (commit_revision \<times> spatial_record) list" where
  "history_log f m = concat (map (\<lambda>(_, es). map (\<lambda>e. (recorded_revision e, f (entry_value e))) es) m)"

definition catalog_log :: "spatial_catalog \<Rightarrow> (commit_revision \<times> spatial_record) list" where
  "catalog_log c =
     history_log World (sc_worlds c) @ history_log Frame (sc_frames c)
     @ history_log GeometryRecord (sc_geometries c)
     @ map (\<lambda>(_, e). (recorded_revision e, Observation (entry_value e))) (sc_observations c)"

lemma visit_histories_log:
  "visit_histories (\<lambda>r x. visitor r (f x)) m s = rfold (\<lambda>(r, x). visitor r x) (history_log f m) s"
proof (induction m arbitrary: s)
  case (Cons e m)
  have "rfold (\<lambda>e. visitor (recorded_revision e) (f (entry_value e))) es t
      = rfold (\<lambda>(r, x). visitor r x) (map (\<lambda>e. (recorded_revision e, f (entry_value e))) es) t" for es t
    by (induction es arbitrary: t) (auto intro!: rbind_cong)
  with Cons show ?case
    by (auto simp: visit_histories_def history_log_def rfold_append split: prod.splits intro!: rbind_cong)
qed (simp add: visit_histories_def history_log_def)

lemma rfold_append_fun: "rfold f (xs @ ys) = (\<lambda>s. rbind (rfold f xs s) (rfold f ys))"
  by (simp add: rfold_append fun_eq_iff)

text \<open>The visitor of the code sees the log, entry by entry.\<close>

lemma visit_records_log: "visit_records visitor c s = rfold (\<lambda>(r, x). visitor r x) (catalog_log c) s"
proof -
  have "rfold (\<lambda>(_, e). visitor (recorded_revision e) (Observation (entry_value e))) m t
      = rfold (\<lambda>(r, x). visitor r x) (map (\<lambda>(_, e). (recorded_revision e, Observation (entry_value e))) m) t"
    for m :: "(record_ref, position_observation recorded_entry) bmap" and t
    by (induction m arbitrary: t) (auto intro!: rbind_cong)
  then show ?thesis
    by (simp add: visit_records_def catalog_log_def visit_histories_log rfold_append_fun)
qed

lemma image_entry:
  "(r, y) \<in> (\<lambda>e. (recorded_revision e, f (entry_value e))) ` S \<longleftrightarrow> (\<exists>x. HistoryEntry r x \<in> S \<and> y = f x)"
proof
  assume "(r, y) \<in> (\<lambda>e. (recorded_revision e, f (entry_value e))) ` S"
  then obtain e where "e \<in> S" "r = recorded_revision e" "y = f (entry_value e)" by auto
  then show "\<exists>x. HistoryEntry r x \<in> S \<and> y = f x" by (intro exI [of _ "entry_value e"]) simp
next
  assume "\<exists>x. HistoryEntry r x \<in> S \<and> y = f x"
  then obtain x where "HistoryEntry r x \<in> S" "y = f x" by blast
  then show "(r, y) \<in> (\<lambda>e. (recorded_revision e, f (entry_value e))) ` S"
    by (intro image_eqI [of _ _ "HistoryEntry r x"]) simp_all
qed

lemma in_hist: "x \<in> set (hist m rid) \<longleftrightarrow> (\<exists>es. bm_get m rid = Some es \<and> x \<in> set es)"
  by (cases "bm_get m rid") (simp_all add: hist_def)

lemma in_history_log:
  assumes "hist_ok m"
  shows "(r, y) \<in> set (history_log f m) \<longleftrightarrow> (\<exists>rid x. HistoryEntry r x \<in> set (hist m rid) \<and> y = f x)"
proof -
  have "(r, y) \<in> set (history_log f m) \<longleftrightarrow> (\<exists>rid es x. (rid, es) \<in> set m \<and> HistoryEntry r x \<in> set es \<and> y = f x)"
    by (auto simp: history_log_def image_entry split_def Bex_def)
  also have "\<dots> \<longleftrightarrow> (\<exists>rid es x. bm_get m rid = Some es \<and> HistoryEntry r x \<in> set es \<and> y = f x)"
    using assms by (simp add: hist_ok_def bm_get_Some_iff)
  also have "\<dots> \<longleftrightarrow> (\<exists>rid x. HistoryEntry r x \<in> set (hist m rid) \<and> y = f x)"
    unfolding in_hist by blast
  finally show ?thesis .
qed

lemma in_catalog_log:
  assumes "catalog_ok c" "view_ok (view c)"
  shows "(r, x) \<in> set (catalog_log c) \<longleftrightarrow> stored (view c) r x"
proof -
  have h: "hist_ok (sc_worlds c)" "hist_ok (sc_frames c)" "hist_ok (sc_geometries c)"
    using assms(1) by (simp_all add: catalog_ok_def)
  have obs: "(r, x) \<in> (\<lambda>(_, e). (recorded_revision e, Observation (entry_value e))) ` set (sc_observations c)
      \<longleftrightarrow> (\<exists>rid y. bm_get (sc_observations c) rid = Some (HistoryEntry r y) \<and> x = Observation y)"
    using assms by (force simp: catalog_ok_def bm_get_Some_iff intro: recorded_entry.expand)
  have "(r, x) \<in> set (catalog_log c) \<longleftrightarrow>
      (\<exists>rid w. HistoryEntry r w \<in> set (vw_worlds (view c) rid) \<and> x = World w)
      \<or> (\<exists>rid f. HistoryEntry r f \<in> set (vw_frames (view c) rid) \<and> x = Frame f)
      \<or> (\<exists>rid g. HistoryEntry r g \<in> set (vw_geometries (view c) rid) \<and> x = GeometryRecord g)
      \<or> (\<exists>rid y. vw_observations (view c) rid = Some (HistoryEntry r y) \<and> x = Observation y)"
    by (simp add: catalog_log_def view_def in_history_log [OF h(1)] in_history_log [OF h(2)]
        in_history_log [OF h(3)] obs)
  also have "\<dots> \<longleftrightarrow> stored (view c) r x"
    using stored_history [OF assms(2)] by (cases x) (fastforce simp: stored_def)+
  finally show ?thesis .
qed

lemma mset_bm_insert_new:
  "bm_get m k = None \<Longrightarrow> mset (bm_insert k v m) = add_mset (k, v) (mset m)"
  by (induction k v m rule: bm_insert.induct) (auto simp: bm_get_def split: if_splits)

lemma mset_bm_insert_old:
  "bm_ok m \<Longrightarrow> bm_get m k = Some u \<Longrightarrow> add_mset (k, u) (mset (bm_insert k v m)) = add_mset (k, v) (mset m)"
proof (induction k v m rule: bm_insert.induct)
  case (2 k v a b m)
  have m: "bm_ok m" "\<forall>x \<in> fst ` set m. a < x" using "2.prems" by (simp_all add: bm_ok_Cons)
  then have "k < a \<Longrightarrow> bm_get m k = None" by (auto simp: bm_get_None_iff)
  then show ?case using 2 m by (auto simp: bm_get_def split: if_splits)
qed simp

lemma mset_push_history:
  assumes "hist_ok m"
  shows "mset (history_log f (push_history rid e m)) = add_mset (recorded_revision e, f (entry_value e)) (mset (history_log f m))"
proof -
  define F where "F = (\<lambda>(rid :: record_ref, es). mset (map (\<lambda>e. (recorded_revision e, f (entry_value e))) es))"
  have log: "mset (history_log f m) = \<Sum>\<^sub># (image_mset F (mset m))" for m
    by (induction m) (auto simp: history_log_def F_def)
  show ?thesis
  proof (cases "bm_get m rid")
    case None
    then show ?thesis by (simp add: log push_history_def mset_bm_insert_new F_def)
  next
    case (Some es)
    have "add_mset (rid, es) (mset (push_history rid e m)) = add_mset (rid, es @ [e]) (mset m)"
      using assms Some mset_bm_insert_old [of m rid es "es @ [e]"] by (simp add: push_history_def hist_ok_def)
    then have "F (rid, es) + mset (history_log f (push_history rid e m)) = F (rid, es @ [e]) + mset (history_log f m)"
      unfolding log by (metis image_mset_add_mset sum_mset.insert)
    then show ?thesis by (simp add: F_def)
  qed
qed

lemma mset_publish_record:
  assumes "catalog_ok c" "admissible (view c) r"
  shows "mset (catalog_log (publish_record revision r c)) = add_mset (revision, r) (mset (catalog_log c))"
proof (cases r)
  case (Observation obs)
  have "bm_get (sc_observations c) (po_id obs) = None"
    using assms(2) by (auto simp: Observation admissible_def vcategory_def view_def split: if_splits)
  then show ?thesis
    by (simp add: Observation publish_record_def catalog_log_def mset_bm_insert_new)
qed (use assms(1) in \<open>simp_all add: publish_record_def catalog_log_def catalog_ok_def mset_push_history\<close>)

lemma mset_publish_records:
  "catalog_ok c \<Longrightarrow> admits revision (view c) rs \<Longrightarrow>
     mset (catalog_log (fold (publish_record revision) rs c)) = mset (catalog_log c) + mset (map (Pair revision) rs)"
  by (induction rs arbitrary: c) (simp_all add: publish_record_view mset_publish_record)

section \<open>Earlier views are not changed\<close>

lemma view_at_add:
  assumes "admissible v x" "revision_get r < revision_get revision"
  shows "view_at r (add_record revision x v) = view_at r v"
proof (cases x)
  case (Observation obs)
  then have "vw_observations v (po_id obs) = None" "vw_events v (po_key obs) = None"
    using assms(1) by (auto simp: admissible_def vcategory_def split: if_splits)
  then show ?thesis
    using assms(2) unfolding Observation
    by (auto simp: view_at_def add_record_def known_observation_def fun_eq_iff bind_eq_None_conv
        split: option.splits bind_splits)
qed (use assms(2) in \<open>simp_all add: view_at_def add_record_def fun_eq_iff\<close>)

lemma view_at_admits:
  "admits revision v xs \<Longrightarrow> revision_get r < revision_get revision \<Longrightarrow>
     view_at r (fold (add_record revision) xs v) = view_at r v"
  by (induction xs arbitrary: v) (auto simp: view_at_add)

lemma view_at_all:
  assumes ok: "view_ok v" and past: "\<And>r x. stored v r x \<Longrightarrow> revision_get r \<le> revision_get k"
  shows "view_at k v = v"
proof -
  have h: "filter (known_at k) (vw_worlds v rid) = vw_worlds v rid"
      "filter (known_at k) (vw_frames v rid) = vw_frames v rid"
      "filter (known_at k) (vw_geometries v rid) = vw_geometries v rid" for rid
    using past [OF stored_history(1) [OF ok]] past [OF stored_history(2) [OF ok]]
      past [OF stored_history(3) [OF ok]] by (simp_all add: filter_id_conv)
  have obs: "known_observation k (vw_observations v rid) = vw_observations v rid" for rid
    using past [OF stored_history(4) [OF ok, of rid]] by (auto simp: known_observation_def split: option.splits)
  have "vw_observations v rid \<noteq> None" if "vw_events v key = Some rid" for key rid
    using that view_okD(5) [OF ok] by (auto simp: events_ok_def)
  then have "Option.bind (vw_events v key) (\<lambda>rid. map_option (\<lambda>_. rid) (vw_observations v rid))
      = vw_events v key" for key
    by (cases "vw_events v key") fastforce+
  then show ?thesis by (simp add: view_at_def h obs)
qed

section \<open>The invariant\<close>

definition log_bytes :: "(commit_revision \<times> spatial_record) list \<Rightarrow> nat" where
  "log_bytes log = sum_list (map (\<lambda>e. record_weight (snd e)) log)"

definition log_anchor :: "(bytes \<Rightarrow> bytes) \<Rightarrow> (commit_revision \<times> spatial_record) list \<Rightarrow> bytes" where
  "log_anchor H log = fold (anchor_step H) log (replicate 32 0)"

definition accounted :: "(bytes \<Rightarrow> bytes) \<Rightarrow> spatial_catalog \<Rightarrow> bool" where
  "accounted H c \<longleftrightarrow>
     sc_entry_count c = length (catalog_log c) \<and> sc_entry_count c \<le> MAX_SPATIAL_CATALOG_ENTRIES
     \<and> sc_logical_bytes c = log_bytes (catalog_log c)
     \<and> sc_logical_bytes c \<le> MAX_SPATIAL_CATALOG_LOGICAL_BYTES
     \<and> sc_content_anchor c = log_anchor H (catalog_log c)
     \<and> (\<forall>r. length (filter (\<lambda>e. fst e = r) (catalog_log c)) \<le> MAX_SPATIAL_BATCH_RECORDS)"

definition catalog_invariant :: "(bytes \<Rightarrow> bytes) \<Rightarrow> spatial_catalog \<Rightarrow> bool" where
  "catalog_invariant H c \<longleftrightarrow> catalog_ok c \<and> view_ok (view c) \<and> accounted H c
     \<and> (\<forall>r x. stored (view c) r x \<longrightarrow> revision_ok r \<and> record_ok x \<and> record_valid (view_at r (view c)) r x
          \<and> encode_record granting x = Inr (record_bytes x)
          \<and> (\<exists>past. sc_last_revision c = Some past \<and> revision_get r \<le> revision_get past))"

lemma xor_anchor_commute: "xor_anchor (xor_anchor a x) y = xor_anchor (xor_anchor a y) x"
  by (auto simp: xor_anchor_def list_eq_iff_nth_eq ac_simps)

lemma log_permuted:
  assumes "mset log = mset log'"
  shows "log_bytes log = log_bytes log'" "log_anchor H log = log_anchor H log'" "length log = length log'"
    and "length (filter P log) = length (filter P log')"
proof -
  have "log_bytes l = (\<Sum>e \<in># mset l. record_weight (snd e))" for l
    by (induction l) (simp_all add: log_bytes_def)
  then show "log_bytes log = log_bytes log'" by (simp add: assms)
  have "fold (anchor_step H) log = fold (anchor_step H) log'"
    by (intro fold_multiset_equiv assms) (simp add: fun_eq_iff anchor_step_def xor_anchor_commute)
  then show "log_anchor H log = log_anchor H log'" by (simp add: log_anchor_def)
  show "length log = length log'" using assms by (rule mset_eq_length)
  have "length (filter P l) = size (filter_mset P (mset l))" for l
    by (simp flip: mset_filter)
  then show "length (filter P log) = length (filter P log')" by (simp add: assms)
qed

lemma catalog_new_view: "catalog_log catalog_new = []" "catalog_ok catalog_new" "view_ok (view catalog_new)"
    "\<not> stored (view catalog_new) r x"
  by (cases x; simp add: catalog_new_def catalog_log_def history_log_def catalog_ok_def view_ok_def view_def
      world_history_def frame_history_def geometry_history_def one_category_def events_ok_def numbered_def
      rising_def unchanging_def stored_def)+

lemma catalog_new_invariant: "catalog_invariant H catalog_new"
  using catalog_new_view(2-4)
  by (simp add: catalog_invariant_def accounted_def catalog_new_view(1) log_bytes_def log_anchor_def)
    (simp add: catalog_new_def)

section \<open>Every batch keeps it\<close>

text \<open>What an admitted batch does: it publishes new records that are admissible one after another, and the whole batch is valid in the resulting view.\<close>

lemma prepare_batch_staged:
  assumes inv: "catalog_invariant H c" and prep: "prepare_batch H reserve c revision rs = Some (Inr b)"
  obtains ins q where "pb_inserted b = ins" "set ins \<subseteq> set rs" "length ins \<le> MAX_SPATIAL_BATCH_RECORDS"
    and "admits revision (view c) ins" "pview q = fold (add_record revision) ins (view c)"
    and "view_ok (pview q)" "\<forall>r \<in> set rs. record_valid (pview q) revision r"
    and "\<forall>r \<in> set rs. \<exists>k. stored (pview q) k r" "\<forall>r \<in> set ins. encode_record granting r = Inr (record_bytes r)"
    and "pb_resulting_entry_count b = sc_entry_count c + length ins"
    and "pb_resulting_logical_bytes b = sc_logical_bytes c + log_bytes (map (Pair revision) ins)"
    and "pb_resulting_content_anchor b = fold (anchor_step H) (map (Pair revision) ins) (sc_content_anchor c)"
    and "pb_resulting_entry_count b \<le> MAX_SPATIAL_CATALOG_ENTRIES"
    and "pb_resulting_logical_bytes b \<le> MAX_SPATIAL_CATALOG_LOGICAL_BYTES"
proof -
  obtain p q where len: "length rs \<le> MAX_SPATIAL_BATCH_RECORDS" and later: "after_revision (sc_last_revision c) revision"
    and p: "preparation_new reserve c revision (length rs) = Inr p" and q: "stage_all H reserve 0 rs p = Inr q"
    and valid: "validate_records q revision rs = Some (Inr ())" and b: "preparation_finish reserve q rs = Inr b"
    using prep by (auto simp: prepare_batch_iff)
  have ok: "catalog_ok c" "view_ok (view c)" "accounted H c"
    and past: "\<And>r x. stored (view c) r x \<Longrightarrow> revision_get r \<le> revision_get revision"
    using inv later by (fastforce simp: catalog_invariant_def after_revision_def)+
  have view: "pview p = view c" "cp_revision p = revision" "cp_base p = c" "cp_inserted_indices p = []"
    using p by (auto simp: preparation_new_iff pview_def view_def or_else_def)
  have "staged_as H p [] p"
    using ok past p view by (auto simp: staged_as_def prep_ok_def within_limits_def accounted_def preparation_new_iff)
  with q obtain js where js: "cp_inserted_indices q = js" "length js \<le> length rs"
      "staged_as H p (map ((!) rs) js) q" "\<forall>r \<in> set rs. \<exists>k. stored (pview q) k r"
    using stage_all_view [of H reserve 0 rs p q rs] view by auto
  define ins where "ins = map ((!) rs) js"
  note st = js(3) [unfolded ins_def [symmetric] staged_as_def view]
  have fin: "pb_inserted b = ins" "set ins \<subseteq> set rs" "length ins \<le> MAX_SPATIAL_BATCH_RECORDS"
      "pb_resulting_entry_count b = sc_entry_count c + length ins"
      "pb_resulting_logical_bytes b = sc_logical_bytes c + cp_new_logical_bytes q"
      "pb_resulting_content_anchor b = cp_resulting_content_anchor q"
    using b js(1,2) st len by (auto simp: preparation_finish_iff ins_def)
  moreover have "cp_new_logical_bytes q = log_bytes (map (Pair revision) ins)"
      "cp_resulting_content_anchor q = fold (anchor_step H) (map (Pair revision) ins) (sc_content_anchor c)"
    using st p by (simp_all add: preparation_new_iff log_bytes_def fold_map comp_def)
  moreover have "\<forall>r \<in> set rs. record_valid (pview q) revision r"
    using valid validate_records_view st by blast
  ultimately show thesis
    using that [of ins q] st js(1,4) b by (auto simp: within_limits_def ins_def preparation_finish_iff)
qed

lemma log_append:
  "log_bytes (a @ b) = log_bytes a + log_bytes b"
  "log_anchor H (a @ b) = fold (anchor_step H) b (log_anchor H a)"
  by (simp_all add: log_bytes_def log_anchor_def)

lemma accounted_publish:
  assumes acc: "accounted H c" and log: "mset (catalog_log c') = mset (catalog_log c) + mset (map (Pair revision) ins)"
    and fresh: "\<forall>e \<in> set (catalog_log c). fst e \<noteq> revision" and len: "length ins \<le> MAX_SPATIAL_BATCH_RECORDS"
    and counts: "sc_entry_count c' = sc_entry_count c + length ins"
      "sc_logical_bytes c' = sc_logical_bytes c + log_bytes (map (Pair revision) ins)"
      "sc_content_anchor c' = fold (anchor_step H) (map (Pair revision) ins) (sc_content_anchor c)"
    and limits: "sc_entry_count c' \<le> MAX_SPATIAL_CATALOG_ENTRIES"
      "sc_logical_bytes c' \<le> MAX_SPATIAL_CATALOG_LOGICAL_BYTES"
  shows "accounted H c'"
proof -
  have perm: "mset (catalog_log c') = mset (catalog_log c @ map (Pair revision) ins)" using log by simp
  note same = log_permuted [OF perm]
  have none: "filter (\<lambda>e. fst e = revision) (catalog_log c) = []"
    using fresh by (simp add: filter_empty_conv)
  have "length (filter (\<lambda>e. fst e = r) (catalog_log c')) \<le> MAX_SPATIAL_BATCH_RECORDS" for r
  proof (cases "r = revision")
    case True
    then show ?thesis using len none by (simp add: same(4) filter_map comp_def)
  next
    case False
    then have "filter (\<lambda>e. fst e = r) (map (Pair revision) ins) = []" by (auto simp: filter_empty_conv)
    then show ?thesis using acc by (simp add: same(4) accounted_def)
  qed
  then show ?thesis
    using acc counts limits
    by (simp add: accounted_def same(1-3) log_append)
qed

lemma publish_invariant:
  assumes inv: "catalog_invariant H c" and prep: "prepare_batch H reserve c revision rs = Some (Inr b)"
    and rs: "\<forall>r \<in> set rs. record_ok r" "revision_ok revision"
    and pub: "publish_prepared c b = Some (outcomes, c')"
  shows "catalog_invariant H c'"
proof -
  obtain ins q where ins: "pb_inserted b = ins" "set ins \<subseteq> set rs" "length ins \<le> MAX_SPATIAL_BATCH_RECORDS"
      "admits revision (view c) ins" "pview q = fold (add_record revision) ins (view c)"
      "view_ok (pview q)" "\<forall>r \<in> set rs. record_valid (pview q) revision r"
      "\<forall>r \<in> set ins. encode_record granting r = Inr (record_bytes r)"
      "pb_resulting_entry_count b = sc_entry_count c + length ins"
      "pb_resulting_logical_bytes b = sc_logical_bytes c + log_bytes (map (Pair revision) ins)"
      "pb_resulting_content_anchor b = fold (anchor_step H) (map (Pair revision) ins) (sc_content_anchor c)"
      "pb_resulting_entry_count b \<le> MAX_SPATIAL_CATALOG_ENTRIES"
      "pb_resulting_logical_bytes b \<le> MAX_SPATIAL_CATALOG_LOGICAL_BYTES"
    by (rule prepare_batch_staged [OF inv prep])
  note base = prepare_batch_base [OF prep]
  define d where "d = fold (publish_record revision) ins c"
  have c': "c' = d\<lparr>sc_last_revision := Some revision, sc_entry_count := pb_resulting_entry_count b,
      sc_logical_bytes := pb_resulting_logical_bytes b, sc_content_anchor := pb_resulting_content_anchor b\<rparr>"
    using pub base(1,2) ins(1) by (simp add: publish_prepared_eq d_def)
  have ok: "catalog_ok c" "view_ok (view c)" "accounted H c" using inv by (simp_all add: catalog_invariant_def)
  have d: "catalog_ok d" "view d = pview q" "mset (catalog_log d) = mset (catalog_log c) + mset (map (Pair revision) ins)"
    using publish_records_view [OF ok(1), of revision ins] mset_publish_records [OF ok(1) ins(4)] ins(5)
    by (simp_all add: d_def)
  have v: "catalog_ok c'" "view c' = pview q" "catalog_log c' = catalog_log d" "sc_last_revision c' = Some revision"
    using d(1,2) by (simp_all add: c' catalog_ok_def view_def catalog_log_def)
  have past: "revision_get r < revision_get revision" if "stored (view c) r x" for r x
    using that inv base(3) by (fastforce simp: catalog_invariant_def after_revision_def)
  have "fst e \<noteq> revision" if "e \<in> set (catalog_log c)" for e
    using past [of "fst e" "snd e"] in_catalog_log [OF ok(1,2), of "fst e" "snd e"] that by auto
  then have "accounted H c'"
    using ins d(3) v(3) by (intro accounted_publish [OF ok(3)]) (simp_all add: c')
  moreover have new: "stored (view c') r x \<longleftrightarrow> r = revision \<and> x \<in> set ins \<or> stored (view c) r x" for r x
    using admits_stored [OF ins(4)] ins(5) v(2) by simp
  have at: "view_at r (view c') = (if revision_get r < revision_get revision then view_at r (view c) else view c')"
    if "revision_get r \<le> revision_get revision" for r
  proof (cases "revision_get r < revision_get revision")
    case True
    then show ?thesis using view_at_admits [OF ins(4)] ins(5) v(2) by simp
  next
    case False
    then have "revision_get k \<le> revision_get r" if "stored (view c') k x" for k x
      using that past less_imp_le by (fastforce simp: new)
    then show ?thesis using False view_at_all [of "view c'" r] ins(6) v(2) by simp
  qed
  have "revision_ok r \<and> record_ok x \<and> record_valid (view_at r (view c')) r x
      \<and> encode_record granting x = Inr (record_bytes x) \<and> revision_get r \<le> revision_get revision"
    if "stored (view c') r x" for r x
    using that [unfolded new]
  proof
    assume x: "r = revision \<and> x \<in> set ins"
    then show ?thesis using ins(2,7,8) rs at [of revision] v(2) by auto
  next
    assume "stored (view c) r x"
    then show ?thesis using inv past [of r x] at [of r] by (simp add: catalog_invariant_def less_imp_le)
  qed
  ultimately show ?thesis
    using v ins(6) unfolding catalog_invariant_def by auto
qed

inductive reachable_catalog :: "(bytes \<Rightarrow> bytes) \<Rightarrow> spatial_catalog \<Rightarrow> bool" for H where
  new: "reachable_catalog H catalog_new"
| batch: "reachable_catalog H c \<Longrightarrow> \<forall>r \<in> set records. record_ok r \<Longrightarrow> revision_ok revision \<Longrightarrow>
    apply_batch H reserve revision records c = Some (answer, c') \<Longrightarrow> reachable_catalog H c'"

lemma apply_batch_iff:
  "apply_batch H reserve revision records c = Some (answer, c') \<longleftrightarrow>
     (\<exists>e. answer = Inl e \<and> c' = c \<and> prepare_batch H reserve c revision records = Some (Inl e))
     \<or> (\<exists>b outcomes. answer = Inr outcomes \<and> prepare_batch H reserve c revision records = Some (Inr b)
          \<and> publish_prepared c b = Some (outcomes, c'))"
  by (auto simp: apply_batch_def split: option.splits sum.splits)

lemma reachable_invariant: "reachable_catalog H c \<Longrightarrow> catalog_invariant H c"
proof (induction rule: reachable_catalog.induct)
  case (batch c records revision reserve answer c')
  then show ?case by (auto simp: apply_batch_iff intro: publish_invariant)
qed (rule catalog_new_invariant)

end
