(* ===== verification/Catalog_Reads.thy ===== *)
theory Catalog_Reads
  imports Catalog_Invariant
begin

text \<open>
  What a reader of a catalog may rely on: a read at a revision is a lookup in the view at that
  revision, references resolve there, frames have a bounded acyclic ancestry, and later batches
  change no earlier answer.
\<close>

section \<open>Reads are lookups in the view at the revision\<close>

lemma visible_known: "visible e k missing = ok_or (map_option entry_value (known_observation k e)) missing"
  by (auto simp: visible_def known_observation_def split: option.splits)

lemma history_entry_hist: "history_entry (bm_get m rid) n = history_entry (Some (hist m rid)) n"
  by (auto simp: history_entry_def hist_def vec_get_def split: option.splits)

definition vworld :: "catalog_view \<Rightarrow> versioned_ref \<Rightarrow> world_definition option" where
  "vworld v reference =
     map_option entry_value (history_entry (Some (vw_worlds v (vr_record reference))) (vr_version reference))"

definition vgeometry :: "catalog_view \<Rightarrow> versioned_ref \<Rightarrow> geometry_version option" where
  "vgeometry v reference =
     map_option entry_value (history_entry (Some (vw_geometries v (vr_record reference))) (vr_version reference))"

lemma reads_view:
  assumes "view_ok (view c)"
  shows "world_at c reference k = ok_or (vworld (view_at k (view c)) reference) SMissingWorld"
    and "frame_at c reference k = ok_or (vframe (view_at k (view c)) reference) SMissingFrameVersion"
    and "geometry_at c reference k = ok_or (vgeometry (view_at k (view c)) reference) SMissingGeometryVersion"
    and "observation_at c rid k =
      ok_or (map_option entry_value (vw_observations (view_at k (view c)) rid)) SMissingObservation"
  using view_ok_rising [OF assms]
  by (simp_all add: world_at_def frame_at_def geometry_at_def observation_at_def visible_known
      history_entry_hist vworld_def vframe_def vgeometry_def view_at_def view_def history_entry_known)

section \<open>The view at a revision is well formed\<close>

lemma numbered_prefix: "numbered version (a @ b) \<Longrightarrow> numbered version a"
  by (simp add: numbered_append)

lemma numbered_known: "numbered version h \<Longrightarrow> rising h \<Longrightarrow> numbered version (filter (known_at k) h)"
  using rising_filter [of h k] numbered_prefix [of version "filter (known_at k) h"] by metis

lemma rising_known: "rising h \<Longrightarrow> rising (filter (known_at k) h)"
  by (simp add: rising_def sorted_filter)

lemma unchanging_filter: "unchanging f h \<Longrightarrow> unchanging f (filter P h)"
  by (simp add: unchanging_def)

lemma view_ok_at:
  assumes "view_ok v"
  shows "view_ok (view_at k v)"
proof -
  have "world_history rid (vw_worlds (view_at k v) rid)" "frame_history rid (vw_frames (view_at k v) rid)"
      "geometry_history rid (vw_geometries (view_at k v) rid)" for rid
    using view_okD(1-3) [OF assms, of rid]
    by (auto simp: view_at_def world_history_def frame_history_def geometry_history_def numbered_known
        rising_known unchanging_filter)
  moreover have "one_category (view_at k v) rid" for rid
    using view_okD(4) [OF assms, of rid] by (auto simp: one_category_def view_at_def known_observation_def)
  moreover have "events_ok (view_at k v)"
    using view_okD(5) [OF assms]
    by (auto simp: events_ok_def view_at_def known_observation_def bind_eq_Some_conv split: option.splits if_splits)
  ultimately show ?thesis by (simp add: view_ok_def)
qed

lemma history_entry_numbered:
  "history_entry (Some h) n = Some e \<Longrightarrow> numbered version h \<Longrightarrow> e \<in> set h \<and> version (entry_value e) = n"
  by (auto simp: history_entry_def vec_get_def numbered_def split: if_splits)

lemma vworld_stored:
  assumes "view_ok v" "vworld v reference = Some w"
  shows "\<exists>r. stored v r (World w)" "wd_id w = vr_record reference" "wd_version w = vr_version reference"
proof -
  obtain e where e: "history_entry (Some (vw_worlds v (vr_record reference))) (vr_version reference) = Some e"
      "entry_value e = w" using assms(2) by (auto simp: vworld_def)
  have "world_history (vr_record reference) (vw_worlds v (vr_record reference))" by (rule view_okD(1) [OF assms(1)])
  then have "e \<in> set (vw_worlds v (vr_record reference))" "wd_version w = vr_version reference"
      "wd_id w = vr_record reference"
    using history_entry_numbered [OF e(1)] e(2) by (auto simp: world_history_def)
  then show "\<exists>r. stored v r (World w)" "wd_id w = vr_record reference" "wd_version w = vr_version reference"
    using stored_history(1) [OF assms(1)] e(2) by auto
qed

lemma vframe_stored:
  assumes "view_ok v" "vframe v reference = Some f"
  shows "\<exists>r. stored v r (Frame f)" "fd_id f = vr_record reference" "fd_version f = vr_version reference"
proof -
  obtain e where e: "history_entry (Some (vw_frames v (vr_record reference))) (vr_version reference) = Some e"
      "entry_value e = f" using assms(2) by (auto simp: vframe_def)
  have "frame_history (vr_record reference) (vw_frames v (vr_record reference))" by (rule view_okD(2) [OF assms(1)])
  then have "e \<in> set (vw_frames v (vr_record reference))" "fd_version f = vr_version reference"
      "fd_id f = vr_record reference"
    using history_entry_numbered [OF e(1)] e(2) by (auto simp: frame_history_def)
  then show "\<exists>r. stored v r (Frame f)" "fd_id f = vr_record reference" "fd_version f = vr_version reference"
    using stored_history(2) [OF assms(1)] e(2) by auto
qed

lemma vgeometry_stored:
  assumes "view_ok v" "vgeometry v reference = Some g"
  shows "\<exists>r. stored v r (GeometryRecord g)" "gv_id g = vr_record reference" "gv_version g = vr_version reference"
    and "gv_predecessor g = predecessor_of (gv_id g) (gv_version g - 1)"
proof -
  obtain e where e: "history_entry (Some (vw_geometries v (vr_record reference))) (vr_version reference) = Some e"
      "entry_value e = g" using assms(2) by (auto simp: vgeometry_def)
  have "geometry_history (vr_record reference) (vw_geometries v (vr_record reference))"
    by (rule view_okD(3) [OF assms(1)])
  then have "e \<in> set (vw_geometries v (vr_record reference))" "gv_version g = vr_version reference"
      "gv_id g = vr_record reference" "gv_predecessor g = predecessor_of (gv_id g) (gv_version g - 1)"
    using history_entry_numbered [OF e(1)] e(2) by (auto simp: geometry_history_def)
  then show "\<exists>r. stored v r (GeometryRecord g)" "gv_id g = vr_record reference" "gv_version g = vr_version reference"
    and "gv_predecessor g = predecessor_of (gv_id g) (gv_version g - 1)"
    using stored_history(3) [OF assms(1)] e(2) by auto
qed

lemma stored_at: "stored (view_at k v) r x \<longleftrightarrow> stored v r x \<and> revision_get r \<le> revision_get k"
  by (cases x) (auto simp: stored_def view_at_def known_observation_def split: option.splits if_splits)

text \<open>What the invariant says of a record that is known at a revision.\<close>

lemma known_valid:
  assumes inv: "catalog_invariant H c" and x: "stored (view_at k (view c)) r x"
  shows "record_valid (view_at k (view c)) r x"
proof -
  have "record_valid (view_at r (view c)) r x" "view_ok (view c)" "revision_get r \<le> revision_get k"
    using inv x by (auto simp: catalog_invariant_def stored_at)
  then show ?thesis using record_valid_extends view_at_extends view_ok_at by blast
qed

section \<open>Ancestry of frames\<close>

fun ancestry :: "spatial_catalog \<Rightarrow> commit_revision \<Rightarrow> frame_definition \<Rightarrow> frame_definition list \<Rightarrow> bool" where
  "ancestry c k f [] \<longleftrightarrow> fd_parent f = None"
| "ancestry c k f (g # gs) \<longleftrightarrow>
     (\<exists>p. fd_parent f = Some p \<and> frame_at c (fp_frame p) k = Inr g \<and> fd_world g = fd_world f \<and> ancestry c k g gs)"

lemma rooted_ancestry:
  assumes ok: "view_ok (view c)"
  shows "rooted n (view_at k (view c)) (fd_world f) root seen p \<Longrightarrow> fd_parent f = Some p \<Longrightarrow>
    \<exists>gs. ancestry c k f gs \<and> gs \<noteq> [] \<and> length gs \<le> n \<and> fd_id (last gs) = root
      \<and> distinct (map fd_id gs) \<and> set (map fd_id gs) \<inter> seen = {}"
proof (induction n arbitrary: f seen p)
  case (Suc n)
  obtain g where g: "vframe (view_at k (view c)) (fp_frame p) = Some g" "fd_world g = fd_world f"
      "vr_record (fp_frame p) \<notin> seen"
    and rest: "case fd_parent g of Some q \<Rightarrow>
        rooted n (view_at k (view c)) (fd_world f) root (insert (vr_record (fp_frame p)) seen) q
      | None \<Rightarrow> fd_id g = root"
    using Suc.prems(1) by (auto split: option.splits)
  have gid: "fd_id g = vr_record (fp_frame p)" by (rule vframe_stored(2) [OF view_ok_at [OF ok] g(1)])
  have step: "ancestry c k f (g # gs)" if "ancestry c k g gs" for gs
    using that g Suc.prems(2) by (simp add: reads_view(2) [OF ok])
  show ?case
  proof (cases "fd_parent g")
    case None
    then show ?thesis using rest step [of "[]"] gid g(3) by (intro exI [of _ "[g]"]) simp
  next
    case (Some q)
    then obtain gs where gs: "ancestry c k g gs" "gs \<noteq> []" "length gs \<le> n" "fd_id (last gs) = root"
        "distinct (map fd_id gs)" "set (map fd_id gs) \<inter> insert (vr_record (fp_frame p)) seen = {}"
      using rest Suc.IH [of g "insert (vr_record (fp_frame p)) seen" q] g(2) by auto
    then show ?thesis using step [OF gs(1)] gid g(3) by (intro exI [of _ "g # gs"]) auto
  qed
qed simp

lemma vlatest_vworld:
  assumes "vlatest (vw_worlds v rid) = Some w"
  shows "vworld v (VersionedRef rid (length (vw_worlds v rid))) = Some w"
  using assms by (auto simp: vlatest_def vec_last_def vworld_def history_entry_def vec_get_def last_conv_nth
      Suc_le_eq split: if_splits)

section \<open>Batches that are admitted\<close>

text \<open>Conversely to the refinement of staging: admissible records that fit are staged, in order.\<close>

lemma room_version: "admissible v r \<Longrightarrow> record_ok r \<Longrightarrow> room v r"
  by (cases r) (auto simp: admissible_def room_def world_ok_def frame_ok_def
      geometry_version_ok_def version_ok_def)

lemma stage_total:
  assumes p: "staged_as H p [] p" and r: "admissible (pview p) r" "record_ok r"
      "encode_record granting r = Inr (record_bytes r)"
    and limits: "sc_entry_count (cp_base p) + length (cp_inserted_indices p) + 1 \<le> MAX_SPATIAL_CATALOG_ENTRIES"
      "sc_logical_bytes (cp_base p) + (cp_new_logical_bytes p + record_weight r) \<le> MAX_SPATIAL_CATALOG_LOGICAL_BYTES"
  shows "\<exists>q. stage H granting n r p = Inr q \<and> staged_as H p [r] q
    \<and> cp_inserted_indices q = cp_inserted_indices p @ [n]"
proof -
  have ok: "prep_ok p" "view_ok (pview p)" using p by (simp_all add: staged_as_def)
  have none: "vw_observations (pview p) (po_id obs) = None" if "r = Observation obs" for obs
    using r(1) that by (auto simp: admissible_def vcategory_def split: if_splits)
  obtain c where c: "charge H granting n r p = Inr c"
    using limits r(3) by (auto simp: charge_iff record_weight_def add.assoc)
  then have st: "stage H granting n r p = Inr (push_staged r c)"
    using stage_new_iff [OF ok none] room_version [OF r(1,2)] r(1) by blast
  show ?thesis
  proof (rule staged_as_stage [OF st p])
    fix k
    assume "cp_inserted_indices (push_staged r c) = cp_inserted_indices p"
    then show ?thesis using charge_keeps(9) [OF c] by simp
  qed (use st in blast)
qed

lemma stage_all_total:
  assumes "staged_as H p [] p" "admits (cp_revision p) (pview p) rs" "\<forall>r \<in> set rs. record_ok r"
    and "\<forall>r \<in> set rs. encode_record granting r = Inr (record_bytes r)"
    and "sc_entry_count (cp_base p) + length (cp_inserted_indices p) + length rs \<le> MAX_SPATIAL_CATALOG_ENTRIES"
    and "sc_logical_bytes (cp_base p) + (cp_new_logical_bytes p + sum_list (map record_weight rs))
      \<le> MAX_SPATIAL_CATALOG_LOGICAL_BYTES"
  shows "\<exists>q. stage_all H granting n rs p = Inr q \<and> staged_as H p rs q
    \<and> cp_inserted_indices q = cp_inserted_indices p @ [n..<n + length rs]"
  using assms
proof (induction rs arbitrary: n p)
  case (Cons r rs)
  obtain p' where p': "stage H granting n r p = Inr p'" "staged_as H p [r] p'"
      "cp_inserted_indices p' = cp_inserted_indices p @ [n]"
    using stage_total [OF Cons.prems(1), of r n] Cons.prems(2-6) by auto
  have same: "cp_base p' = cp_base p" "cp_revision p' = cp_revision p"
      "pview p' = add_record (cp_revision p) r (pview p)"
      "cp_new_logical_bytes p' = cp_new_logical_bytes p + record_weight r"
    using p'(2) by (simp_all add: staged_as_def)
  obtain q where q: "stage_all H granting (Suc n) rs p' = Inr q" "staged_as H p' rs q"
      "cp_inserted_indices q = cp_inserted_indices p' @ [Suc n..<Suc n + length rs]"
    using Cons.IH [OF staged_as_self [OF p'(2)], of "Suc n"] Cons.prems(2-6) same p'(3) by (auto simp: add_ac)
  have "[n..<n + length (r # rs)] = n # [Suc n..<Suc n + length rs]"
    by (subst upt_conv_Cons) simp_all
  then show ?case using p' q staged_as_append [OF p'(2) q(2)] by simp
qed simp

lemma nth_all: "map ((!) xs) [0..<length xs] = xs"
  by (simp add: map_nth)

lemma prepare_batch_total:
  assumes c: "catalog_ok c" "view_ok (view c)" "accounted H c"
    and past: "\<And>r x. stored (view c) r x \<Longrightarrow> revision_get r \<le> revision_get revision"
    and later: "after_revision (sc_last_revision c) revision"
    and len: "rs \<noteq> []" "length rs \<le> MAX_SPATIAL_BATCH_RECORDS"
    and rs: "admits revision (view c) rs" "\<forall>r \<in> set rs. record_ok r"
      "\<forall>r \<in> set rs. encode_record granting r = Inr (record_bytes r)"
      "\<forall>r \<in> set rs. record_valid (fold (add_record revision) rs (view c)) revision r"
    and limits: "sc_entry_count c + length rs \<le> MAX_SPATIAL_CATALOG_ENTRIES"
      "sc_logical_bytes c + log_bytes (map (Pair revision) rs) \<le> MAX_SPATIAL_CATALOG_LOGICAL_BYTES"
  shows "\<exists>b. prepare_batch H granting c revision rs = Some (Inr b) \<and> pb_inserted b = rs
    \<and> pb_resulting_entry_count b = sc_entry_count c + length rs
    \<and> pb_resulting_logical_bytes b = sc_logical_bytes c + log_bytes (map (Pair revision) rs)
    \<and> pb_resulting_content_anchor b = fold (anchor_step H) (map (Pair revision) rs) (sc_content_anchor c)"
proof -
  obtain p where p: "preparation_new granting c revision (length rs) = Inr p"
    by (simp add: preparation_new_iff)
  have view: "pview p = view c" "cp_revision p = revision" "cp_base p = c" "cp_inserted_indices p = []"
      "cp_new_logical_bytes p = 0" "cp_resulting_content_anchor p = sc_content_anchor c"
      "cp_effect_revisions p = []"
    using p by (auto simp: preparation_new_iff pview_def view_def or_else_def)
  have "staged_as H p [] p"
    using c past p view by (auto simp: staged_as_def prep_ok_def within_limits_def accounted_def preparation_new_iff)
  then obtain q where q: "stage_all H granting 0 rs p = Inr q" "staged_as H p rs q"
      "cp_inserted_indices q = [0..<length rs]"
    using stage_all_total [of H p rs 0] rs limits by (auto simp: view log_bytes_def comp_def)
  note st = q(2) [unfolded staged_as_def view]
  have "validate_records q revision rs = Some (Inr ())"
    using st rs(4) validate_records_view by auto
  moreover have "MAX_SPATIAL_CATALOG_ENTRIES \<le> usize_max" "MAX_SPATIAL_CATALOG_LOGICAL_BYTES \<le> usize_max"
    by (simp_all add: spatial_limits usize_max_def)
  ultimately have "preparation_finish granting q rs = Inr
      \<lparr>pb_base_revision = sc_last_revision c, pb_base_entry_count = sc_entry_count c,
       pb_base_logical_bytes = sc_logical_bytes c, pb_base_content_anchor = sc_content_anchor c,
       pb_revision = revision, pb_inserted = rs, pb_outcomes = cp_outcomes q,
       pb_effect_revisions = cp_effect_revisions q,
       pb_resulting_entry_count = sc_entry_count c + length rs,
       pb_resulting_logical_bytes = sc_logical_bytes c + cp_new_logical_bytes q,
       pb_resulting_content_anchor = cp_resulting_content_anchor q\<rparr>"
    using st q(3) stage_all_books [OF q(1)] limits by (simp add: preparation_finish_iff view nth_all within_limits_def)
  then show ?thesis
    using p q(1) later len st \<open>validate_records q revision rs = Some (Inr ())\<close>
    by (auto simp: prepare_batch_iff log_bytes_def comp_def fold_map)
qed

end
