(* ===== verification/Catalog_Properties.thy ===== *)
theory Catalog_Properties
  imports Catalog_Reads
begin

text \<open>
  The properties of the spatial catalog over all catalogs that batches of admissible records build,
  with an example catalog of one world, its root frame, a child frame and a point in it.
\<close>

section \<open>Reading at a revision\<close>

lemma reachable_ok:
  assumes "reachable_catalog H c"
  shows "catalog_invariant H c" "catalog_ok c" "view_ok (view c)"
  using reachable_invariant [OF assms] by (simp_all add: catalog_invariant_def)

lemma frame_sound:
  assumes inv: "catalog_invariant H c" and f: "frame_at c reference k = Inr f"
  shows "fd_id f = vr_record reference \<and> fd_version f = vr_version reference
    \<and> (\<exists>n w gs. world_at c (VersionedRef (fd_world f) n) k = Inr w \<and> ancestry c k f gs
        \<and> length gs \<le> MAX_FRAME_DEPTH \<and> distinct (map fd_id (f # gs))
        \<and> fd_id (last (f # gs)) = vr_record (wd_root_frame w))"
proof -
  let ?v = "view_at k (view c)"
  have ok: "view_ok (view c)" "view_ok ?v" using inv by (simp_all add: catalog_invariant_def view_ok_at)
  have vf: "vframe ?v reference = Some f" using f by (simp add: reads_view(2) [OF ok(1)])
  then obtain r where "stored ?v r (Frame f)" using vframe_stored(1) [OF ok(2)] by blast
  then have "frame_valid ?v f" using known_valid [OF inv] by (force simp: record_valid_def)
  then obtain w where w: "vlatest (vw_worlds ?v (fd_world f)) = Some w"
    and parent: "if vr_record (wd_root_frame w) = fd_id f then fd_parent f = None
          else \<exists>parent. fd_parent f = Some parent
            \<and> rooted MAX_FRAME_DEPTH ?v (fd_world f) (vr_record (wd_root_frame w)) {fd_id f} parent"
    by (auto simp: frame_valid_def)
  have "\<exists>gs. ancestry c k f gs \<and> length gs \<le> MAX_FRAME_DEPTH \<and> distinct (map fd_id (f # gs))
      \<and> fd_id (last (f # gs)) = vr_record (wd_root_frame w)"
  proof (cases "vr_record (wd_root_frame w) = fd_id f")
    case True
    then show ?thesis using parent by (intro exI [of _ "[]"]) simp
  next
    case False
    then obtain p where "fd_parent f = Some p"
        "rooted MAX_FRAME_DEPTH ?v (fd_world f) (vr_record (wd_root_frame w)) {fd_id f} p"
      using parent by auto
    from rooted_ancestry [OF ok(1) this(2,1)] show ?thesis by auto
  qed
  moreover have "world_at c (VersionedRef (fd_world f) (length (vw_worlds ?v (fd_world f)))) k = Inr w"
    using vlatest_vworld [OF w] by (simp add: reads_view(1) [OF ok(1)])
  ultimately show ?thesis using vframe_stored(2,3) [OF ok(2) vf] by blast
qed

lemma world_visible_read:
  assumes "view_ok (view c)" "vw_worlds (view_at k (view c)) rid \<noteq> []"
  shows "\<exists>n w. world_at c (VersionedRef rid n) k = Inr w"
proof -
  have "vlatest (vw_worlds (view_at k (view c)) rid) = Some (entry_value (last (vw_worlds (view_at k (view c)) rid)))"
    using assms(2) by (simp add: vlatest_def vec_last_def)
  from vlatest_vworld [OF this] show ?thesis unfolding reads_view(1) [OF assms(1)] by force
qed

lemma world_sound:
  assumes inv: "catalog_invariant H c" and w: "world_at c reference k = Inr w"
  shows "wd_id w = vr_record reference \<and> wd_version w = vr_version reference
    \<and> (\<exists>root. frame_at c (wd_root_frame w) k = Inr root \<and> fd_world root = wd_id w \<and> fd_parent root = None)"
proof -
  let ?v = "view_at k (view c)"
  have ok: "view_ok (view c)" "view_ok ?v" using inv by (simp_all add: catalog_invariant_def view_ok_at)
  have vw: "vworld ?v reference = Some w" using w by (simp add: reads_view(1) [OF ok(1)])
  then obtain r where "stored ?v r (World w)" using vworld_stored(1) [OF ok(2)] by blast
  then have "record_valid ?v r (World w)" by (rule known_valid [OF inv])
  then show ?thesis
    using vworld_stored(2,3) [OF ok(2) vw] by (auto simp: record_valid_def reads_view(2) [OF ok(1)])
qed

lemma geometry_sound:
  assumes inv: "catalog_invariant H c" and g: "geometry_at c reference k = Inr g"
  shows "gv_id g = vr_record reference \<and> gv_version g = vr_version reference
    \<and> (\<exists>n w. world_at c (VersionedRef (gv_world g) n) k = Inr w)
    \<and> (\<exists>f. frame_at c (gv_frame g) k = Inr f \<and> fd_world f = gv_world g
         \<and> accepts_geometry (fd_kind f) (gv_geometry g))
    \<and> (case gv_predecessor g of
         None \<Rightarrow> gv_version g = 1
       | Some p \<Rightarrow> vr_record p = gv_id g \<and> Suc (vr_version p) = gv_version g \<and> (\<exists>g'. geometry_at c p k = Inr g'))"
proof -
  let ?v = "view_at k (view c)"
  have ok: "view_ok (view c)" "view_ok ?v" using inv by (simp_all add: catalog_invariant_def view_ok_at)
  have vg: "vgeometry ?v reference = Some g" using g by (simp add: reads_view(3) [OF ok(1)])
  note s = vgeometry_stored [OF ok(2) vg]
  obtain r where "stored ?v r (GeometryRecord g)" using s(1) by blast
  then have valid: "record_valid ?v r (GeometryRecord g)" by (rule known_valid [OF inv])
  have n: "0 < gv_version g" "gv_version g \<le> length (vw_geometries ?v (gv_id g))"
    using vg s(2,3) by (auto simp: vgeometry_def history_entry_def vec_get_def split: if_splits)
  have "case gv_predecessor g of None \<Rightarrow> gv_version g = 1
      | Some p \<Rightarrow> vr_record p = gv_id g \<and> Suc (vr_version p) = gv_version g \<and> (\<exists>g'. geometry_at c p k = Inr g')"
    using n s(4)
    by (auto simp: predecessor_of_def reads_view(3) [OF ok(1)] vgeometry_def history_entry_def vec_get_def)
  then show ?thesis
    using valid s(2,3) world_visible_read [OF ok(1)]
    by (auto simp: record_valid_def reads_view(2) [OF ok(1)])
qed

lemma observation_sound:
  assumes inv: "catalog_invariant H c" and obs: "observation_at c rid k = Inr obs"
  shows "po_id obs = rid
    \<and> (\<exists>n w. world_at c (VersionedRef (po_world obs) n) k = Inr w)
    \<and> (\<exists>f. frame_at c (po_frame obs) k = Inr f \<and> fd_world f = po_world obs
         \<and> profile_accepts (fd_profile f) (po_position obs))
    \<and> (case po_correction_of obs of
         None \<Rightarrow> True
       | Some p \<Rightarrow> \<exists>earlier previous. observation_at c p earlier = Inr previous
           \<and> observation_at c rid earlier = Inl SMissingObservation
           \<and> po_entity previous = po_entity obs \<and> po_world previous = po_world obs)"
proof -
  let ?v = "view_at k (view c)"
  have ok: "view_ok (view c)" "view_ok ?v" using inv by (simp_all add: catalog_invariant_def view_ok_at)
  obtain e where e: "vw_observations ?v rid = Some e" "entry_value e = obs"
    using obs by (auto simp: reads_view(4) [OF ok(1)])
  let ?r = "recorded_revision e"
  have st: "stored ?v ?r (Observation obs)" "po_id obs = rid"
    using stored_history(4) [OF ok(2) e(1)] e view_okD(5) [OF ok(2)] by (auto simp: events_ok_def)
  have at: "vw_observations (view c) rid = Some e"
    using e(1) by (auto simp: view_at_def known_observation_def split: option.splits if_splits)
  have "case po_correction_of obs of None \<Rightarrow> True
      | Some p \<Rightarrow> \<exists>earlier previous. observation_at c p earlier = Inr previous
           \<and> observation_at c rid earlier = Inl SMissingObservation
           \<and> po_entity previous = po_entity obs \<and> po_world previous = po_world obs"
  proof (cases "po_correction_of obs")
    case (Some p)
    then obtain d where d: "vw_observations ?v p = Some d" "revision_get (recorded_revision d) < revision_get ?r"
        "po_entity (entry_value d) = po_entity obs" "po_world (entry_value d) = po_world obs"
      using known_valid [OF inv st(1)] by (auto simp: record_valid_def)
    have "vw_observations (view c) p = Some d"
      using d(1) by (auto simp: view_at_def known_observation_def split: option.splits if_splits)
    then have "observation_at c p (recorded_revision d) = Inr (entry_value d)"
        "observation_at c rid (recorded_revision d) = Inl SMissingObservation"
      using at d(2) by (simp_all add: reads_view(4) [OF ok(1)] view_at_def known_observation_def)
    then show ?thesis using Some d(3,4) by auto
  qed simp
  then show ?thesis
    using known_valid [OF inv st(1)] st(2) world_visible_read [OF ok(1)]
    by (auto simp: record_valid_def reads_view(2) [OF ok(1)])
qed

section \<open>Later batches\<close>

lemma publish_view:
  assumes inv: "catalog_invariant H c" and prep: "prepare_batch H reserve c revision rs = Some (Inr b)"
    and pub: "publish_prepared c b = Some (outcomes, c')"
  obtains ins where "admits revision (view c) ins" "view c' = fold (add_record revision) ins (view c)"
    and "\<forall>r \<in> set rs. \<exists>k. stored (view c') k r" "view_ok (view c')"
    and "\<And>k x. stored (view c') k x \<Longrightarrow> revision_get k \<le> revision_get revision"
proof -
  obtain ins q where ins: "pb_inserted b = ins" "admits revision (view c) ins"
      "pview q = fold (add_record revision) ins (view c)" "view_ok (pview q)"
      "\<forall>r \<in> set rs. \<exists>k. stored (pview q) k r"
    by (rule prepare_batch_staged [OF inv prep])
  note base = prepare_batch_base [OF prep]
  have "catalog_ok c" using inv by (simp add: catalog_invariant_def)
  then have v: "view c' = pview q"
    using publish_records_view [of c revision ins] pub base(1,2) ins(1,3)
    by (auto simp: publish_prepared_eq view_def)
  moreover have "revision_get k \<le> revision_get revision" if "stored (view c') k x" for k x
    using that admits_stored [OF ins(2)] ins(3) v inv base(3)
    by (fastforce simp: catalog_invariant_def after_revision_def)
  ultimately show thesis using that [of ins] ins by simp
qed

text \<open>Reading a record back under its own identity and version.\<close>

definition readable :: "spatial_catalog \<Rightarrow> commit_revision \<Rightarrow> spatial_record \<Rightarrow> bool" where
  "readable c k x =
     (case x of
        World w \<Rightarrow> world_at c (VersionedRef (wd_id w) (wd_version w)) k = Inr w
      | Frame f \<Rightarrow> frame_at c (VersionedRef (fd_id f) (fd_version f)) k = Inr f
      | GeometryRecord g \<Rightarrow> geometry_at c (VersionedRef (gv_id g) (gv_version g)) k = Inr g
      | Observation obs \<Rightarrow> observation_at c (po_id obs) k = Inr obs)"

lemma history_entry_member:
  assumes "numbered version h" "HistoryEntry r x \<in> set h"
  shows "history_entry (Some h) (version x) = Some (HistoryEntry r x)"
proof -
  obtain i where "i < length h" "h ! i = HistoryEntry r x" using assms(2) by (auto simp: in_set_conv_nth)
  moreover from this have "version x = Suc i" using assms(1) by (auto simp: numbered_def)
  ultimately show ?thesis by (simp add: history_entry_def vec_get_def)
qed

lemma stored_readable:
  assumes ok: "view_ok (view c)" and x: "stored (view_at k (view c)) r x"
  shows "readable c k x"
proof -
  let ?v = "view_at k (view c)"
  have "numbered wd_version (vw_worlds ?v rid)" "numbered fd_version (vw_frames ?v rid)"
      "numbered gv_version (vw_geometries ?v rid)" for rid
    using view_okD(1-3) [OF view_ok_at [OF ok]]
    by (simp_all add: world_history_def frame_history_def geometry_history_def)
  then show ?thesis
    using x by (cases x) (simp_all add: readable_def stored_def reads_view [OF ok] vworld_def vframe_def
        vgeometry_def history_entry_member)
qed

section \<open>An example\<close>

definition example_hash :: "bytes \<Rightarrow> bytes" where
  "example_hash m = replicate 32 0"

definition example_root :: frame_definition where
  "example_root = \<lparr>fd_id = example_ref 4, fd_version = 1, fd_world = example_ref 3,
     fd_profile = CoordinateProfile LocalCartesian2, fd_parent = None\<rparr>"

definition example_child :: frame_definition where
  "example_child = \<lparr>fd_id = example_ref 5, fd_version = 1, fd_world = example_ref 3,
     fd_profile = CoordinateProfile LocalCartesian2,
     fd_parent = Some (FrameParent (VersionedRef (example_ref 4) 1) (VersionedRef (example_ref 6) 1))\<rparr>"

definition example_point :: geometry_version where
  "example_point = \<lparr>gv_id = example_ref 7, gv_version = 1, gv_world = example_ref 3,
     gv_frame = VersionedRef (example_ref 5) 1, gv_geometry = GLocalPoint2 (LocalPoint2 0 0),
     gv_precision = PositionUnknown, gv_predecessor = None\<rparr>"

definition example_batch :: "spatial_record list" where
  "example_batch = [example_world, Frame example_root, Frame example_child, GeometryRecord example_point]"

lemma example_refs_distinct: "example_ref m = example_ref n \<longleftrightarrow> m = n"
  by (simp add: example_ref_def)

lemma example_scope: "rr_scope (example_ref n) = NamespaceRef (replicate 16 1) (replicate 16 2)"
  by (simp add: example_ref_def)

lemma example_batch_ok: "\<forall>r \<in> set example_batch. record_ok r"
  using example_world_ok
  by (simp add: example_batch_def example_root_def example_child_def example_point_def frame_ok_def
      geometry_version_ok_def parent_ok_def versioned_ok_def version_ok_def usize_max_def example_ref_ok(1)
      frame_new_iff geometry_version_new_iff fd_kind_def example_refs_distinct example_scope
      local2_ok_def i128_ok_def)

lemma example_batch_admitted:
  "\<exists>c. apply_batch example_hash granting (CommitRevision 1) example_batch catalog_new = Some (Inr [], c)"
proof -
  let ?r = "CommitRevision 1"
  have enc: "\<forall>r \<in> set example_batch. encode_record granting r = Inr (record_bytes r)"
      "\<forall>r \<in> set example_batch. record_weight r \<le> 5410038"
    using encode_record_total example_batch_ok by (fastforce simp: record_bytes_def record_weight_def)+
  have empty: "view catalog_new = \<lparr>vw_worlds = \<lambda>_. [], vw_frames = \<lambda>_. [], vw_geometries = \<lambda>_. [],
      vw_observations = \<lambda>_. None, vw_events = \<lambda>_. None\<rparr>"
    by (simp add: view_def catalog_new_def fun_eq_iff)
  have admits: "admits ?r (view catalog_new) example_batch"
    by (simp add: example_batch_def example_world_def example_root_def example_child_def example_point_def
        empty admissible_def add_record_def vcategory_def example_refs_distinct predecessor_of_def)
  have depth: "rooted MAX_FRAME_DEPTH = rooted (Suc (MAX_FRAME_DEPTH - 1))" by (simp add: MAX_FRAME_DEPTH_def)
  have valid: "\<forall>r \<in> set example_batch. record_valid (fold (add_record ?r) example_batch (view catalog_new)) ?r r"
    by (simp add: example_batch_def example_world_def example_root_def example_child_def example_point_def
        empty add_record_def record_valid_def frame_valid_def vlatest_def vec_last_def vframe_def
        history_entry_def vec_get_def fd_kind_def example_refs_distinct depth)
  have "log_bytes (map (Pair ?r) example_batch) \<le> 4 * 5410038"
    using enc(2) unfolding log_bytes_def example_batch_def by simp
  then obtain b where b: "prepare_batch example_hash granting catalog_new ?r example_batch = Some (Inr b)"
    using prepare_batch_total [of catalog_new example_hash ?r example_batch] catalog_new_invariant [of example_hash]
      catalog_new_view admits valid example_batch_ok enc(1)
    by (auto simp: catalog_invariant_def catalog_new_def after_revision_def spatial_limits example_batch_def)
  have "pb_outcomes b = []"
    using prepare_batch_base(4) [OF b] by (simp add: example_batch_def is_observation_def example_world_def)
  then show ?thesis
    using b publish_prepared_eq [OF prepare_batch_base(1) [OF b]] by (simp add: apply_batch_def)
qed

lemma example_reachable:
  obtains c where "reachable_catalog example_hash c"
    and "apply_batch example_hash granting (CommitRevision 1) example_batch catalog_new = Some (Inr [], c)"
    and "\<forall>x \<in> set example_batch. readable c (CommitRevision 1) x"
proof -
  obtain c where c: "apply_batch example_hash granting (CommitRevision 1) example_batch catalog_new = Some (Inr [], c)"
    using example_batch_admitted by blast
  have r: "revision_ok (CommitRevision 1)" by (simp add: revision_ok_def usize_max_def)
  then obtain b where b: "prepare_batch example_hash granting catalog_new (CommitRevision 1) example_batch = Some (Inr b)"
      "publish_prepared catalog_new b = Some ([], c)" using c by (auto simp: apply_batch_iff)
  from publish_view [OF catalog_new_invariant b]
  have v: "view_ok (view c)" "\<forall>x \<in> set example_batch. \<exists>k. stored (view_at (CommitRevision 1) (view c)) k x"
    by (metis, metis stored_at)
  show thesis
    using that [OF reachable_catalog.batch [OF reachable_catalog.new example_batch_ok r c] c]
      stored_readable [OF v(1)] v(2) by blast
qed

section \<open>Properties\<close>

text \<open>
  C27.  Frames in every catalog that batches build: a frame version that is read at a revision has,
  at that revision, a chain of exact parent versions in its own world that ends in a frame without
  parent, namely the root frame of the world; no frame occurs twice and there are at most 32
  ancestors.
\<close>

theorem catalog_frames_rooted:
  assumes "reachable_catalog H c" "frame_at c reference k = Inr f"
  shows "fd_id f = vr_record reference \<and> fd_version f = vr_version reference
    \<and> (\<exists>n w gs. world_at c (VersionedRef (fd_world f) n) k = Inr w \<and> ancestry c k f gs
        \<and> length gs \<le> 32 \<and> distinct (map fd_id (f # gs))
        \<and> fd_id (last (f # gs)) = vr_record (wd_root_frame w))"
  using frame_sound [OF reachable_ok(1) [OF assms(1)] assms(2)] unfolding MAX_FRAME_DEPTH_def .

theorem catalog_frames_rooted_witness:
  "\<exists>c n w gs. frame_at c (VersionedRef (example_ref 5) 1) (CommitRevision 1) = Inr example_child
     \<and> world_at c (VersionedRef (example_ref 3) n) (CommitRevision 1) = Inr w
     \<and> ancestry c (CommitRevision 1) example_child gs \<and> length gs \<le> 32"
proof -
  obtain c where c: "reachable_catalog example_hash c" "\<forall>x \<in> set example_batch. readable c (CommitRevision 1) x"
    by (rule example_reachable)
  then have f: "frame_at c (VersionedRef (example_ref 5) 1) (CommitRevision 1) = Inr example_child"
    by (simp add: example_batch_def readable_def example_child_def)
  then show ?thesis using catalog_frames_rooted [OF c(1) f] by (auto simp: example_child_def)
qed

text \<open>
  C28.  References resolve at the revision of the reader.  The root frame of a world is there, in
  that world and without parent.  A geometry lies in a frame of its world with a coordinate system
  that can express it, and its predecessor is the version before it.  An observation lies in a
  suitable frame of its world, and what it corrects is an observation of the same entity and world
  that was known before it.
\<close>

theorem catalog_references_resolve:
  assumes "reachable_catalog H c"
  shows "(\<forall>reference k w. world_at c reference k = Inr w \<longrightarrow>
      wd_id w = vr_record reference \<and> wd_version w = vr_version reference
      \<and> (\<exists>root. frame_at c (wd_root_frame w) k = Inr root \<and> fd_world root = wd_id w \<and> fd_parent root = None))
    \<and> (\<forall>reference k g. geometry_at c reference k = Inr g \<longrightarrow>
      gv_id g = vr_record reference \<and> gv_version g = vr_version reference
      \<and> (\<exists>n w. world_at c (VersionedRef (gv_world g) n) k = Inr w)
      \<and> (\<exists>f. frame_at c (gv_frame g) k = Inr f \<and> fd_world f = gv_world g
           \<and> accepts_geometry (fd_kind f) (gv_geometry g))
      \<and> (case gv_predecessor g of
           None \<Rightarrow> gv_version g = 1
         | Some p \<Rightarrow> vr_record p = gv_id g \<and> Suc (vr_version p) = gv_version g
             \<and> (\<exists>g'. geometry_at c p k = Inr g')))
    \<and> (\<forall>rid k obs. observation_at c rid k = Inr obs \<longrightarrow>
      po_id obs = rid
      \<and> (\<exists>n w. world_at c (VersionedRef (po_world obs) n) k = Inr w)
      \<and> (\<exists>f. frame_at c (po_frame obs) k = Inr f \<and> fd_world f = po_world obs
           \<and> profile_accepts (fd_profile f) (po_position obs))
      \<and> (case po_correction_of obs of
           None \<Rightarrow> True
         | Some p \<Rightarrow> \<exists>earlier previous. observation_at c p earlier = Inr previous
             \<and> observation_at c rid earlier = Inl SMissingObservation
             \<and> po_entity previous = po_entity obs \<and> po_world previous = po_world obs))"
proof -
  note inv = reachable_ok(1) [OF assms]
  show ?thesis
    by (rule conjI [OF _ conjI]; intro allI impI;
        rule world_sound [OF inv] geometry_sound [OF inv] observation_sound [OF inv]; assumption)
qed

theorem catalog_references_resolve_witness:
  "\<exists>c f. geometry_at c (VersionedRef (example_ref 7) 1) (CommitRevision 1) = Inr example_point
     \<and> frame_at c (gv_frame example_point) (CommitRevision 1) = Inr f \<and> fd_world f = gv_world example_point"
proof -
  obtain c where c: "reachable_catalog example_hash c" "\<forall>x \<in> set example_batch. readable c (CommitRevision 1) x"
    by (rule example_reachable)
  then have g: "geometry_at c (VersionedRef (example_ref 7) 1) (CommitRevision 1) = Inr example_point"
    by (simp add: example_batch_def readable_def example_point_def)
  then show ?thesis using catalog_references_resolve [OF c(1)] by blast
qed

text \<open>
  C29.  An admitted batch is visible from its revision on and not before: every record of the batch
  is read back exactly at the revision, and every read at an earlier revision answers what it
  answered without the batch.
\<close>

theorem batch_visibility:
  assumes "reachable_catalog H c" "apply_batch H reserve revision records c = Some (Inr outcomes, c')"
  shows "(\<forall>x \<in> set records. readable c' revision x)
    \<and> (\<forall>k. revision_get k < revision_get revision \<longrightarrow>
        world_at c' reference k = world_at c reference k \<and> frame_at c' reference k = frame_at c reference k
        \<and> geometry_at c' reference k = geometry_at c reference k
        \<and> observation_at c' rid k = observation_at c rid k)"
proof -
  have ok: "view_ok (view c)" using reachable_ok [OF assms(1)] by simp
  obtain b where b: "prepare_batch H reserve c revision records = Some (Inr b)"
      "publish_prepared c b = Some (outcomes, c')" using assms(2) by (auto simp: apply_batch_iff)
  obtain ins where ins: "admits revision (view c) ins" "view c' = fold (add_record revision) ins (view c)"
      "\<forall>r \<in> set records. \<exists>k. stored (view c') k r" "view_ok (view c')"
      "\<And>k x. stored (view c') k x \<Longrightarrow> revision_get k \<le> revision_get revision"
    by (rule publish_view [OF reachable_ok(1) [OF assms(1)] b]) blast
  have "readable c' revision x" if "x \<in> set records" for x
    using ins(3,5) that stored_at stored_readable [OF ins(4)] by blast
  moreover have "view_at k (view c') = view_at k (view c)" if "revision_get k < revision_get revision" for k
    using view_at_admits [OF ins(1) that] ins(2) by simp
  ultimately show ?thesis by (simp add: reads_view [OF ok] reads_view [OF ins(4)])
qed

theorem batch_visibility_witness:
  "\<exists>c. apply_batch example_hash granting (CommitRevision 1) example_batch catalog_new = Some (Inr [], c)
     \<and> (\<forall>x \<in> set example_batch. readable c (CommitRevision 1) x)"
  using batch_visibility [OF reachable_catalog.new] example_batch_admitted by blast

end
