(* ===== verification/Key_Bits.thy ===== *)
theory Key_Bits
  imports Prelude
begin

text \<open>
  The bit view of index keys in \<open>uste-storage/src/ordered_commitment.rs\<close>: nine positions per
  byte, a presence bit and the eight bits from the most significant one, and the first position
  at which two keys differ.  The bit string determines the key, and comparing bit strings is
  comparing keys in byte order.
\<close>

definition key_bit :: "bytes \<Rightarrow> nat \<Rightarrow> bool" where
  "key_bit key position =
     (let byte = position div 9; offset = position mod 9 in
      byte < length key \<and> (offset = 0 \<or> key ! byte AND push_bit (8 - offset) 1 \<noteq> 0))"

definition leading_zeros :: "u8 \<Rightarrow> nat" where
  "leading_zeros w = length (takeWhile (\<lambda>i. \<not> bit w i) [7, 6, 5, 4, 3, 2, 1, 0])"

fun difference_from :: "nat \<Rightarrow> bytes \<Rightarrow> bytes \<Rightarrow> nat option" where
  "difference_from index (left # a) (right # b) =
     (if left \<noteq> right then Some (index * 9 + 1 + leading_zeros (left XOR right))
      else difference_from (Suc index) a b)"
| "difference_from index a b = None"

definition first_difference :: "bytes \<Rightarrow> bytes \<Rightarrow> nat option" where
  "first_difference a b =
     (case difference_from 0 a b of
        Some d \<Rightarrow> Some d
      | None \<Rightarrow> if length a \<noteq> length b then Some (min (length a) (length b) * 9) else None)"

subsection \<open>Bits of a key\<close>

lemma key_bit_Nil [simp]: "key_bit [] p = False"
  by (simp add: key_bit_def Let_def)

lemma and_bit_iff: "(x AND 2 ^ i = 0) \<longleftrightarrow> \<not> bit x i" for x :: u8
  by (rule and_exp_eq_0_iff_not_bit)

lemma key_bit_Cons:
  "key_bit (x # xs) p \<longleftrightarrow> (if p < 9 then p = 0 \<or> bit x (8 - p) else key_bit xs (p - 9))"
proof (cases "p < 9")
  case False
  then have "p div 9 = Suc ((p - 9) div 9)" "p mod 9 = (p - 9) mod 9"
    by (simp_all add: le_div_geq le_mod_geq not_less)
  with False show ?thesis by (simp add: key_bit_def Let_def)
qed (auto simp: key_bit_def Let_def and_bit_iff)

lemma key_bit_bound: "key_bit k p \<Longrightarrow> p < 9 * length k"
  by (auto simp: key_bit_def Let_def)

lemma key_bit_presence: "key_bit k (9 * i) \<longleftrightarrow> i < length k"
  by (simp add: key_bit_def Let_def)

subsection \<open>The first difference\<close>

lemma takeWhile_shorter: "x \<in> set xs \<Longrightarrow> \<not> P x \<Longrightarrow> length (takeWhile P xs) < length xs"
  by (induction xs) auto

lemma leading_zeros_xor:
  assumes "x \<noteq> y"
  shows "leading_zeros (x XOR y) < 8"
    and "bit x (7 - leading_zeros (x XOR y)) \<noteq> bit y (7 - leading_zeros (x XOR y))"
    and "i < leading_zeros (x XOR y) \<Longrightarrow> bit x (7 - i) = bit y (7 - i)"
proof -
  let ?l = "[7, 6, 5, 4, 3, 2, 1, 0] :: nat list" and ?P = "\<lambda>i. \<not> bit (x XOR y) i"
  have nth: "j < 8 \<Longrightarrow> ?l ! j = 7 - j" for j
    by (auto simp: less_Suc_eq numeral_eq_Suc)
  obtain j where j: "bit x j \<noteq> bit y j" using assms by (auto simp: bit_eq_iff)
  then have "j < 8" using bit_imp_le_length [of x j] bit_imp_le_length [of y j] by auto
  then have "j \<in> set ?l" by (auto simp: less_Suc_eq numeral_eq_Suc)
  then show lt: "leading_zeros (x XOR y) < 8"
    using takeWhile_shorter [of j ?l ?P] j by (simp add: leading_zeros_def bit_xor_iff)
  show "bit x (7 - leading_zeros (x XOR y)) \<noteq> bit y (7 - leading_zeros (x XOR y))"
    using nth_length_takeWhile [of ?P ?l] lt nth [OF lt]
    by (auto simp: leading_zeros_def bit_xor_iff)
  show "bit x (7 - i) = bit y (7 - i)" if "i < leading_zeros (x XOR y)"
  proof -
    have "takeWhile ?P ?l ! i \<in> set (takeWhile ?P ?l)"
      using that by (intro nth_mem) (simp add: leading_zeros_def)
    then have "?P (takeWhile ?P ?l ! i)" by (rule set_takeWhileD [THEN conjunct2])
    moreover have "takeWhile ?P ?l ! i = 7 - i"
      using takeWhile_nth [of i ?P ?l] that lt nth [of i] by (simp add: leading_zeros_def)
    ultimately show ?thesis by (simp add: bit_xor_iff)
  qed
qed

lemma half_less: "a div 2 = b div 2 \<Longrightarrow> even a \<Longrightarrow> odd b \<Longrightarrow> a < b" for a b :: nat
  by presburger

text \<open>The most significant differing bit decides the order of two bytes.\<close>

lemma byte_less_iff_bit:
  assumes "x \<noteq> y"
  shows "x < y \<longleftrightarrow> bit y (7 - leading_zeros (x XOR y))"
proof -
  let ?i = "7 - leading_zeros (x XOR y)"
  have high: "bit u j = bit v j"
    if "u = x \<and> v = y \<or> u = y \<and> v = x" "?i < j" for u v j
  proof (cases "j < 8")
    case True
    then have "7 - j < leading_zeros (x XOR y)" "7 - (7 - j) = j"
      using that(2) leading_zeros_xor(1) [OF assms] by auto
    then show ?thesis using leading_zeros_xor(3) [OF assms, of "7 - j"] that(1) by auto
  next
    case False
    then show ?thesis using bit_imp_le_length [of u j] bit_imp_le_length [of v j] by auto
  qed
  have less: "u < v" if uv: "u = x \<and> v = y \<or> u = y \<and> v = x" and b: "\<not> bit u ?i" "bit v ?i" for u v
  proof -
    have "drop_bit (Suc ?i) u = drop_bit (Suc ?i) v"
      by (rule bit_eqI) (simp add: bit_drop_bit_eq high [OF uv])
    then have "drop_bit (Suc ?i) (unat u) = drop_bit (Suc ?i) (unat v)"
      by (metis unat_drop_bit_eq)
    then have "unat u div 2 ^ ?i div 2 = unat v div 2 ^ ?i div 2"
      unfolding drop_bit_eq_div power_Suc2 div_mult2_eq .
    moreover have "even (unat u div 2 ^ ?i)" "odd (unat v div 2 ^ ?i)"
      using b bit_iff_odd [of "unat u" ?i] bit_iff_odd [of "unat v" ?i] by (simp_all add: bit_unsigned_iff)
    ultimately have "unat u div 2 ^ ?i < unat v div 2 ^ ?i" by (rule half_less)
    then show ?thesis
      using div_le_mono [of "unat v" "unat u" "2 ^ ?i"] by (auto simp: word_less_nat_alt not_less [symmetric])
  qed
  show ?thesis
    using less [of x y] less [of y x] leading_zeros_xor(2) [OF assms] by (metis order.asym)
qed

lemma difference_from_Suc:
  "difference_from (Suc i) a b = map_option (\<lambda>d. d + 9) (difference_from i a b)"
  by (induction i a b rule: difference_from.induct) auto

lemma first_difference_simps [simp]:
  "first_difference [] [] = None"
  "first_difference [] (y # b) = Some 0"
  "first_difference (x # a) [] = Some 0"
  by (simp_all add: first_difference_def)

lemma first_difference_Cons:
  "first_difference (x # a) (y # b) =
     (if x \<noteq> y then Some (1 + leading_zeros (x XOR y))
      else map_option (\<lambda>d. d + 9) (first_difference a b))"
  by (auto simp: first_difference_def difference_from_Suc split: option.splits)

lemma first_difference_None: "first_difference a b = None \<longleftrightarrow> a = b"
proof (induction a arbitrary: b)
  case Nil
  then show ?case by (cases b) auto
next
  case (Cons x a)
  then show ?case by (cases b) (auto simp: first_difference_Cons)
qed

lemma first_difference_Some:
  "first_difference a b = Some d \<Longrightarrow>
     key_bit a d \<noteq> key_bit b d \<and> (\<forall>p < d. key_bit a p = key_bit b p) \<and> d \<le> 9 * length a \<and> d \<le> 9 * length b"
proof (induction a arbitrary: b d)
  case Nil
  then show ?case by (cases b) (auto simp: key_bit_Cons)
next
  case (Cons x a)
  show ?case
  proof (cases b)
    case Nil
    then show ?thesis using Cons.prems by (auto simp: key_bit_Cons)
  next
    case (Cons y c)
    show ?thesis
    proof (cases "x = y")
      case True
      then obtain e where e: "first_difference a c = Some e" "d = e + 9"
        using Cons.prems Cons by (auto simp: first_difference_Cons)
      have ih: "key_bit a e \<noteq> key_bit c e" "\<And>p. p < e \<Longrightarrow> key_bit a p = key_bit c p"
          "e \<le> 9 * length a" "e \<le> 9 * length c"
        using Cons.IH [OF e(1)] by blast+
      have "key_bit (x # a) p = key_bit (y # c) p" if "p < d" for p
        using that ih(2) [of "p - 9"] e(2) True by (auto simp: key_bit_Cons)
      then show ?thesis using ih(1,3,4) e(2) True Cons by (simp add: key_bit_Cons)
    next
      case False
      note z = leading_zeros_xor [OF False]
      have d: "d = 1 + leading_zeros (x XOR y)"
        using False Cons.prems Cons by (simp add: first_difference_Cons)
      have "key_bit (x # a) p = key_bit (y # c) p" if "p < d" for p
      proof (cases p)
        case (Suc i)
        then show ?thesis using z(3) [of i] z(1) that d by (simp add: key_bit_Cons)
      qed (simp add: key_bit_Cons)
      moreover have "key_bit (x # a) d \<noteq> key_bit (y # c) d"
        using z(1,2) d by (simp add: key_bit_Cons)
      ultimately show ?thesis using d z(1) Cons by simp
    qed
  qed
qed

text \<open>Keys are their bits.\<close>

lemma key_bit_ext: "(\<And>p. key_bit a p = key_bit b p) \<Longrightarrow> a = b"
  using first_difference_Some [of a b] by (cases "first_difference a b") (auto simp: first_difference_None)

lemma first_difference_unique:
  assumes "key_bit a d \<noteq> key_bit b d" "\<forall>p < d. key_bit a p = key_bit b p"
  shows "first_difference a b = Some d"
proof (cases "first_difference a b")
  case None
  then show ?thesis using assms(1) by (simp add: first_difference_None)
next
  case (Some e)
  then show ?thesis
    using first_difference_Some [OF Some] assms by (metis linorder_neqE_nat)
qed

text \<open>The bit at the first difference decides the byte order of the keys.\<close>

lemma key_less_iff_bit:
  assumes "first_difference a b = Some d"
  shows "a < b \<longleftrightarrow> key_bit b d"
  using assms
proof (induction a arbitrary: b d)
  case Nil
  then show ?case by (cases b) (auto simp: key_bit_Cons)
next
  case (Cons x a)
  show ?case
  proof (cases b)
    case Nil
    then show ?thesis using Cons.prems by (auto simp: key_bit_Cons)
  next
    case (Cons y c)
    show ?thesis
    proof (cases "x = y")
      case True
      then obtain e where "first_difference a c = Some e" "d = e + 9"
        using Cons.prems Cons by (auto simp: first_difference_Cons)
      then show ?thesis using Cons.IH True Cons by (simp add: key_bit_Cons)
    next
      case False
      have d: "d = 1 + leading_zeros (x XOR y)"
        using False Cons.prems Cons by (simp add: first_difference_Cons)
      have "x < y \<longleftrightarrow> bit y (7 - leading_zeros (x XOR y))"
        using False by (rule byte_less_iff_bit)
      then show ?thesis
        using False d leading_zeros_xor(1) [OF False] Cons by (simp add: key_bit_Cons)
    qed
  qed
qed

end
