(* ===== verification/Ordered_Commitment.thy ===== *)
theory Ordered_Commitment
  imports Identity Key_Bits
begin

text \<open>
  The ordered content commitments of \<open>uste-storage/src/ordered_commitment.rs\<close>: leaf, branch and
  empty commitments, lookup proofs, and the computation of the root after one change.  The hash
  function \<open>H\<close> is an argument of every definition (\<open>sha2::Sha256\<close>: \<open>update\<close> appends to the
  message, \<open>finalize\<close> applies \<open>H\<close> to it).
\<close>

definition MAX_KEY_BYTES :: nat where "MAX_KEY_BYTES = 4096"
definition MAX_VALUE_BYTES :: nat where "MAX_VALUE_BYTES = 16 * 1024 * 1024"
definition MAX_ENTRIES :: nat where "MAX_ENTRIES = 1000000000"
definition MAX_BRANCH_BITS :: nat where "MAX_BRANCH_BITS = 9 * MAX_KEY_BYTES"
definition MAX_PROOF_INPUT_BYTES :: nat where "MAX_PROOF_INPUT_BYTES = 64 * 1024 * 1024"

text \<open>\<open>b"USTE-ORDERED-COMMITMENT-V1\0"\<close> and \<open>b"USTE-ORDERED-COMMITMENT-VALUE-V1\0"\<close>.\<close>

definition NODE_DOMAIN :: bytes where
  "NODE_DOMAIN =
     [0x55, 0x53, 0x54, 0x45, 0x2d, 0x4f, 0x52, 0x44, 0x45, 0x52, 0x45, 0x44, 0x2d, 0x43, 0x4f, 0x4d,
      0x4d, 0x49, 0x54, 0x4d, 0x45, 0x4e, 0x54, 0x2d, 0x56, 0x31, 0]"

definition VALUE_DOMAIN :: bytes where
  "VALUE_DOMAIN =
     [0x55, 0x53, 0x54, 0x45, 0x2d, 0x4f, 0x52, 0x44, 0x45, 0x52, 0x45, 0x44, 0x2d, 0x43, 0x4f, 0x4d,
      0x4d, 0x49, 0x54, 0x4d, 0x45, 0x4e, 0x54, 0x2d, 0x56, 0x41, 0x4c, 0x55, 0x45, 0x2d, 0x56, 0x31, 0]"

datatype commitment_error = CInvalidProof | CConflict | CResourceLimit

record commitment_context =
  ctx_scope :: namespace_ref
  ctx_profile :: bytes
  ctx_family :: u8

definition context_new :: "namespace_ref \<Rightarrow> bytes \<Rightarrow> u8 \<Rightarrow> commitment_error + commitment_context" where
  "context_new scope profile family =
     (if family = 0 then Inl CInvalidProof
      else Inr \<lparr>ctx_scope = scope, ctx_profile = profile, ctx_family = family\<rparr>)"

definition hasher :: "commitment_context \<Rightarrow> u8 \<Rightarrow> bytes" where
  "hasher ctx kind =
     NODE_DOMAIN @ ns_database (ctx_scope ctx) @ ns_namespace (ctx_scope ctx) @ ctx_profile ctx
       @ [ctx_family ctx, kind]"

record commitment =
  c_entries :: nat
  c_logical_bytes :: nat
  c_digest :: bytes

definition claimed_nonempty :: "nat \<Rightarrow> nat \<Rightarrow> bytes \<Rightarrow> commitment_error + commitment" where
  "claimed_nonempty entries logical_bytes digest =
     (if entries = 0 \<or> entries > MAX_ENTRIES \<or> logical_bytes < entries
         \<or> logical_bytes > entries * (MAX_KEY_BYTES + MAX_VALUE_BYTES)
      then Inl CInvalidProof
      else Inr \<lparr>c_entries = entries, c_logical_bytes = logical_bytes, c_digest = digest\<rparr>)"

definition feed :: "commitment \<Rightarrow> bytes" where
  "feed c = be_bytes 8 (c_entries c) @ be_bytes 8 (c_logical_bytes c) @ c_digest c"

record value_commitment =
  vc_length :: nat
  vc_digest :: bytes

record leaf_proof =
  lp_key :: bytes
  lp_value :: value_commitment

record branch_proof =
  bp_bit :: nat
  bp_sibling :: commitment

record lookup_proof =
  lk_leaf :: "leaf_proof option"
  lk_branches :: "branch_proof list"

record commitment_limits =
  maximum_branches :: nat
  maximum_input_bytes :: nat

definition key_valid :: "bytes \<Rightarrow> commitment_error + unit" where
  "key_valid key =
     (if key = [] then Inl CInvalidProof
      else if MAX_KEY_BYTES < length key then Inl CResourceLimit
      else Inr ())"

definition value_commitment_of :: "(bytes \<Rightarrow> bytes) \<Rightarrow> bytes \<Rightarrow> commitment_error + value_commitment" where
  "value_commitment_of H v =
     (if MAX_VALUE_BYTES < length v then Inl CResourceLimit
      else Inr \<lparr>vc_length = length v, vc_digest = H (VALUE_DOMAIN @ be_bytes 8 (length v) @ v)\<rparr>)"

subsection \<open>The streaming counterpart\<close>

record value_stream =
  vs_hash :: bytes
  vs_length :: nat
  vs_remaining :: nat
  vs_failed :: bool

definition value_stream_new :: "nat \<Rightarrow> commitment_error + value_stream" where
  "value_stream_new len =
     (if MAX_VALUE_BYTES < len then Inl CResourceLimit
      else Inr \<lparr>vs_hash = VALUE_DOMAIN @ be_bytes 8 len, vs_length = len, vs_remaining = len,
                vs_failed = False\<rparr>)"

definition value_stream_update :: "bytes \<Rightarrow> value_stream \<Rightarrow> (commitment_error + unit) \<times> value_stream" where
  "value_stream_update bs s =
     (if vs_failed s \<or> vs_remaining s < length bs then (Inl CInvalidProof, s\<lparr>vs_failed := True\<rparr>)
      else (Inr (), s\<lparr>vs_hash := vs_hash s @ bs, vs_remaining := vs_remaining s - length bs\<rparr>))"

definition value_stream_finish :: "(bytes \<Rightarrow> bytes) \<Rightarrow> value_stream \<Rightarrow> commitment_error + value_commitment" where
  "value_stream_finish H s =
     (if vs_failed s \<or> vs_remaining s \<noteq> 0 then Inl CInvalidProof
      else Inr \<lparr>vc_length = vs_length s, vc_digest = H (vs_hash s)\<rparr>)"

subsection \<open>Node commitments\<close>

definition empty_commitment :: "(bytes \<Rightarrow> bytes) \<Rightarrow> commitment_context \<Rightarrow> commitment" where
  "empty_commitment H ctx =
     \<lparr>c_entries = 0, c_logical_bytes = 0, c_digest = H (hasher ctx 0)\<rparr>"

definition leaf_message :: "commitment_context \<Rightarrow> leaf_proof \<Rightarrow> bytes" where
  "leaf_message ctx leaf =
     hasher ctx 1 @ be_bytes 4 (length (lp_key leaf)) @ lp_key leaf
       @ be_bytes 8 (vc_length (lp_value leaf)) @ vc_digest (lp_value leaf)"

definition leaf_commitment ::
  "(bytes \<Rightarrow> bytes) \<Rightarrow> commitment_context \<Rightarrow> leaf_proof \<Rightarrow> commitment_error + commitment" where
  "leaf_commitment H ctx leaf =
     rbind (key_valid (lp_key leaf)) (\<lambda>_.
     rbind (ensure (vc_length (lp_value leaf) \<le> MAX_VALUE_BYTES) CResourceLimit) (\<lambda>_.
     Inr \<lparr>c_entries = 1, c_logical_bytes = length (lp_key leaf) + vc_length (lp_value leaf),
          c_digest = H (leaf_message ctx leaf)\<rparr>))"

definition branch_message :: "commitment_context \<Rightarrow> nat \<Rightarrow> commitment \<Rightarrow> commitment \<Rightarrow> bytes" where
  "branch_message ctx b left right = hasher ctx 2 @ be_bytes 4 b @ feed left @ feed right"

definition branch_commitment ::
  "(bytes \<Rightarrow> bytes) \<Rightarrow> commitment_context \<Rightarrow> nat \<Rightarrow> commitment \<Rightarrow> commitment \<Rightarrow>
   commitment_error + commitment" where
  "branch_commitment H ctx b left right =
     rbind (ensure (\<not> (b \<ge> MAX_BRANCH_BITS \<or> c_entries left = 0 \<or> c_entries right = 0)) CInvalidProof) (\<lambda>_.
     rbind (ok_or (checked_add (c_entries left) (c_entries right)) CResourceLimit) (\<lambda>entries.
     rbind (ensure (entries \<le> MAX_ENTRIES) CResourceLimit) (\<lambda>_.
     rbind (ok_or (checked_add (c_logical_bytes left) (c_logical_bytes right)) CResourceLimit)
       (\<lambda>logical_bytes.
     Inr \<lparr>c_entries = entries, c_logical_bytes = logical_bytes,
          c_digest = H (branch_message ctx b left right)\<rparr>))))"

subsection \<open>Proofs\<close>

text \<open>\<open>fold\<close> walks the path from its last step back to the root.\<close>

definition fold_path ::
  "(bytes \<Rightarrow> bytes) \<Rightarrow> commitment_context \<Rightarrow> bytes \<Rightarrow> commitment \<Rightarrow> branch_proof list \<Rightarrow>
   commitment_error + commitment" where
  "fold_path H ctx key child path =
     rfold (\<lambda>step child.
       if key_bit key (bp_bit step) then branch_commitment H ctx (bp_bit step) (bp_sibling step) child
       else branch_commitment H ctx (bp_bit step) child (bp_sibling step)) (rev path) child"

definition admit ::
  "bytes \<Rightarrow> lookup_proof \<Rightarrow> commitment_limits \<Rightarrow> nat \<Rightarrow> commitment_error + unit" where
  "admit key proof_in limits extra_bytes =
     rbind (key_valid key) (\<lambda>_.
     rbind (ensure (\<not> (maximum_branches limits > MAX_BRANCH_BITS
         \<or> length (lk_branches proof_in) > maximum_branches limits
         \<or> maximum_input_bytes limits > MAX_PROOF_INPUT_BYTES)) CResourceLimit) (\<lambda>_.
     rbind (ok_or (checked_mul (length (lk_branches proof_in)) 52) CResourceLimit) (\<lambda>n.
     rbind (ok_or (checked_add n (length key)) CResourceLimit) (\<lambda>n.
     rbind (ok_or (checked_add n extra_bytes) CResourceLimit) (\<lambda>bytes.
     rbind
       (case lk_leaf proof_in of
          None \<Rightarrow> Inr bytes
        | Some leaf \<Rightarrow>
            rbind (key_valid (lp_key leaf)) (\<lambda>_.
            rbind (ensure (vc_length (lp_value leaf) \<le> MAX_VALUE_BYTES) CResourceLimit) (\<lambda>_.
            ok_or (checked_add bytes (length (lp_key leaf) + 40)) CResourceLimit))) (\<lambda>bytes.
     ensure (bytes \<le> maximum_input_bytes limits) CResourceLimit))))))"

fun validate_route_from ::
  "nat option \<Rightarrow> bytes \<Rightarrow> leaf_proof \<Rightarrow> branch_proof list \<Rightarrow> commitment_error + unit" where
  "validate_route_from previous key leaf [] = Inr ()"
| "validate_route_from previous key leaf (step # branches) =
     (if (case previous of None \<Rightarrow> False | Some prior \<Rightarrow> prior \<ge> bp_bit step)
         \<or> bp_bit step > length (lp_key leaf) * 9
         \<or> key_bit key (bp_bit step) \<noteq> key_bit (lp_key leaf) (bp_bit step)
      then Inl CInvalidProof
      else validate_route_from (Some (bp_bit step)) key leaf branches)"

definition validate_route :: "bytes \<Rightarrow> leaf_proof \<Rightarrow> branch_proof list \<Rightarrow> commitment_error + unit" where
  "validate_route key leaf branches = validate_route_from None key leaf branches"

definition validate_lookup_route ::
  "bytes \<Rightarrow> leaf_proof \<Rightarrow> branch_proof list \<Rightarrow> commitment_limits \<Rightarrow> commitment_error + unit" where
  "validate_lookup_route key leaf branches limits =
     rbind (admit key \<lparr>lk_leaf = Some leaf, lk_branches = branches\<rparr> limits 0) (\<lambda>_.
     validate_route key leaf branches)"

definition verify ::
  "(bytes \<Rightarrow> bytes) \<Rightarrow> commitment_context \<Rightarrow> commitment \<Rightarrow> bytes \<Rightarrow> lookup_proof \<Rightarrow>
   commitment_error + value_commitment option" where
  "verify H ctx expected key proof_in =
     (case lk_leaf proof_in of
        None \<Rightarrow>
          if lk_branches proof_in = [] \<and> expected = empty_commitment H ctx then Inr None
          else Inl CInvalidProof
      | Some leaf \<Rightarrow>
          rbind (validate_route key leaf (lk_branches proof_in)) (\<lambda>_.
          rbind (leaf_commitment H ctx leaf) (\<lambda>child.
          rbind (fold_path H ctx key child (lk_branches proof_in)) (\<lambda>root.
          rbind (ensure (root = expected) CInvalidProof) (\<lambda>_.
          Inr (if lp_key leaf = key then Some (lp_value leaf) else None))))))"

definition verify_lookup ::
  "(bytes \<Rightarrow> bytes) \<Rightarrow> commitment_context \<Rightarrow> commitment \<Rightarrow> bytes \<Rightarrow> lookup_proof \<Rightarrow>
   commitment_limits \<Rightarrow> commitment_error + value_commitment option" where
  "verify_lookup H ctx expected key proof_in limits =
     rbind (admit key proof_in limits 0) (\<lambda>_. verify H ctx expected key proof_in)"

text \<open>\<open>before.map(value_commitment).transpose()?\<close>\<close>

definition commit_before ::
  "(bytes \<Rightarrow> bytes) \<Rightarrow> bytes option \<Rightarrow> commitment_error + value_commitment option" where
  "commit_before H v =
     (case v of None \<Rightarrow> Inr None
      | Some v \<Rightarrow> rbind (value_commitment_of H v) (\<lambda>c. Inr (Some c)))"

text \<open>\<open>partition_point\<close> on a list whose bits increase is the length of the prefix below the bit.\<close>

definition partition_below :: "nat \<Rightarrow> branch_proof list \<Rightarrow> nat" where
  "partition_below split branches = length (takeWhile (\<lambda>step. bp_bit step < split) branches)"

definition apply_insert ::
  "(bytes \<Rightarrow> bytes) \<Rightarrow> commitment_context \<Rightarrow> bytes \<Rightarrow> commitment \<Rightarrow> leaf_proof \<Rightarrow> branch_proof list \<Rightarrow>
   commitment_error + commitment" where
  "apply_insert H ctx key new old_leaf branches =
     rbind (ok_or (first_difference key (lp_key old_leaf)) CInvalidProof) (\<lambda>split.
     let at = partition_below split branches in
     rbind (ensure (\<not> (at < length branches \<and> bp_bit (branches ! at) = split)) CInvalidProof) (\<lambda>_.
     rbind (leaf_commitment H ctx old_leaf) (\<lambda>old.
     rbind (fold_path H ctx key old (drop at branches)) (\<lambda>old.
     rbind (if key_bit key split then branch_commitment H ctx split old new
            else branch_commitment H ctx split new old) (\<lambda>split_root.
     fold_path H ctx key split_root (take at branches))))))"

definition apply_delta ::
  "(bytes \<Rightarrow> bytes) \<Rightarrow> commitment_context \<Rightarrow> commitment \<Rightarrow> bytes \<Rightarrow> bytes option \<Rightarrow> bytes option \<Rightarrow>
   lookup_proof \<Rightarrow> commitment_limits \<Rightarrow> commitment_error + commitment" where
  "apply_delta H ctx expected key before after proof_in limits =
     rbind (ensure (\<not> ((case before of None \<Rightarrow> False | Some v \<Rightarrow> MAX_VALUE_BYTES < length v)
         \<or> (case after of None \<Rightarrow> False | Some v \<Rightarrow> MAX_VALUE_BYTES < length v))) CResourceLimit) (\<lambda>_.
     let bytes = (case before of None \<Rightarrow> 0 | Some v \<Rightarrow> length v)
               + (case after of None \<Rightarrow> 0 | Some v \<Rightarrow> length v) in
     rbind (admit key proof_in limits bytes) (\<lambda>_.
     rbind (verify H ctx expected key proof_in) (\<lambda>found.
     rbind (commit_before H before) (\<lambda>claimed.
     rbind (ensure (found = claimed) CConflict) (\<lambda>_.
     case after of
       None \<Rightarrow>
         if found = None then Inr expected
         else if lk_branches proof_in = [] then Inr (empty_commitment H ctx)
         else fold_path H ctx key (bp_sibling (last (lk_branches proof_in)))
                (butlast (lk_branches proof_in))
     | Some v \<Rightarrow>
         rbind (value_commitment_of H v) (\<lambda>vc.
         rbind (leaf_commitment H ctx \<lparr>lp_key = key, lp_value = vc\<rparr>) (\<lambda>new.
         case lk_leaf proof_in of
           None \<Rightarrow> Inr new
         | Some old_leaf \<Rightarrow>
             if found \<noteq> None then fold_path H ctx key new (lk_branches proof_in)
             else apply_insert H ctx key new old_leaf (lk_branches proof_in))))))))"

end
