(* ===== verification/Commitment_Tree.thy ===== *)
theory Commitment_Tree
  imports Ordered_Commitment
begin

text \<open>
  The content an ordered commitment stands for: a critical-bit tree over the keys.  The shape of
  a well-formed tree is determined by its entries, so the commitment of a map is well defined.
  A lookup proof that verifies is the path of the tree (unless the hash function collides on one
  of the messages involved), and applying a change to a proof computes the commitment of the
  changed map.
\<close>

datatype ctree = CLeaf leaf_proof | CBranch nat ctree ctree

fun ct_keys :: "ctree \<Rightarrow> bytes set" where
  "ct_keys (CLeaf l) = {lp_key l}"
| "ct_keys (CBranch b l r) = ct_keys l \<union> ct_keys r"

fun ct_map :: "ctree \<Rightarrow> bytes \<Rightarrow> value_commitment option" where
  "ct_map (CLeaf l) = [lp_key l \<mapsto> lp_value l]"
| "ct_map (CBranch b l r) = ct_map l ++ ct_map r"

fun ct_wf :: "ctree \<Rightarrow> bool" where
  "ct_wf (CLeaf l) \<longleftrightarrow> True"
| "ct_wf (CBranch b l r) \<longleftrightarrow> ct_wf l \<and> ct_wf r
     \<and> (\<forall>k \<in> ct_keys l. \<not> key_bit k b) \<and> (\<forall>k \<in> ct_keys r. key_bit k b)
     \<and> (\<forall>k \<in> ct_keys l. \<forall>k' \<in> ct_keys r. \<forall>p < b. key_bit k p = key_bit k' p)"

fun descend :: "ctree \<Rightarrow> bytes \<Rightarrow> leaf_proof" where
  "descend (CLeaf l) k = l"
| "descend (CBranch b l r) k = (if key_bit k b then descend r k else descend l k)"

fun ct_commit :: "(bytes \<Rightarrow> bytes) \<Rightarrow> commitment_context \<Rightarrow> ctree \<Rightarrow> commitment_error + commitment" where
  "ct_commit H ctx (CLeaf l) = leaf_commitment H ctx l"
| "ct_commit H ctx (CBranch b l r) =
     rbind (ct_commit H ctx l) (\<lambda>left. rbind (ct_commit H ctx r) (\<lambda>right.
     branch_commitment H ctx b left right))"

fun ct_path :: "(bytes \<Rightarrow> bytes) \<Rightarrow> commitment_context \<Rightarrow> ctree \<Rightarrow> bytes \<Rightarrow> branch_proof list" where
  "ct_path H ctx (CLeaf l) k = []"
| "ct_path H ctx (CBranch b l r) k =
     (if key_bit k b
      then \<lparr>bp_bit = b, bp_sibling = projr (ct_commit H ctx l)\<rparr> # ct_path H ctx r k
      else \<lparr>bp_bit = b, bp_sibling = projr (ct_commit H ctx r)\<rparr> # ct_path H ctx l k)"

text \<open>A whole index: possibly empty.\<close>

definition root_commit ::
  "(bytes \<Rightarrow> bytes) \<Rightarrow> commitment_context \<Rightarrow> ctree option \<Rightarrow> commitment_error + commitment" where
  "root_commit H ctx t =
     (case t of None \<Rightarrow> Inr (empty_commitment H ctx) | Some t \<Rightarrow> ct_commit H ctx t)"

definition root_entries :: "ctree option \<Rightarrow> bytes \<Rightarrow> value_commitment option" where
  "root_entries t = (case t of None \<Rightarrow> Map.empty | Some t \<Rightarrow> ct_map t)"

definition root_wf :: "ctree option \<Rightarrow> bool" where
  "root_wf t \<longleftrightarrow> (case t of None \<Rightarrow> True | Some t \<Rightarrow> ct_wf t)"

definition honest_proof ::
  "(bytes \<Rightarrow> bytes) \<Rightarrow> commitment_context \<Rightarrow> ctree option \<Rightarrow> bytes \<Rightarrow> lookup_proof" where
  "honest_proof H ctx t k =
     (case t of None \<Rightarrow> \<lparr>lk_leaf = None, lk_branches = []\<rparr>
      | Some t \<Rightarrow> \<lparr>lk_leaf = Some (descend t k), lk_branches = ct_path H ctx t k\<rparr>)"

text \<open>The map update on trees.\<close>

fun ct_graft :: "ctree \<Rightarrow> bytes \<Rightarrow> ctree \<Rightarrow> ctree" where
  "ct_graft (CLeaf l) k s = s"
| "ct_graft (CBranch b l r) k s =
     (if key_bit k b then CBranch b l (ct_graft r k s) else CBranch b (ct_graft l k s) r)"

fun ct_delete :: "ctree \<Rightarrow> bytes \<Rightarrow> ctree option" where
  "ct_delete (CLeaf l) k = None"
| "ct_delete (CBranch b l r) k =
     Some (if key_bit k b then (case ct_delete r k of None \<Rightarrow> l | Some r \<Rightarrow> CBranch b l r)
           else (case ct_delete l k of None \<Rightarrow> r | Some l \<Rightarrow> CBranch b l r))"

definition ct_split :: "nat \<Rightarrow> bytes \<Rightarrow> leaf_proof \<Rightarrow> ctree \<Rightarrow> ctree" where
  "ct_split split k new t =
     (if key_bit k split then CBranch split t (CLeaf new) else CBranch split (CLeaf new) t)"

fun ct_insert :: "nat \<Rightarrow> bytes \<Rightarrow> leaf_proof \<Rightarrow> ctree \<Rightarrow> ctree" where
  "ct_insert split k new (CLeaf l) = ct_split split k new (CLeaf l)"
| "ct_insert split k new (CBranch b l r) =
     (if b < split then
        (if key_bit k b then CBranch b l (ct_insert split k new r)
         else CBranch b (ct_insert split k new l) r)
      else ct_split split k new (CBranch b l r))"

definition ct_update :: "ctree option \<Rightarrow> bytes \<Rightarrow> value_commitment option \<Rightarrow> ctree option" where
  "ct_update t k v =
     (case t of
        None \<Rightarrow> map_option (\<lambda>v. CLeaf \<lparr>lp_key = k, lp_value = v\<rparr>) v
      | Some t \<Rightarrow>
          (case v of
             None \<Rightarrow> if lp_key (descend t k) = k then ct_delete t k else Some t
           | Some v \<Rightarrow>
               (let new = \<lparr>lp_key = k, lp_value = v\<rparr> in
                case first_difference k (lp_key (descend t k)) of
                  None \<Rightarrow> Some (ct_graft t k (CLeaf new))
                | Some split \<Rightarrow> Some (ct_insert split k new t))))"

subsection \<open>Trees and maps\<close>

lemma ct_wfD:
  assumes "ct_wf (CBranch b l r)"
  shows "ct_wf l" "ct_wf r"
    and "k \<in> ct_keys l \<Longrightarrow> \<not> key_bit k b" "k \<in> ct_keys r \<Longrightarrow> key_bit k b"
    and "k \<in> ct_keys l \<Longrightarrow> k' \<in> ct_keys r \<Longrightarrow> p < b \<Longrightarrow> key_bit k p = key_bit k' p"
  using assms by simp_all

declare ct_wf.simps(2) [simp del]

lemma ct_keys_nonempty: "ct_keys t \<noteq> {}"
  by (induction t) auto

lemma dom_ct_map: "dom (ct_map t) = ct_keys t"
  by (induction t) (auto split: if_splits)

lemma descend_key: "lp_key (descend t k) \<in> ct_keys t"
  by (induction t) auto

lemma descend_member: "ct_wf t \<Longrightarrow> k \<in> ct_keys t \<Longrightarrow> lp_key (descend t k) = k"
  by (induction t) (auto dest: ct_wfD)

lemma ct_map_not_key: "k \<notin> ct_keys t \<Longrightarrow> ct_map t k = None"
  using dom_ct_map [of t] by (auto simp: domIff)

lemma ct_map_side:
  assumes "ct_wf (CBranch b l r)"
  shows "ct_map (CBranch b l r) k = (if key_bit k b then ct_map r k else ct_map l k)"
proof (cases "key_bit k b")
  case True
  then have "ct_map l k = None" using ct_wfD(3) [OF assms] by (intro ct_map_not_key) blast
  with True show ?thesis by (simp add: map_add_def split: option.splits)
next
  case False
  then have "ct_map r k = None" using ct_wfD(4) [OF assms] by (intro ct_map_not_key) blast
  with False show ?thesis by (simp add: map_add_def)
qed

lemma ct_map_descend:
  "ct_wf t \<Longrightarrow> ct_map t k = (if lp_key (descend t k) = k then Some (lp_value (descend t k)) else None)"
proof (induction t)
  case (CBranch b l r)
  then show ?case
    unfolding ct_map_side [OF CBranch.prems] using ct_wfD(1,2) [OF CBranch.prems] by simp
qed auto

text \<open>Below the root bit of a subtree its keys agree.\<close>

lemma ct_agree_below:
  assumes "ct_wf (CBranch b l r)" "k \<in> ct_keys (CBranch b l r)" "k' \<in> ct_keys (CBranch b l r)" "p < b"
  shows "key_bit k p = key_bit k' p"
proof -
  obtain kl kr where k: "kl \<in> ct_keys l" "kr \<in> ct_keys r" using ct_keys_nonempty by blast
  have "key_bit x p = key_bit kl p" if "x \<in> ct_keys (CBranch b l r)" for x
    using ct_wfD(5) [OF assms(1) _ _ assms(4)] k that unfolding ct_keys.simps by blast
  from this [OF assms(2)] this [OF assms(3)] show ?thesis by simp
qed

lemma ct_child_bit:
  assumes "ct_wf (CBranch b l r)" "c = l \<or> c = r" "c = CBranch b' l' r'"
  shows "b < b'"
proof (rule ccontr)
  assume "\<not> b < b'"
  obtain x y where xy: "x \<in> ct_keys l'" "y \<in> ct_keys r'" using ct_keys_nonempty by blast
  have wf: "ct_wf (CBranch b' l' r')" using assms ct_wfD(1,2) [OF assms(1)] by auto
  have x: "\<not> key_bit x b'" "key_bit y b'" using ct_wfD(3,4) [OF wf] xy by auto
  have in_c: "x \<in> ct_keys c" "y \<in> ct_keys c" using xy assms(3) by auto
  show False
  proof (cases "b' = b")
    case True
    then show False using ct_wfD(3,4) [OF assms(1)] assms(2) in_c x by blast
  next
    case False
    then have "b' < b" using \<open>\<not> b < b'\<close> by simp
    then show False
      using ct_agree_below [OF assms(1), of x y b'] in_c assms(2) x by auto
  qed
qed

text \<open>The tree of a map is unique.\<close>

lemma ct_root_bit:
  assumes "ct_wf (CBranch b l r)" "ct_wf (CBranch b' l' r')"
    and "ct_keys (CBranch b l r) = ct_keys (CBranch b' l' r')"
  shows "b = b'"
proof -
  have "\<not> c < d" if wf: "ct_wf (CBranch c x y)" "ct_wf (CBranch d z w)"
      and keys: "ct_keys (CBranch c x y) = ct_keys (CBranch d z w)" for c d x y z w
  proof
    assume "c < d"
    obtain kx ky where k: "kx \<in> ct_keys x" "ky \<in> ct_keys y" using ct_keys_nonempty by blast
    then have "\<not> key_bit kx c" "key_bit ky c" using ct_wfD(3,4) [OF wf(1)] by auto
    moreover have "kx \<in> ct_keys (CBranch d z w)" "ky \<in> ct_keys (CBranch d z w)"
      using k keys by auto
    ultimately show False using ct_agree_below [OF wf(2) _ _ \<open>c < d\<close>] by blast
  qed
  from this [OF assms] this [OF assms(2,1) assms(3) [symmetric]] show ?thesis by simp
qed

lemma ct_unique: "ct_wf t \<Longrightarrow> ct_wf u \<Longrightarrow> ct_map t = ct_map u \<Longrightarrow> t = u"
proof (induction t arbitrary: u)
  case (CLeaf l)
  have keys: "ct_keys u = {lp_key l}"
    using dom_ct_map [of u] dom_ct_map [of "CLeaf l"] unfolding CLeaf.prems(3) by simp
  show ?case
  proof (cases u)
    case u: (CLeaf l')
    have "lp_key l = lp_key l'" using keys u by simp
    moreover have "ct_map u (lp_key l) = Some (lp_value l)" unfolding CLeaf.prems(3) [symmetric] by simp
    ultimately have "lp_value l = lp_value l'" using u by simp
    with \<open>lp_key l = lp_key l'\<close> u show ?thesis by simp
  next
    case u: (CBranch b x y)
    obtain kx ky where k: "kx \<in> ct_keys x" "ky \<in> ct_keys y" using ct_keys_nonempty by blast
    then have "kx \<in> ct_keys u" "ky \<in> ct_keys u" by (simp_all add: u)
    then have "kx = ky" unfolding keys by blast
    then show ?thesis using k ct_wfD(3,4) [OF CLeaf.prems(2) [unfolded u]] by blast
  qed
next
  case (CBranch b l r)
  have keys: "ct_keys (CBranch b l r) = ct_keys u"
    using dom_ct_map [of u] dom_ct_map [of "CBranch b l r"] unfolding CBranch.prems(3) by simp
  show ?case
  proof (cases u)
    case u: (CLeaf l')
    obtain kx ky where k: "kx \<in> ct_keys l" "ky \<in> ct_keys r" using ct_keys_nonempty by blast
    then have "kx \<in> ct_keys u" "ky \<in> ct_keys u" by (simp_all flip: keys)
    then have "kx = ky" by (simp add: u)
    then show ?thesis using k ct_wfD(3,4) [OF CBranch.prems(1)] by blast
  next
    case u: (CBranch b' l' r')
    have b: "b' = b"
      using ct_root_bit [OF CBranch.prems(1) CBranch.prems(2) [unfolded u] keys [unfolded u]] by simp
    have wf: "ct_wf (CBranch b l' r')" using CBranch.prems(2) u b by simp
    have side: "(if key_bit k b then ct_map r k else ct_map l k)
        = (if key_bit k b then ct_map r' k else ct_map l' k)" for k
      unfolding ct_map_side [OF CBranch.prems(1), symmetric] ct_map_side [OF wf, symmetric]
      using CBranch.prems(3) u b by simp
    have left: "ct_map l k = ct_map l' k" for k
    proof (cases "key_bit k b")
      case True
      then have "k \<notin> ct_keys l" "k \<notin> ct_keys l'"
        using ct_wfD(3) [OF CBranch.prems(1)] ct_wfD(3) [OF wf] by auto
      then show ?thesis by (simp add: ct_map_not_key)
    qed (use side [of k] in simp)
    have right: "ct_map r k = ct_map r' k" for k
    proof (cases "key_bit k b")
      case False
      then have "k \<notin> ct_keys r" "k \<notin> ct_keys r'"
        using ct_wfD(4) [OF CBranch.prems(1)] ct_wfD(4) [OF wf] by auto
      then show ?thesis by (simp add: ct_map_not_key)
    qed (use side [of k] in simp)
    have "ct_map l = ct_map l'" "ct_map r = ct_map r'" using left right by (auto intro: ext)
    then have "l = l'" "r = r'"
      using CBranch.IH(1) [OF ct_wfD(1) [OF CBranch.prems(1)] ct_wfD(1) [OF wf]]
        CBranch.IH(2) [OF ct_wfD(2) [OF CBranch.prems(1)] ct_wfD(2) [OF wf]] by simp_all
    then show ?thesis using u b by simp
  qed
qed

subsection \<open>The update on trees is the update of the map\<close>

lemma ct_keys_graft:
  "ct_keys (ct_graft t k (CLeaf new)) \<subseteq> insert (lp_key new) (ct_keys t)"
  by (induction t) auto

lemma ct_graft_descend: "ct_graft t k (CLeaf (descend t k)) = t"
  by (induction t) auto

lemma ct_graft_same:
  assumes "ct_wf t" "lp_key (descend t k) = k"
  shows "ct_wf (ct_graft t k (CLeaf \<lparr>lp_key = k, lp_value = v\<rparr>))
    \<and> ct_keys (ct_graft t k (CLeaf \<lparr>lp_key = k, lp_value = v\<rparr>)) = ct_keys t
    \<and> ct_map (ct_graft t k (CLeaf \<lparr>lp_key = k, lp_value = v\<rparr>)) = (ct_map t)(k \<mapsto> v)"
  using assms
proof (induction t)
  case (CLeaf l)
  then show ?case by (auto simp: fun_eq_iff)
next
  case (CBranch b l r)
  note wf = ct_wfD [OF CBranch.prems(1)]
  show ?case
  proof (cases "key_bit k b")
    case True
    let ?g = "ct_graft r k (CLeaf \<lparr>lp_key = k, lp_value = v\<rparr>)"
    have ih: "ct_wf ?g" "ct_keys ?g = ct_keys r" "ct_map ?g = (ct_map r)(k \<mapsto> v)"
      using CBranch True wf(2) by auto
    have "ct_wf (CBranch b l ?g)" using wf ih by (auto simp: ct_wf.simps(2))
    moreover have "ct_map (CBranch b l ?g) = (ct_map (CBranch b l r))(k \<mapsto> v)"
      by (simp add: ih(3))
    ultimately show ?thesis using True ih(2) by simp
  next
    case False
    let ?g = "ct_graft l k (CLeaf \<lparr>lp_key = k, lp_value = v\<rparr>)"
    have ih: "ct_wf ?g" "ct_keys ?g = ct_keys l" "ct_map ?g = (ct_map l)(k \<mapsto> v)"
      using CBranch False wf(1) by auto
    have wf': "ct_wf (CBranch b ?g r)" using wf ih by (auto simp: ct_wf.simps(2))
    have "ct_map (CBranch b ?g r) x = ((ct_map (CBranch b l r))(k \<mapsto> v)) x" for x
      using ct_map_side [OF wf', of x] ct_map_side [OF CBranch.prems(1), of x] ih(3) False by auto
    then show ?thesis using False ih(2) wf' by (auto simp: fun_eq_iff)
  qed
qed

lemma ct_delete_same:
  assumes "ct_wf t" "lp_key (descend t k) = k"
  shows "root_wf (ct_delete t k) \<and> root_entries (ct_delete t k) = (ct_map t)(k := None)
    \<and> (\<forall>t'. ct_delete t k = Some t' \<longrightarrow> ct_keys t' \<subseteq> ct_keys t)"
  using assms
proof (induction t)
  case (CLeaf l)
  then show ?case by (auto simp: root_wf_def root_entries_def fun_eq_iff)
next
  case (CBranch b l r)
  note wf = ct_wfD [OF CBranch.prems(1)]
  show ?case
  proof (cases "key_bit k b")
    case True
    have ih: "root_wf (ct_delete r k)" "root_entries (ct_delete r k) = (ct_map r)(k := None)"
        "\<And>t'. ct_delete r k = Some t' \<Longrightarrow> ct_keys t' \<subseteq> ct_keys r"
      using CBranch True wf(2) by auto
    have k: "ct_map l k = None" using True wf(3) by (auto intro!: ct_map_not_key)
    show ?thesis
    proof (cases "ct_delete r k")
      case None
      then have "ct_map r x = None" if "x \<noteq> k" for x
        using ih(2) that by (auto simp: root_entries_def fun_eq_iff split: if_splits)
      then have "ct_map l = (ct_map (CBranch b l r))(k := None)"
        using k by (auto simp: fun_eq_iff map_add_def split: option.splits)
      with None True wf(1) show ?thesis by (auto simp: root_wf_def root_entries_def)
    next
      case (Some r')
      have r': "ct_wf r'" "ct_map r' = (ct_map r)(k := None)" "ct_keys r' \<subseteq> ct_keys r"
        using ih Some by (auto simp: root_wf_def root_entries_def)
      have "ct_wf (CBranch b l r')" using wf r' by (auto simp: ct_wf.simps(2))
      moreover have "ct_map (CBranch b l r') = (ct_map (CBranch b l r))(k := None)"
        using k by (auto simp: r'(2) fun_eq_iff map_add_def)
      ultimately show ?thesis using Some True r'(3) by (auto simp: root_wf_def root_entries_def)
    qed
  next
    case False
    have ih: "root_wf (ct_delete l k)" "root_entries (ct_delete l k) = (ct_map l)(k := None)"
        "\<And>t'. ct_delete l k = Some t' \<Longrightarrow> ct_keys t' \<subseteq> ct_keys l"
      using CBranch False wf(1) by auto
    have k: "ct_map r k = None" using False wf(4) by (auto intro!: ct_map_not_key)
    show ?thesis
    proof (cases "ct_delete l k")
      case None
      then have "ct_map l x = None" if "x \<noteq> k" for x
        using ih(2) that by (auto simp: root_entries_def fun_eq_iff split: if_splits)
      then have "ct_map r = (ct_map (CBranch b l r))(k := None)"
        using k by (auto simp: fun_eq_iff map_add_def split: option.splits)
      with None False wf(2) show ?thesis by (auto simp: root_wf_def root_entries_def)
    next
      case (Some l')
      have l': "ct_wf l'" "ct_map l' = (ct_map l)(k := None)" "ct_keys l' \<subseteq> ct_keys l"
        using ih Some by (auto simp: root_wf_def root_entries_def)
      have "ct_wf (CBranch b l' r)" using wf l' by (auto simp: ct_wf.simps(2))
      moreover have "ct_map (CBranch b l' r) = (ct_map (CBranch b l r))(k := None)"
        using k by (auto simp: l'(2) fun_eq_iff map_add_def split: option.splits)
      ultimately show ?thesis using Some False l'(3) by (auto simp: root_wf_def root_entries_def)
    qed
  qed
qed

lemma ct_split_ok:
  assumes "ct_wf t" "\<And>x p. x \<in> ct_keys t \<Longrightarrow> p < split \<Longrightarrow> key_bit x p = key_bit k p"
    and "\<And>x. x \<in> ct_keys t \<Longrightarrow> key_bit x split \<noteq> key_bit k split"
  shows "ct_wf (ct_split split k \<lparr>lp_key = k, lp_value = v\<rparr> t)
    \<and> ct_keys (ct_split split k \<lparr>lp_key = k, lp_value = v\<rparr> t) = insert k (ct_keys t)
    \<and> ct_map (ct_split split k \<lparr>lp_key = k, lp_value = v\<rparr> t) = (ct_map t)(k \<mapsto> v)"
proof -
  have "ct_map t k = None" using assms(3) by (intro ct_map_not_key) blast
  then have "[k \<mapsto> v] ++ ct_map t = (ct_map t)(k \<mapsto> v)"
    by (auto simp: fun_eq_iff map_add_def split: option.splits)
  with assms show ?thesis by (auto simp: ct_split_def ct_wf.simps(2))
qed

lemma ct_insert_ok:
  assumes "ct_wf t" "key_bit k split \<noteq> key_bit (lp_key (descend t k)) split"
    and "\<And>p. p < split \<Longrightarrow> key_bit k p = key_bit (lp_key (descend t k)) p"
  shows "ct_wf (ct_insert split k \<lparr>lp_key = k, lp_value = v\<rparr> t)
    \<and> ct_keys (ct_insert split k \<lparr>lp_key = k, lp_value = v\<rparr> t) = insert k (ct_keys t)
    \<and> ct_map (ct_insert split k \<lparr>lp_key = k, lp_value = v\<rparr> t) = (ct_map t)(k \<mapsto> v)"
  using assms
proof (induction t)
  case (CLeaf l)
  then show ?case unfolding ct_insert.simps by (intro ct_split_ok) auto
next
  case (CBranch b l r)
  let ?t = "CBranch b l r" and ?leaf = "lp_key (descend (CBranch b l r) k)"
  note wf = ct_wfD [OF CBranch.prems(1)]
  have side: "key_bit ?leaf b = key_bit k b"
    using wf(3) [OF descend_key] wf(4) [OF descend_key] by auto
  show ?case
  proof (cases "b < split")
    case False
    then have "split < b" using CBranch.prems(2) side by (cases "split = b") auto
    then have agree: "key_bit x p = key_bit ?leaf p" if "x \<in> ct_keys ?t" "p \<le> split" for x p
      using ct_agree_below [OF CBranch.prems(1) that(1) descend_key, of p k] that(2) by simp
    have eq: "ct_insert split k \<lparr>lp_key = k, lp_value = v\<rparr> ?t = ct_split split k \<lparr>lp_key = k, lp_value = v\<rparr> ?t"
      using False by simp
    have "key_bit x p = key_bit k p" if "x \<in> ct_keys ?t" "p < split" for x p
      using agree [OF that(1), of p] CBranch.prems(3) [OF that(2)] that(2) by simp
    moreover have "key_bit x split \<noteq> key_bit k split" if "x \<in> ct_keys ?t" for x
      using agree [OF that, of split] CBranch.prems(2) by simp
    ultimately show ?thesis unfolding eq by (intro ct_split_ok [OF CBranch.prems(1)])
  next
    case True
    show ?thesis
    proof (cases "key_bit k b")
      case bit: True
      let ?r = "ct_insert split k \<lparr>lp_key = k, lp_value = v\<rparr> r"
      have d: "descend ?t k = descend r k" using bit by simp
      have ih: "ct_wf ?r" "ct_keys ?r = insert k (ct_keys r)" "ct_map ?r = (ct_map r)(k \<mapsto> v)"
        using CBranch.IH(2) [OF wf(2) CBranch.prems(2,3) [unfolded d]] by blast+
      have "key_bit x p = key_bit k p" if "x \<in> ct_keys l" "p < b" for x p
        using wf(5) [OF that(1) descend_key that(2), of k] CBranch.prems(3) [of p] that(2) True
        unfolding d by simp
      then have "ct_wf (CBranch b l ?r)" using wf ih bit by (auto simp: ct_wf.simps(2))
      then show ?thesis using True bit ih by simp
    next
      case bit: False
      let ?l = "ct_insert split k \<lparr>lp_key = k, lp_value = v\<rparr> l"
      have d: "descend ?t k = descend l k" using bit by simp
      have ih: "ct_wf ?l" "ct_keys ?l = insert k (ct_keys l)" "ct_map ?l = (ct_map l)(k \<mapsto> v)"
        using CBranch.IH(1) [OF wf(1) CBranch.prems(2,3) [unfolded d]] by blast+
      have "key_bit k p = key_bit x p" if "x \<in> ct_keys r" "p < b" for x p
        using wf(5) [OF descend_key that, of k] CBranch.prems(3) [of p] that(2) True
        unfolding d by simp
      then have wf': "ct_wf (CBranch b ?l r)" using wf ih bit by (auto simp: ct_wf.simps(2))
      have "ct_map (CBranch b ?l r) x = ((ct_map ?t)(k \<mapsto> v)) x" for x
        using ct_map_side [OF wf', of x] ct_map_side [OF CBranch.prems(1), of x] ih(3) bit by auto
      then show ?thesis using True bit ih(2) wf' by (auto simp: fun_eq_iff)
    qed
  qed
qed

lemma ct_update_ok:
  assumes "root_wf t"
  shows "root_wf (ct_update t k v) \<and> root_entries (ct_update t k v) = (root_entries t)(k := v)"
proof (cases t)
  case None
  then show ?thesis by (cases v) (auto simp: ct_update_def root_wf_def root_entries_def)
next
  case (Some u)
  have wf: "ct_wf u" using assms Some by (simp add: root_wf_def)
  show ?thesis
  proof (cases v)
    case None
    show ?thesis
    proof (cases "lp_key (descend u k) = k")
      case True
      then show ?thesis
        using ct_delete_same [OF wf True] Some None by (simp add: ct_update_def root_entries_def)
    next
      case False
      then have "ct_map u k = None" by (simp add: ct_map_descend [OF wf])
      with False show ?thesis
        using Some None wf by (auto simp: ct_update_def root_wf_def root_entries_def fun_eq_iff)
    qed
  next
    case v: (Some w)
    show ?thesis
    proof (cases "first_difference k (lp_key (descend u k))")
      case None
      then have "lp_key (descend u k) = k" by (simp add: first_difference_None)
      then show ?thesis
        using ct_graft_same [OF wf, of k w] None Some v
        by (simp add: ct_update_def root_wf_def root_entries_def)
    next
      case d: (Some d)
      have "ct_update t k v = Some (ct_insert d k \<lparr>lp_key = k, lp_value = w\<rparr> u)"
        using Some v d by (simp add: ct_update_def)
      moreover note ct_insert_ok [OF wf, of k d w]
      ultimately show ?thesis
        using first_difference_Some [OF d] Some v by (simp add: root_wf_def root_entries_def)
    qed
  qed
qed

end
