(* ===== verification/Commitment_Proof.thy ===== *)
theory Commitment_Proof
  imports Commitment_Tree
begin

text \<open>
  Lookup proofs against the tree they are about: a verified proof is the path of the tree, and a
  change applied to it gives the commitment of the changed tree.
\<close>

section \<open>The fold over a path\<close>

definition join_step ::
  "(bytes \<Rightarrow> bytes) \<Rightarrow> commitment_context \<Rightarrow> bytes \<Rightarrow> branch_proof \<Rightarrow> commitment \<Rightarrow>
   commitment_error + commitment" where
  "join_step H ctx key step child =
     (if key_bit key (bp_bit step) then branch_commitment H ctx (bp_bit step) (bp_sibling step) child
      else branch_commitment H ctx (bp_bit step) child (bp_sibling step))"

lemma fold_path_Nil [simp]: "fold_path H ctx key child [] = Inr child"
  by (simp add: fold_path_def)

lemma fold_path_Cons [simp]:
  "fold_path H ctx key child (step # path) =
     rbind (fold_path H ctx key child path) (join_step H ctx key step)"
  by (auto simp: fold_path_def rfold_append join_step_def rbind_def split: sum.splits)

lemma leaf_commitment_Inr:
  "leaf_commitment H ctx leaf = Inr c \<longleftrightarrow>
     lp_key leaf \<noteq> [] \<and> length (lp_key leaf) \<le> MAX_KEY_BYTES
     \<and> vc_length (lp_value leaf) \<le> MAX_VALUE_BYTES
     \<and> c = \<lparr>c_entries = 1, c_logical_bytes = length (lp_key leaf) + vc_length (lp_value leaf),
            c_digest = H (leaf_message ctx leaf)\<rparr>"
  by (auto simp: leaf_commitment_def key_valid_def rbind_eq_Inr)

lemma branch_commitment_Inr:
  "branch_commitment H ctx b left right = Inr c \<longleftrightarrow>
     b < MAX_BRANCH_BITS \<and> c_entries left \<noteq> 0 \<and> c_entries right \<noteq> 0
     \<and> c_entries left + c_entries right \<le> MAX_ENTRIES
     \<and> c_logical_bytes left + c_logical_bytes right \<le> usize_max
     \<and> c = \<lparr>c_entries = c_entries left + c_entries right,
            c_logical_bytes = c_logical_bytes left + c_logical_bytes right,
            c_digest = H (branch_message ctx b left right)\<rparr>"
  by (auto simp: branch_commitment_def rbind_eq_Inr MAX_ENTRIES_def usize_max_def)

lemma ct_commit_branch_Inr:
  "ct_commit H ctx (CBranch b l r) = Inr c \<longleftrightarrow>
     (\<exists>cl cr. ct_commit H ctx l = Inr cl \<and> ct_commit H ctx r = Inr cr
        \<and> branch_commitment H ctx b cl cr = Inr c)"
  by (auto simp: rbind_eq_Inr)

section \<open>Honest paths\<close>

lemma fold_graft:
  assumes "ct_commit H ctx t = Inr c"
  shows "rbind (ct_commit H ctx s) (\<lambda>child. fold_path H ctx k child (ct_path H ctx t k))
    = ct_commit H ctx (ct_graft t k s)"
  using assms
proof (induction t arbitrary: c)
  case (CLeaf l)
  then show ?case by (cases "ct_commit H ctx s") auto
next
  case (CBranch b l r)
  obtain cl cr where "ct_commit H ctx l = Inr cl" "ct_commit H ctx r = Inr cr"
    using CBranch.prems ct_commit_branch_Inr by metis
  with CBranch.IH show ?case
    by (cases "ct_commit H ctx s")
      (force simp: join_step_def [abs_def] rbind_def split: sum.splits)+
qed

lemma fold_honest:
  assumes "ct_commit H ctx t = Inr c" "leaf_commitment H ctx (descend t k) = Inr leaf"
  shows "fold_path H ctx k leaf (ct_path H ctx t k) = Inr c"
  using fold_graft [OF assms(1), of "CLeaf (descend t k)" k] assms by (simp add: ct_graft_descend)

lemma descend_commit:
  "ct_commit H ctx t = Inr c \<Longrightarrow> \<exists>leaf. leaf_commitment H ctx (descend t k) = Inr leaf"
  by (induction t arbitrary: c) (auto simp: rbind_eq_Inr)

lemma fold_delete:
  assumes "ct_commit H ctx t = Inr c" "ct_path H ctx t k \<noteq> []"
  shows "fold_path H ctx k (bp_sibling (last (ct_path H ctx t k))) (butlast (ct_path H ctx t k))
    = root_commit H ctx (ct_delete t k)"
  using assms
proof (induction t arbitrary: c)
  case (CBranch b l r)
  obtain cl cr where c: "ct_commit H ctx l = Inr cl" "ct_commit H ctx r = Inr cr"
    using CBranch.prems ct_commit_branch_Inr by metis
  show ?case
  proof (cases "key_bit k b")
    case True
    then show ?thesis
      using CBranch.IH(2) [OF c(2)] c
      by (cases r) (auto simp: root_commit_def join_step_def rbind_def split: sum.splits)
  next
    case False
    then show ?thesis
      using CBranch.IH(1) [OF c(1)] c
      by (cases l) (auto simp: root_commit_def join_step_def rbind_def split: sum.splits)
  qed
qed simp

definition insert_fold ::
  "(bytes \<Rightarrow> bytes) \<Rightarrow> commitment_context \<Rightarrow> bytes \<Rightarrow> nat \<Rightarrow> commitment \<Rightarrow> leaf_proof \<Rightarrow> branch_proof list \<Rightarrow>
   commitment_error + commitment" where
  "insert_fold H ctx k split new old_leaf path =
     rbind (rbind (leaf_commitment H ctx old_leaf) (\<lambda>old.
            fold_path H ctx k old (drop (partition_below split path) path))) (\<lambda>old.
     rbind (if key_bit k split then branch_commitment H ctx split old new
            else branch_commitment H ctx split new old) (\<lambda>split_root.
     fold_path H ctx k split_root (take (partition_below split path) path)))"

lemma insert_fold_above:
  "bp_bit step < split \<Longrightarrow>
   insert_fold H ctx k split new old_leaf (step # path) =
     rbind (insert_fold H ctx k split new old_leaf path) (join_step H ctx k step)"
  by (simp add: insert_fold_def partition_below_def rbind_assoc)

lemma insert_fold_here:
  assumes "path = [] \<or> \<not> bp_bit (hd path) < split"
  shows "insert_fold H ctx k split new old_leaf path =
     rbind (rbind (leaf_commitment H ctx old_leaf) (\<lambda>old. fold_path H ctx k old path)) (\<lambda>old.
       if key_bit k split then branch_commitment H ctx split old new
       else branch_commitment H ctx split new old)"
proof -
  have "partition_below split path = 0" using assms by (cases path) (simp_all add: partition_below_def)
  moreover have "rbind r Inr = r" for r :: "commitment_error + commitment" by (cases r) simp_all
  ultimately show ?thesis by (simp add: insert_fold_def)
qed

lemma ct_commit_split:
  assumes "ct_commit H ctx t = Inr c" "leaf_commitment H ctx leaf = Inr new"
  shows "ct_commit H ctx (ct_split split k leaf t) =
    (if key_bit k split then branch_commitment H ctx split c new
     else branch_commitment H ctx split new c)"
  using assms by (simp add: ct_split_def)

lemma insert_fold_honest:
  assumes "ct_commit H ctx t = Inr c" "leaf_commitment H ctx leaf = Inr new"
  shows "insert_fold H ctx k split new (descend t k) (ct_path H ctx t k)
    = ct_commit H ctx (ct_insert split k leaf t)"
  using assms(1)
proof (induction t arbitrary: c)
  case (CLeaf l)
  then show ?case
    using ct_commit_split [OF CLeaf assms(2)] by (simp add: insert_fold_here)
next
  case (CBranch b l r)
  obtain cl cr where c: "ct_commit H ctx l = Inr cl" "ct_commit H ctx r = Inr cr"
    using CBranch.prems ct_commit_branch_Inr by metis
  show ?case
  proof (cases "b < split")
    case True
    then show ?thesis
      using CBranch.IH(1) [OF c(1)] CBranch.IH(2) [OF c(2)] c
      by (simp add: insert_fold_above join_step_def [abs_def])
  next
    case False
    let ?t = "CBranch b l r"
    obtain old where old: "leaf_commitment H ctx (descend ?t k) = Inr old"
      using descend_commit [OF CBranch.prems] by blast
    have "insert_fold H ctx k split new (descend ?t k) (ct_path H ctx ?t k)
        = ct_commit H ctx (ct_split split k leaf ?t)"
      unfolding ct_commit_split [OF CBranch.prems assms(2)]
      using False fold_honest [OF CBranch.prems old] old
      by (subst insert_fold_here) (simp_all del: descend.simps)
    with False show ?thesis by simp
  qed
qed

lemma apply_insert_fold:
  assumes "first_difference k (lp_key old_leaf) = Some split"
    and "\<forall>step \<in> set path. bp_bit step \<noteq> split"
  shows "apply_insert H ctx k new old_leaf path = insert_fold H ctx k split new old_leaf path"
  using assms nth_mem [of _ path]
  by (auto simp: apply_insert_def insert_fold_def Let_def rbind_def split: sum.splits)

section \<open>Routes\<close>

lemma validate_route_from_iff:
  "validate_route_from prev k leaf path = Inr () \<longleftrightarrow>
     (case prev of None \<Rightarrow> True | Some p \<Rightarrow> \<forall>step \<in> set path. p < bp_bit step)
     \<and> sorted_wrt (<) (map bp_bit path)
     \<and> (\<forall>step \<in> set path. bp_bit step \<le> length (lp_key leaf) * 9
          \<and> key_bit k (bp_bit step) = key_bit (lp_key leaf) (bp_bit step))"
proof (induction path arbitrary: prev)
  case Nil
  then show ?case by (auto split: option.splits)
next
  case (Cons step path)
  show ?case by (cases prev) (force simp: Cons.IH)+
qed

lemma ct_path_bits:
  "ct_wf t \<Longrightarrow> step \<in> set (ct_path H ctx t k) \<Longrightarrow> \<exists>b l r. t = CBranch b l r \<and> b \<le> bp_bit step"
proof (induction t)
  case (CBranch b l r)
  have child: "b < bp_bit step" if side: "c = l \<or> c = r" "step \<in> set (ct_path H ctx c k)" for c
  proof -
    obtain b' l' r' where c: "c = CBranch b' l' r'" "b' \<le> bp_bit step"
      using CBranch.IH ct_wfD(1,2) [OF CBranch.prems(1)] side by blast
    then show ?thesis using ct_child_bit [OF CBranch.prems(1) side(1) c(1)] by simp
  qed
  show ?case using CBranch.prems(2) child [of l] child [of r] by (auto split: if_splits)
qed simp

lemma ct_path_route:
  assumes "ct_wf t"
  shows "validate_route k (descend t k) (ct_path H ctx t k) = Inr ()"
  using assms unfolding validate_route_def
proof (induction t)
  case (CLeaf l)
  then show ?case by simp
next
  case (CBranch b l r)
  note wf = ct_wfD [OF CBranch.prems]
  have bits: "b < bp_bit step" if "c = l \<or> c = r" "step \<in> set (ct_path H ctx c k)" for c step
    using ct_child_bit [OF CBranch.prems that(1)] ct_path_bits [OF _ that(2)] that(1) wf(1,2)
    by (meson dual_order.strict_trans1 order_less_le_trans)
  have bound: "b \<le> length (lp_key (descend l k)) * 9" "b \<le> length (lp_key (descend r k)) * 9"
  proof -
    have "first_difference (lp_key (descend l k)) (lp_key (descend r k)) = Some b"
      using wf(3-5) [OF descend_key] descend_key
      by (intro first_difference_unique) blast+
    from first_difference_Some [OF this]
    show "b \<le> length (lp_key (descend l k)) * 9" "b \<le> length (lp_key (descend r k)) * 9" by simp_all
  qed
  have side: "key_bit (lp_key (descend (CBranch b l r) k)) b = key_bit k b"
    using wf(3) [OF descend_key] wf(4) [OF descend_key] by auto
  show ?case
    using CBranch.IH(1) [OF wf(1)] CBranch.IH(2) [OF wf(2)] bits bound side
    by (auto simp: validate_route_from_iff)
qed

section \<open>Honest proofs verify and update\<close>

lemma verify_honest:
  assumes "root_wf t" "root_commit H ctx t = Inr c"
  shows "verify H ctx c k (honest_proof H ctx t k) = Inr (root_entries t k)"
proof (cases t)
  case None
  then show ?thesis
    using assms by (simp add: verify_def honest_proof_def root_commit_def root_entries_def)
next
  case (Some u)
  then have u: "ct_wf u" "ct_commit H ctx u = Inr c"
    using assms by (simp_all add: root_wf_def root_commit_def)
  obtain leaf where leaf: "leaf_commitment H ctx (descend u k) = Inr leaf"
    using descend_commit [OF u(2)] by blast
  show ?thesis
    using ct_path_route [OF u(1)] leaf fold_honest [OF u(2) leaf] Some
    by (simp add: verify_def honest_proof_def root_entries_def ct_map_descend [OF u(1)])
qed

definition delta_target ::
  "(bytes \<Rightarrow> bytes) \<Rightarrow> bytes option \<Rightarrow> value_commitment option" where
  "delta_target H after = (case commit_before H after of Inr v \<Rightarrow> v | Inl e \<Rightarrow> None)"

text \<open>What \<open>apply_delta\<close> does once the proof is verified.\<close>

definition delta_result ::
  "(bytes \<Rightarrow> bytes) \<Rightarrow> commitment_context \<Rightarrow> commitment \<Rightarrow> bytes \<Rightarrow> value_commitment option \<Rightarrow>
   bytes option \<Rightarrow> lookup_proof \<Rightarrow> commitment_error + commitment" where
  "delta_result H ctx expected key found after proof_in =
     (case after of
       None \<Rightarrow>
         if found = None then Inr expected
         else if lk_branches proof_in = [] then Inr (empty_commitment H ctx)
         else fold_path H ctx key (bp_sibling (last (lk_branches proof_in)))
                (butlast (lk_branches proof_in))
     | Some v \<Rightarrow>
         rbind (value_commitment_of H v) (\<lambda>vc.
         rbind (leaf_commitment H ctx \<lparr>lp_key = key, lp_value = vc\<rparr>) (\<lambda>new.
         case lk_leaf proof_in of
           None \<Rightarrow> Inr new
         | Some old_leaf \<Rightarrow>
             if found \<noteq> None then fold_path H ctx key new (lk_branches proof_in)
             else apply_insert H ctx key new old_leaf (lk_branches proof_in))))"

lemma apply_delta_Inr:
  "apply_delta H ctx expected key before after proof_in limits = Inr c \<longleftrightarrow>
     (\<forall>v. before = Some v \<longrightarrow> length v \<le> MAX_VALUE_BYTES)
     \<and> (\<forall>v. after = Some v \<longrightarrow> length v \<le> MAX_VALUE_BYTES)
     \<and> admit key proof_in limits
         ((case before of None \<Rightarrow> 0 | Some v \<Rightarrow> length v) + (case after of None \<Rightarrow> 0 | Some v \<Rightarrow> length v))
       = Inr ()
     \<and> (\<exists>found. verify H ctx expected key proof_in = Inr found \<and> commit_before H before = Inr found
          \<and> delta_result H ctx expected key found after proof_in = Inr c)"
  unfolding apply_delta_def delta_result_def Let_def rbind_eq_Inr ensure_eq_Inr
  by (auto split: option.splits)

lemma path_off_split:
  assumes "ct_wf t" "first_difference k (lp_key (descend t k)) = Some split"
  shows "\<forall>step \<in> set (ct_path H ctx t k). bp_bit step \<noteq> split"
  using ct_path_route [OF assms(1), of k H ctx] first_difference_Some [OF assms(2)]
  unfolding validate_route_def validate_route_from_iff by blast

lemma delta_result_honest:
  assumes "root_wf t" "root_commit H ctx t = Inr c" "key_valid k = Inr ()"
    and "\<forall>v. after = Some v \<longrightarrow> length v \<le> MAX_VALUE_BYTES"
  shows "delta_result H ctx c k (root_entries t k) after (honest_proof H ctx t k)
    = root_commit H ctx (ct_update t k (delta_target H after))"
proof (cases after)
  case None
  show ?thesis
  proof (cases t)
    case t: None
    with None assms(2) show ?thesis
      by (simp add: delta_result_def root_entries_def ct_update_def delta_target_def commit_before_def)
  next
    case (Some u)
    then have u: "ct_wf u" "ct_commit H ctx u = Inr c"
      using assms by (simp_all add: root_wf_def root_commit_def)
    have nil: "ct_delete u k = None" if "ct_path H ctx u k = []"
      using that by (cases u) (auto split: if_splits)
    show ?thesis
      using Some None u nil fold_delete [OF u(2), of k] ct_map_descend [OF u(1), of k]
      by (auto simp: delta_result_def root_entries_def ct_update_def delta_target_def commit_before_def
          honest_proof_def root_commit_def)
  qed
next
  case after: (Some v)
  define vc where "vc = \<lparr>vc_length = length v, vc_digest = H (VALUE_DOMAIN @ be_bytes 8 (length v) @ v)\<rparr>"
  define leaf where "leaf = \<lparr>lp_key = k, lp_value = vc\<rparr>"
  have vc: "value_commitment_of H v = Inr vc"
    using assms(4) after by (simp add: value_commitment_of_def vc_def)
  obtain new where new: "leaf_commitment H ctx leaf = Inr new"
    using assms(3,4) after by (simp add: leaf_commitment_def leaf_def vc_def)
  have tgt: "delta_target H (Some v) = Some vc" using vc by (simp add: delta_target_def commit_before_def)
  show ?thesis
  proof (cases t)
    case None
    then show ?thesis
      using vc new after
      by (simp add: delta_result_def tgt ct_update_def honest_proof_def root_commit_def leaf_def)
  next
    case (Some u)
    then have u: "ct_wf u" "ct_commit H ctx u = Inr c"
      using assms by (simp_all add: root_wf_def root_commit_def)
    note red = delta_result_def tgt ct_update_def honest_proof_def root_commit_def root_entries_def
    show ?thesis
    proof (cases "first_difference k (lp_key (descend u k))")
      case None
      then have "lp_key (descend u k) = k" by (simp add: first_difference_None)
      then show ?thesis
        using fold_graft [OF u(2), of "CLeaf leaf" k] vc new after Some None
        by (simp add: red ct_map_descend [OF u(1)] leaf_def)
    next
      case (Some split)
      then have "lp_key (descend u k) \<noteq> k"
        using first_difference_Some [OF Some] by auto
      moreover have "apply_insert H ctx k new (descend u k) (ct_path H ctx u k)
          = ct_commit H ctx (ct_insert split k leaf u)"
        unfolding apply_insert_fold [OF Some path_off_split [OF u(1) Some]]
        by (rule insert_fold_honest [OF u(2) new])
      ultimately show ?thesis
        using vc new after \<open>t = Some u\<close> Some
        by (simp add: red ct_map_descend [OF u(1)] leaf_def)
    qed
  qed
qed


section \<open>Messages\<close>

text \<open>
  A digest is 32 bytes.  The messages hashed for a tree, and the messages a verifier hashes
  on a proof.
\<close>

definition leaf_typed :: "leaf_proof \<Rightarrow> bool" where
  "leaf_typed leaf \<longleftrightarrow> length (vc_digest (lp_value leaf)) = 32"

definition path_typed :: "branch_proof list \<Rightarrow> bool" where
  "path_typed path \<longleftrightarrow> (\<forall>step \<in> set path. length (c_digest (bp_sibling step)) = 32)"

definition proof_typed :: "lookup_proof \<Rightarrow> bool" where
  "proof_typed p \<longleftrightarrow> (case lk_leaf p of None \<Rightarrow> True | Some leaf \<Rightarrow> leaf_typed leaf) \<and> path_typed (lk_branches p)"

fun ct_typed :: "ctree \<Rightarrow> bool" where
  "ct_typed (CLeaf l) \<longleftrightarrow> leaf_typed l"
| "ct_typed (CBranch b l r) \<longleftrightarrow> ct_typed l \<and> ct_typed r"

fun ct_messages :: "(bytes \<Rightarrow> bytes) \<Rightarrow> commitment_context \<Rightarrow> ctree \<Rightarrow> bytes set" where
  "ct_messages H ctx (CLeaf l) = {leaf_message ctx l}"
| "ct_messages H ctx (CBranch b l r) =
     insert (branch_message ctx b (projr (ct_commit H ctx l)) (projr (ct_commit H ctx r)))
       (ct_messages H ctx l \<union> ct_messages H ctx r)"

definition root_messages :: "(bytes \<Rightarrow> bytes) \<Rightarrow> commitment_context \<Rightarrow> ctree option \<Rightarrow> bytes set" where
  "root_messages H ctx t = (case t of None \<Rightarrow> {hasher ctx 0} | Some t \<Rightarrow> ct_messages H ctx t)"

definition join_message :: "commitment_context \<Rightarrow> bytes \<Rightarrow> branch_proof \<Rightarrow> commitment \<Rightarrow> bytes" where
  "join_message ctx k step child =
     (if key_bit k (bp_bit step) then branch_message ctx (bp_bit step) (bp_sibling step) child
      else branch_message ctx (bp_bit step) child (bp_sibling step))"

fun path_messages ::
  "(bytes \<Rightarrow> bytes) \<Rightarrow> commitment_context \<Rightarrow> bytes \<Rightarrow> leaf_proof \<Rightarrow> branch_proof list \<Rightarrow> bytes set" where
  "path_messages H ctx k leaf [] = {leaf_message ctx leaf}"
| "path_messages H ctx k leaf (step # path) =
     insert
       (join_message ctx k step
          (projr (rbind (leaf_commitment H ctx leaf) (\<lambda>c. fold_path H ctx k c path))))
       (path_messages H ctx k leaf path)"

definition proof_messages ::
  "(bytes \<Rightarrow> bytes) \<Rightarrow> commitment_context \<Rightarrow> bytes \<Rightarrow> lookup_proof \<Rightarrow> bytes set" where
  "proof_messages H ctx k p =
     (case lk_leaf p of None \<Rightarrow> {hasher ctx 0}
      | Some leaf \<Rightarrow> path_messages H ctx k leaf (lk_branches p))"

lemma hasher_inject:
  "hasher ctx a @ xs = hasher ctx b @ ys \<longleftrightarrow> a = b \<and> xs = ys"
  by (auto simp: hasher_def)

lemma feed_inject:
  assumes "length (c_digest c) = 32" "length (c_digest d) = 32"
    and "c_entries c < 2 ^ 64" "c_entries d < 2 ^ 64" "c_logical_bytes c < 2 ^ 64" "c_logical_bytes d < 2 ^ 64"
  shows "feed c @ xs = feed d @ ys \<longleftrightarrow> c = d \<and> xs = ys"
proof -
  have "be_bytes 8 (c_entries c) = be_bytes 8 (c_entries d) \<longleftrightarrow> c_entries c = c_entries d"
      "be_bytes 8 (c_logical_bytes c) = be_bytes 8 (c_logical_bytes d) \<longleftrightarrow> c_logical_bytes c = c_logical_bytes d"
    using assms by (auto intro!: be_bytes_inject)
  then show ?thesis using assms(1,2) by (auto simp: feed_def)
qed

lemma leaf_message_inject:
  assumes "leaf_commitment H ctx x = Inr c" "leaf_commitment H ctx y = Inr d" "leaf_typed x" "leaf_typed y"
  shows "leaf_message ctx x = leaf_message ctx y \<longleftrightarrow> x = y"
proof -
  have "be_bytes 4 (length (lp_key x)) = be_bytes 4 (length (lp_key y))
      \<longleftrightarrow> length (lp_key x) = length (lp_key y)"
    "be_bytes 8 (vc_length (lp_value x)) = be_bytes 8 (vc_length (lp_value y))
      \<longleftrightarrow> vc_length (lp_value x) = vc_length (lp_value y)"
    using assms(1,2)
    by (auto intro!: be_bytes_inject simp: leaf_commitment_Inr MAX_KEY_BYTES_def MAX_VALUE_BYTES_def)
  then show ?thesis using assms(3,4) by (auto simp: leaf_message_def hasher_inject leaf_typed_def)
qed

lemma branch_message_inject:
  assumes "branch_commitment H ctx a l r = Inr c" "branch_commitment H ctx b l' r' = Inr d"
    and "length (c_digest l) = 32" "length (c_digest r) = 32"
    and "length (c_digest l') = 32" "length (c_digest r') = 32"
  shows "branch_message ctx a l r = branch_message ctx b l' r' \<longleftrightarrow> a = b \<and> l = l' \<and> r = r'"
proof -
  have bounds: "a < 2 ^ 32" "b < 2 ^ 32" "c_entries l < 2 ^ 64" "c_entries l' < 2 ^ 64"
      "c_entries r < 2 ^ 64" "c_entries r' < 2 ^ 64" "c_logical_bytes l < 2 ^ 64"
      "c_logical_bytes l' < 2 ^ 64" "c_logical_bytes r < 2 ^ 64" "c_logical_bytes r' < 2 ^ 64"
    using assms(1,2)
    by (auto simp: branch_commitment_Inr MAX_BRANCH_BITS_def MAX_KEY_BYTES_def MAX_ENTRIES_def usize_max_def)
  have "be_bytes 4 a = be_bytes 4 b \<longleftrightarrow> a = b"
    using bounds(1,2) by (intro be_bytes_inject) simp_all
  moreover have "feed r = feed r' \<longleftrightarrow> r = r'"
    using feed_inject [of r r' "[]" "[]"] assms bounds by simp
  ultimately show ?thesis
    using assms bounds feed_inject [of l l' "feed r" "feed r'"]
    by (simp add: branch_message_def hasher_inject)
qed

lemma leaf_branch_message: "leaf_message ctx leaf \<noteq> branch_message ctx b l r"
  unfolding leaf_message_def branch_message_def by (simp add: hasher_inject)

lemma empty_message:
  "hasher ctx 0 \<noteq> leaf_message ctx leaf" "hasher ctx 0 \<noteq> branch_message ctx b l r"
  using hasher_inject [of ctx 0 "[]"] unfolding leaf_message_def branch_message_def by simp_all


section \<open>A verified proof is the path of the tree\<close>

definition collision_free :: "(bytes \<Rightarrow> bytes) \<Rightarrow> bytes set \<Rightarrow> bytes set \<Rightarrow> bool" where
  "collision_free H A B \<longleftrightarrow> (\<forall>m \<in> A. \<forall>m' \<in> B. H m = H m' \<longrightarrow> m = m')"

lemma collision_freeD: "collision_free H A B \<Longrightarrow> m \<in> A \<Longrightarrow> m' \<in> B \<Longrightarrow> H m = H m' \<Longrightarrow> m = m'"
  by (simp add: collision_free_def)

lemma ct_commit_digest: "ct_commit H ctx t = Inr c \<Longrightarrow> \<forall>m. length (H m) = 32 \<Longrightarrow> length (c_digest c) = 32"
  by (cases t) (auto simp: leaf_commitment_Inr rbind_eq_Inr branch_commitment_Inr)

lemma ct_commit_message:
  "ct_commit H ctx t = Inr c \<Longrightarrow> \<exists>m \<in> ct_messages H ctx t. c_digest c = H m"
  by (cases t) (auto simp: leaf_commitment_Inr rbind_eq_Inr branch_commitment_Inr)

lemma fold_path_digest:
  assumes "leaf_commitment H ctx leaf = Inr child" "fold_path H ctx k child path = Inr c"
    and "\<forall>m. length (H m) = 32"
  shows "length (c_digest c) = 32"
  using assms
  by (cases path) (auto simp: leaf_commitment_Inr rbind_eq_Inr join_step_def branch_commitment_Inr split: if_splits)

lemma branch_digest: "branch_commitment H ctx b l r = Inr c \<Longrightarrow> c_digest c = H (branch_message ctx b l r)"
  by (simp add: branch_commitment_Inr)

lemma leaf_digest: "leaf_commitment H ctx leaf = Inr c \<Longrightarrow> c_digest c = H (leaf_message ctx leaf)"
  by (simp add: leaf_commitment_Inr)

lemma join_digest: "join_step H ctx k step child = Inr c \<Longrightarrow> c_digest c = H (join_message ctx k step child)"
  by (auto simp: join_step_def join_message_def branch_digest split: if_splits)

lemma leaf_join_message: "leaf_message ctx leaf \<noteq> join_message ctx k step child"
  by (simp add: join_message_def leaf_branch_message)

lemma path_unique_step:
  assumes H: "\<forall>m. length (H m) = 32"
    and join: "join_step H ctx k step child = Inr c" "length (c_digest (bp_sibling step)) = 32"
      "length (c_digest child) = 32"
    and tree: "ct_commit H ctx l = Inr cl" "ct_commit H ctx r = Inr cr"
      "branch_commitment H ctx b cl cr = Inr c"
    and message: "branch_message ctx b cl cr = join_message ctx k step child"
  shows "bp_bit step = b \<and> (if key_bit k b then bp_sibling step = cl \<and> child = cr
                                         else bp_sibling step = cr \<and> child = cl)"
proof -
  note len = ct_commit_digest [OF tree(1) H] ct_commit_digest [OF tree(2) H]
  show ?thesis
  proof (cases "key_bit k (bp_bit step)")
    case True
    then have b: "branch_commitment H ctx (bp_bit step) (bp_sibling step) child = Inr c"
      using join(1) by (simp add: join_step_def)
    have "branch_message ctx b cl cr = branch_message ctx (bp_bit step) (bp_sibling step) child"
      using message True by (simp add: join_message_def)
    with branch_message_inject [OF tree(3) b len join(2,3)] True show ?thesis by simp
  next
    case False
    then have b: "branch_commitment H ctx (bp_bit step) child (bp_sibling step) = Inr c"
      using join(1) by (simp add: join_step_def)
    have "branch_message ctx b cl cr = branch_message ctx (bp_bit step) child (bp_sibling step)"
      using message False by (simp add: join_message_def)
    with branch_message_inject [OF tree(3) b len join(3,2)] False show ?thesis by simp
  qed
qed

lemma path_unique:
  assumes H: "\<forall>m. length (H m) = 32"
    and leaf: "leaf_commitment H ctx leaf = Inr child" "leaf_typed leaf"
    and "fold_path H ctx k child path = Inr c" "path_typed path"
    and "ct_commit H ctx t = Inr c" "ct_typed t"
    and "collision_free H (ct_messages H ctx t) (path_messages H ctx k leaf path)"
  shows "leaf = descend t k \<and> path = ct_path H ctx t k"
  using assms(4-)
proof (induction t arbitrary: path c)
  case (CLeaf l)
  have l: "leaf_commitment H ctx l = Inr c" using CLeaf.prems(3) by simp
  note free = collision_freeD [OF CLeaf.prems(5), of "leaf_message ctx l"]
  show ?case
  proof (cases path)
    case Nil
    then have "leaf_message ctx l = leaf_message ctx leaf"
      using leaf_digest [OF l] leaf_digest [OF leaf(1)] CLeaf.prems(1) by (intro free) simp_all
    then show ?thesis
      using leaf_message_inject [OF l leaf(1)] CLeaf.prems(4) leaf(2) Nil by simp
  next
    case (Cons step path')
    obtain child' where child': "fold_path H ctx k child path' = Inr child'"
        "join_step H ctx k step child' = Inr c"
      using CLeaf.prems(1) Cons by (auto simp: rbind_eq_Inr)
    have "leaf_message ctx l = join_message ctx k step child'"
      using leaf_digest [OF l] join_digest [OF child'(2)] Cons leaf(1) child'(1)
      by (intro free) simp_all
    then show ?thesis by (simp add: leaf_join_message)
  qed
next
  case (CBranch b l r)
  obtain cl cr where tree: "ct_commit H ctx l = Inr cl" "ct_commit H ctx r = Inr cr"
      "branch_commitment H ctx b cl cr = Inr c"
    using CBranch.prems(3) ct_commit_branch_Inr by metis
  have mem: "branch_message ctx b cl cr \<in> ct_messages H ctx (CBranch b l r)" using tree by simp
  note free = collision_freeD [OF CBranch.prems(5) mem]
  show ?case
  proof (cases path)
    case Nil
    then have "branch_message ctx b cl cr = leaf_message ctx leaf"
      using leaf_digest [OF leaf(1)] branch_digest [OF tree(3)] CBranch.prems(1) by (intro free) simp_all
    then show ?thesis using leaf_branch_message by metis
  next
    case (Cons step path')
    obtain child' where child': "fold_path H ctx k child path' = Inr child'"
        "join_step H ctx k step child' = Inr c"
      using CBranch.prems(1) Cons by (auto simp: rbind_eq_Inr)
    have typed: "length (c_digest (bp_sibling step)) = 32" "path_typed path'"
      using CBranch.prems(2) Cons by (simp_all add: path_typed_def)
    have "branch_message ctx b cl cr = join_message ctx k step child'"
      using branch_digest [OF tree(3)] join_digest [OF child'(2)] Cons leaf(1) child'(1)
      by (intro free) simp_all
    then have step: "bp_bit step = b \<and> (if key_bit k b then bp_sibling step = cl \<and> child' = cr
                                         else bp_sibling step = cr \<and> child' = cl)"
      by (rule path_unique_step [OF H child'(2) typed(1) fold_path_digest [OF leaf(1) child'(1) H] tree])
    have free': "collision_free H (ct_messages H ctx l) (path_messages H ctx k leaf path')"
        "collision_free H (ct_messages H ctx r) (path_messages H ctx k leaf path')"
      using CBranch.prems(5) Cons by (simp_all add: collision_free_def)
    show ?thesis
    proof (cases "key_bit k b")
      case True
      then show ?thesis
        using CBranch.IH(2) [OF _ typed(2) tree(2) _ free'(2)] step child'(1) CBranch.prems(4) Cons tree(1)
        by (cases step) simp
    next
      case False
      then show ?thesis
        using CBranch.IH(1) [OF _ typed(2) tree(1) _ free'(1)] step child'(1) CBranch.prems(4) Cons tree(2)
        by (cases step) simp
    qed
  qed
qed


definition root_typed :: "ctree option \<Rightarrow> bool" where
  "root_typed t \<longleftrightarrow> (case t of None \<Rightarrow> True | Some t \<Rightarrow> ct_typed t)"

lemma ct_commit_entries: "ct_commit H ctx t = Inr c \<Longrightarrow> c_entries c \<noteq> 0"
  by (cases t) (auto simp: leaf_commitment_Inr rbind_eq_Inr branch_commitment_Inr)

lemma fold_path_entries:
  "fold_path H ctx k child path = Inr c \<Longrightarrow> c_entries child \<noteq> 0 \<Longrightarrow> c_entries c \<noteq> 0"
  by (cases path) (auto simp: rbind_eq_Inr join_step_def branch_commitment_Inr split: if_splits)

lemma verify_Inr:
  "verify H ctx expected k p = Inr r \<longleftrightarrow>
     (case lk_leaf p of
        None \<Rightarrow> lk_branches p = [] \<and> expected = empty_commitment H ctx \<and> r = None
      | Some leaf \<Rightarrow>
          validate_route k leaf (lk_branches p) = Inr ()
          \<and> (\<exists>child. leaf_commitment H ctx leaf = Inr child
                \<and> fold_path H ctx k child (lk_branches p) = Inr expected)
          \<and> r = (if lp_key leaf = k then Some (lp_value leaf) else None))"
  by (auto simp: verify_def rbind_eq_Inr split: option.splits)

lemma verify_sound:
  assumes H: "\<forall>m. length (H m) = 32"
    and tree: "root_typed t" "root_commit H ctx t = Inr c"
    and "proof_typed p" "collision_free H (root_messages H ctx t) (proof_messages H ctx k p)"
    and verify: "verify H ctx c k p = Inr r"
  shows "p = honest_proof H ctx t k"
proof (cases "lk_leaf p")
  case None
  then have c: "lk_branches p = []" "c_entries c = 0"
    using verify by (simp_all add: verify_Inr empty_commitment_def)
  then have "t = None"
    using tree(2) by (cases t) (auto simp: root_commit_def dest: ct_commit_entries)
  then show ?thesis using None c(1) by (simp add: honest_proof_def)
next
  case (Some leaf)
  then obtain child where child: "leaf_commitment H ctx leaf = Inr child"
      "fold_path H ctx k child (lk_branches p) = Inr c"
    using verify by (auto simp: verify_Inr)
  then have "c_entries c \<noteq> 0" using fold_path_entries by (auto simp: leaf_commitment_Inr)
  then obtain u where u: "t = Some u" "ct_commit H ctx u = Inr c"
    using tree(2) by (auto simp: root_commit_def empty_commitment_def split: option.splits)
  then have "leaf = descend u k \<and> lk_branches p = ct_path H ctx u k"
    using assms(1-5) child Some
    by (intro path_unique [OF H child(1) _ child(2) _ u(2)])
      (simp_all add: proof_typed_def root_typed_def root_messages_def proof_messages_def)
  with Some u(1) show ?thesis by (cases p) (simp add: honest_proof_def)
qed

section \<open>The commitment binds the map\<close>

lemma ct_commit_inject:
  assumes H: "\<forall>m. length (H m) = 32"
    and "ct_commit H ctx t = Inr c" "ct_commit H ctx u = Inr c" "ct_typed t" "ct_typed u"
    and "collision_free H (ct_messages H ctx t) (ct_messages H ctx u)"
  shows "t = u"
  using assms(2-)
proof (induction t arbitrary: u c)
  case (CLeaf l)
  have l: "leaf_commitment H ctx l = Inr c" using CLeaf.prems(1) by simp
  note free = collision_freeD [OF CLeaf.prems(5), of "leaf_message ctx l"]
  show ?case
  proof (cases u)
    case u: (CLeaf l')
    have l': "leaf_commitment H ctx l' = Inr c" using CLeaf.prems(2) u by simp
    have "leaf_message ctx l = leaf_message ctx l'"
      using leaf_digest [OF l] leaf_digest [OF l'] u by (intro free) simp_all
    with leaf_message_inject [OF l l'] CLeaf.prems(3,4) u show ?thesis by simp
  next
    case u: (CBranch b x y)
    obtain cl cr where tree: "ct_commit H ctx x = Inr cl" "ct_commit H ctx y = Inr cr"
        "branch_commitment H ctx b cl cr = Inr c"
      using CLeaf.prems(2) ct_commit_branch_Inr u by metis
    have "leaf_message ctx l = branch_message ctx b cl cr"
      using leaf_digest [OF l] branch_digest [OF tree(3)] u tree by (intro free) simp_all
    then show ?thesis by (simp add: leaf_branch_message)
  qed
next
  case (CBranch b l r)
  obtain cl cr where tree: "ct_commit H ctx l = Inr cl" "ct_commit H ctx r = Inr cr"
      "branch_commitment H ctx b cl cr = Inr c"
    using CBranch.prems(1) ct_commit_branch_Inr by metis
  have mem: "branch_message ctx b cl cr \<in> ct_messages H ctx (CBranch b l r)" using tree by simp
  note free = collision_freeD [OF CBranch.prems(5) mem]
  show ?case
  proof (cases u)
    case u: (CLeaf l')
    have l': "leaf_commitment H ctx l' = Inr c" using CBranch.prems(2) u by simp
    have "branch_message ctx b cl cr = leaf_message ctx l'"
      using leaf_digest [OF l'] branch_digest [OF tree(3)] u by (intro free) simp_all
    then show ?thesis using leaf_branch_message by metis
  next
    case u: (CBranch b' x y)
    obtain cx cy where tree': "ct_commit H ctx x = Inr cx" "ct_commit H ctx y = Inr cy"
        "branch_commitment H ctx b' cx cy = Inr c"
      using CBranch.prems(2) ct_commit_branch_Inr u by metis
    have "branch_message ctx b cl cr = branch_message ctx b' cx cy"
      using branch_digest [OF tree(3)] branch_digest [OF tree'(3)] u tree' by (intro free) simp_all
    then have eq: "b = b'" "cl = cx" "cr = cy"
      using branch_message_inject [OF tree(3) tree'(3)]
        ct_commit_digest [OF tree(1) H] ct_commit_digest [OF tree(2) H]
        ct_commit_digest [OF tree'(1) H] ct_commit_digest [OF tree'(2) H] by simp_all
    have "l = x" "r = y"
      using CBranch.IH(1) [OF tree(1), of x] CBranch.IH(2) [OF tree(2), of y] tree' eq CBranch.prems(3-5) u
      by (simp_all add: collision_free_def)
    with u eq show ?thesis by simp
  qed
qed


end
