(* ===== verification/Commitment_Exact.thy ===== *)
theory Commitment_Exact
  imports Commitment_Proof
begin

text \<open>
  What the operations of \<open>ordered_commitment.rs\<close> guarantee of the key-value map behind a root:
  lookups, changes, the binding of the root to the map, and the streamed value commitment.
\<close>

section \<open>A concrete hash function for the examples\<close>

text \<open>It keeps the part of a message that follows the fixed prefix.\<close>

definition tail_hash :: "bytes \<Rightarrow> bytes" where
  "tail_hash m = take 32 (drop 92 m @ replicate 32 0)"

definition tail_context :: commitment_context where
  "tail_context =
     \<lparr>ctx_scope = NamespaceRef (replicate 16 1) (replicate 16 2),
      ctx_profile = replicate 32 3, ctx_family = 1\<rparr>"

lemma length_tail_hash: "\<forall>m. length (tail_hash m) = 32"
  by (auto simp: tail_hash_def min_def)

lemma tail_hash_message: "tail_hash (hasher tail_context kind @ m) = take 32 (kind # m @ replicate 32 0)"
  by (simp add: tail_hash_def hasher_def tail_context_def NODE_DOMAIN_def)

definition tail_tree :: "ctree" where
  "tail_tree = CBranch 1
     (CLeaf \<lparr>lp_key = [0x10], lp_value = \<lparr>vc_length = 5, vc_digest = replicate 32 7\<rparr>\<rparr>)
     (CLeaf \<lparr>lp_key = [0x90], lp_value = \<lparr>vc_length = 6, vc_digest = replicate 32 8\<rparr>\<rparr>)"

lemma tail_tree_wf: "root_wf (Some tail_tree)" "root_typed (Some tail_tree)"
  by (simp_all add: root_wf_def root_typed_def tail_tree_def ct_wf.simps key_bit_def Let_def less_Suc_eq
      leaf_typed_def)

lemma tail_tree_commit: "\<exists>c. root_commit tail_hash tail_context (Some tail_tree) = Inr c"
  by (simp add: root_commit_def tail_tree_def leaf_commitment_def branch_commitment_def key_valid_def
      MAX_KEY_BYTES_def MAX_VALUE_BYTES_def MAX_BRANCH_BITS_def MAX_ENTRIES_def checked_add_def usize_max_def)

lemma tail_hash_nth:
  "tail_hash (leaf_message tail_context leaf) ! 0 = 1"
  "tail_hash (branch_message tail_context b l r) ! 0 = 2"
  "lp_key leaf = [x] \<Longrightarrow> tail_hash (leaf_message tail_context leaf) ! 5 = x"
  by (simp_all add: leaf_message_def branch_message_def tail_hash_message nth_append)

lemma tail_hash_leaves:
  assumes "lp_key x = [a]" "lp_key y = [b]" "a \<noteq> b"
  shows "tail_hash (leaf_message tail_context x) \<noteq> tail_hash (leaf_message tail_context y)"
  using tail_hash_nth(3) [OF assms(1)] tail_hash_nth(3) [OF assms(2)] assms(3) by metis

lemma tail_hash_kinds:
  "tail_hash (leaf_message tail_context x) \<noteq> tail_hash (branch_message tail_context b l r)"
proof
  assume "tail_hash (leaf_message tail_context x) = tail_hash (branch_message tail_context b l r)"
  then have "(1 :: u8) = 2" using tail_hash_nth(1,2) by metis
  then show False by simp
qed

lemma tail_tree_free:
  "collision_free tail_hash (root_messages tail_hash tail_context (Some tail_tree))
     (root_messages tail_hash tail_context (Some tail_tree))"
  unfolding collision_free_def root_messages_def tail_tree_def
  using tail_hash_leaves tail_hash_kinds by (simp add: not_sym)

text \<open>The messages of an honest proof are messages of the tree.\<close>

lemma path_messages_honest:
  "ct_commit H ctx t = Inr c \<Longrightarrow>
   path_messages H ctx k (descend t k) (ct_path H ctx t k) \<subseteq> ct_messages H ctx t"
proof (induction t arbitrary: c)
  case (CBranch b l r)
  obtain cl cr where tree: "ct_commit H ctx l = Inr cl" "ct_commit H ctx r = Inr cr"
    using CBranch.prems ct_commit_branch_Inr by metis
  obtain lf rf where "leaf_commitment H ctx (descend l k) = Inr lf" "leaf_commitment H ctx (descend r k) = Inr rf"
    using descend_commit [OF tree(1)] descend_commit [OF tree(2)] by blast
  then show ?case
    using CBranch.IH(1) [OF tree(1)] CBranch.IH(2) [OF tree(2)] tree
      fold_honest [OF tree(1)] fold_honest [OF tree(2)]
    by (auto simp: join_message_def)
qed simp

lemma proof_messages_honest:
  "root_commit H ctx t = Inr c \<Longrightarrow> proof_messages H ctx k (honest_proof H ctx t k) \<subseteq> root_messages H ctx t"
  using path_messages_honest
  by (fastforce simp: proof_messages_def honest_proof_def root_messages_def root_commit_def split: option.splits)

lemma collision_free_mono: "collision_free H A B \<Longrightarrow> B' \<subseteq> B \<Longrightarrow> collision_free H A B'"
  by (auto simp: collision_free_def)

section \<open>Lookups\<close>

text \<open>C10. Take a root commitment \<open>c\<close> of a map, stored as a critical-bit tree \<open>t\<close>, and a hash
  function that does not collide on the messages of the tree and of the proof at hand.  Then
  \<open>verify_lookup\<close> accepts a proof exactly when it is within the limits and is the path of the
  tree, and its answer, presence or absence, is the entry of the map at the key.\<close>

theorem verify_lookup_exact:
  assumes "\<forall>m. length (H m) = 32"
    and "root_wf t" "root_typed t" "root_commit H ctx t = Inr c"
    and "proof_typed p" "collision_free H (root_messages H ctx t) (proof_messages H ctx k p)"
  shows "verify_lookup H ctx c k p limits = Inr r \<longleftrightarrow>
    admit k p limits 0 = Inr () \<and> p = honest_proof H ctx t k \<and> r = root_entries t k"
proof
  assume "verify_lookup H ctx c k p limits = Inr r"
  then have v: "admit k p limits 0 = Inr ()" "verify H ctx c k p = Inr r"
    by (simp_all add: verify_lookup_def rbind_eq_Inr)
  then have "p = honest_proof H ctx t k" using assms by (intro verify_sound) simp_all
  with v verify_honest [OF assms(2,4)]
  show "admit k p limits 0 = Inr () \<and> p = honest_proof H ctx t k \<and> r = root_entries t k" by simp
next
  assume "admit k p limits 0 = Inr () \<and> p = honest_proof H ctx t k \<and> r = root_entries t k"
  then show "verify_lookup H ctx c k p limits = Inr r"
    using verify_honest [OF assms(2,4)] by (auto simp: verify_lookup_def rbind_eq_Inr)
qed

lemma honest_leaf_typed: "ct_typed u \<Longrightarrow> leaf_typed (descend u k)"
  by (induction u) simp_all

lemma honest_path_typed:
  "\<forall>m. length (H m) = 32 \<Longrightarrow> ct_commit H ctx u = Inr c \<Longrightarrow> path_typed (ct_path H ctx u k)"
proof (induction u arbitrary: c)
  case (CBranch b l r)
  then obtain cl cr where tree: "ct_commit H ctx l = Inr cl" "ct_commit H ctx r = Inr cr"
    using ct_commit_branch_Inr by metis
  with CBranch.IH CBranch.prems(1) ct_commit_digest [OF tree(1)] ct_commit_digest [OF tree(2)]
  show ?case by (simp add: path_typed_def)
qed (simp add: path_typed_def)

lemma honest_typed:
  assumes "root_typed t" "\<forall>m. length (H m) = 32" "root_commit H ctx t = Inr c"
  shows "proof_typed (honest_proof H ctx t k)"
  using assms honest_path_typed [OF assms(2)] honest_leaf_typed
  by (auto simp: proof_typed_def honest_proof_def root_typed_def root_commit_def path_typed_def
      split: option.splits)

definition tail_limits :: commitment_limits where
  "tail_limits = \<lparr>maximum_branches = 8, maximum_input_bytes = 1000\<rparr>"

lemma tail_admit:
  "n \<le> 100 \<Longrightarrow>
   admit [w] (honest_proof tail_hash tail_context (Some tail_tree) [w]) tail_limits n = Inr ()"
  by (simp add: admit_def honest_proof_def tail_tree_def tail_limits_def key_valid_def key_bit_def
      MAX_BRANCH_BITS_def MAX_KEY_BYTES_def MAX_PROOF_INPUT_BYTES_def MAX_VALUE_BYTES_def
      checked_add_def checked_mul_def usize_max_def)

lemmas tail_proof_free =
  collision_free_mono [OF tail_tree_free proof_messages_honest]

theorem verify_lookup_exact_witness:
  "\<exists>c. root_commit tail_hash tail_context (Some tail_tree) = Inr c
     \<and> verify_lookup tail_hash tail_context c [0x90]
         (honest_proof tail_hash tail_context (Some tail_tree) [0x90]) tail_limits
       = Inr (root_entries (Some tail_tree) [0x90])"
proof -
  obtain c where c: "root_commit tail_hash tail_context (Some tail_tree) = Inr c"
    using tail_tree_commit by blast
  show ?thesis
    using verify_lookup_exact [OF length_tail_hash tail_tree_wf c
        honest_typed [OF tail_tree_wf(2) length_tail_hash c] tail_proof_free [OF c]]
      c tail_admit [of 0] by blast
qed

section \<open>Changes\<close>

text \<open>C11. Under the same assumptions \<open>apply_delta\<close> returns a new root exactly when the values and
  the proof are within the limits, the proof is the path of the tree, the claimed value before the
  change is the one the map has, and the updated map has a commitment, which is the returned one.
  The updated tree is the tree of the map with the entry set or removed.\<close>

theorem apply_delta_exact:
  assumes "\<forall>m. length (H m) = 32"
    and "root_wf t" "root_typed t" "root_commit H ctx t = Inr c"
    and "proof_typed p" "collision_free H (root_messages H ctx t) (proof_messages H ctx k p)"
  shows "(apply_delta H ctx c k before after p limits = Inr c' \<longleftrightarrow>
      (\<forall>v. before = Some v \<longrightarrow> length v \<le> MAX_VALUE_BYTES)
      \<and> (\<forall>v. after = Some v \<longrightarrow> length v \<le> MAX_VALUE_BYTES)
      \<and> admit k p limits ((case before of None \<Rightarrow> 0 | Some v \<Rightarrow> length v)
          + (case after of None \<Rightarrow> 0 | Some v \<Rightarrow> length v)) = Inr ()
      \<and> p = honest_proof H ctx t k
      \<and> commit_before H before = Inr (root_entries t k)
      \<and> root_commit H ctx (ct_update t k (delta_target H after)) = Inr c')
    \<and> root_wf (ct_update t k (delta_target H after))
    \<and> root_entries (ct_update t k (delta_target H after)) = (root_entries t)(k := delta_target H after)"
proof -
  have p: "p = honest_proof H ctx t k" if "verify H ctx c k p = Inr r" for r
    using assms that by (intro verify_sound) simp_all
  have valid: "key_valid k = Inr ()" if "admit k p limits n = Inr ()" for n
    using that by (simp add: admit_def rbind_eq_Inr)
  show ?thesis
    using ct_update_ok [OF assms(2)] p valid verify_honest [OF assms(2,4)]
      delta_result_honest [OF assms(2,4)]
    unfolding apply_delta_Inr by (metis Inr_inject)
qed


lemma tail_update_commit:
  "\<exists>c. root_commit tail_hash tail_context
     (ct_update (Some tail_tree) [0x98] (delta_target tail_hash (Some [1, 2, 3]))) = Inr c"
  by (simp add: root_commit_def tail_tree_def ct_update_def delta_target_def commit_before_def
      value_commitment_of_def key_bit_def first_difference_def leading_zeros_def ct_split_def
      leaf_commitment_def branch_commitment_def key_valid_def
      MAX_KEY_BYTES_def MAX_VALUE_BYTES_def MAX_BRANCH_BITS_def MAX_ENTRIES_def checked_add_def usize_max_def)

theorem apply_delta_exact_witness:
  "\<exists>c c'. root_commit tail_hash tail_context (Some tail_tree) = Inr c
     \<and> apply_delta tail_hash tail_context c [0x98] None (Some [1, 2, 3])
         (honest_proof tail_hash tail_context (Some tail_tree) [0x98]) tail_limits = Inr c'"
proof -
  obtain c where c: "root_commit tail_hash tail_context (Some tail_tree) = Inr c"
    using tail_tree_commit by blast
  obtain c' where c': "root_commit tail_hash tail_context
      (ct_update (Some tail_tree) [0x98] (delta_target tail_hash (Some [1, 2, 3]))) = Inr c'"
    using tail_update_commit by blast
  have "root_entries (Some tail_tree) [0x98] = None"
    by (simp add: root_entries_def tail_tree_def)
  then have "apply_delta tail_hash tail_context c [0x98] None (Some [1, 2, 3])
      (honest_proof tail_hash tail_context (Some tail_tree) [0x98]) tail_limits = Inr c'"
    using apply_delta_exact [OF length_tail_hash tail_tree_wf c
        honest_typed [OF tail_tree_wf(2) length_tail_hash c] tail_proof_free [OF c],
        of "[0x98]" None "Some [1, 2, 3]" tail_limits c'] c' tail_admit [of "Suc (Suc (Suc 0))" "0x98"]
    by (simp add: MAX_VALUE_BYTES_def commit_before_def)
  with c show ?thesis by blast
qed

section \<open>The root determines the map\<close>

text \<open>C12. Two maps with a commitment, whose messages do not collide, have the same root exactly when
  they have the same entries: the root does not depend on the order in which the entries were
  inserted or removed, and no two maps share it.\<close>

theorem root_commit_canonical:
  assumes "\<forall>m. length (H m) = 32"
    and "root_wf t" "root_typed t" "root_commit H ctx t = Inr c"
    and "root_wf u" "root_typed u" "root_commit H ctx u = Inr d"
    and "collision_free H (root_messages H ctx t) (root_messages H ctx u)"
  shows "c = d \<longleftrightarrow> root_entries t = root_entries u"
proof -
  have nonempty: "ct_map x \<noteq> Map.empty" "Map.empty \<noteq> ct_map x" for x
    using dom_ct_map [of x] ct_keys_nonempty [of x] by (metis dom_eq_empty_conv)+
  have ne: "c \<noteq> empty_commitment H ctx" if "ct_commit H ctx x = Inr c" for x c
    using ct_commit_entries [OF that] by (auto simp: empty_commitment_def)
  show ?thesis
  proof (cases t)
    case None
    then show ?thesis
      using assms(4,7) nonempty ne by (cases u) (auto simp: root_commit_def root_entries_def)
  next
    case t: (Some x)
    show ?thesis
    proof (cases u)
      case None
      then show ?thesis
        using assms(4,7) nonempty ne t by (auto simp: root_commit_def root_entries_def)
    next
      case (Some y)
      have "x = y" if "c = d"
        using ct_commit_inject [OF assms(1), of ctx x c y] assms t Some that
        by (simp add: root_typed_def root_commit_def root_messages_def)
      moreover have "x = y" if "ct_map x = ct_map y"
        using ct_unique [of x y] assms(2,5) t Some that by (simp add: root_wf_def)
      ultimately show ?thesis using assms(4,7) t Some by (auto simp: root_entries_def)
    qed
  qed
qed

text \<open>A second map, with another key in place of the first one, for the example.\<close>

definition other_tree :: "ctree" where
  "other_tree = CBranch 1
     (CLeaf \<lparr>lp_key = [0x20], lp_value = \<lparr>vc_length = 5, vc_digest = replicate 32 7\<rparr>\<rparr>)
     (CLeaf \<lparr>lp_key = [0x90], lp_value = \<lparr>vc_length = 6, vc_digest = replicate 32 8\<rparr>\<rparr>)"

lemma other_tree_wf: "root_wf (Some other_tree)" "root_typed (Some other_tree)"
  by (simp_all add: root_wf_def root_typed_def other_tree_def ct_wf.simps key_bit_def Let_def less_Suc_eq
      leaf_typed_def)

lemma other_tree_commit: "\<exists>c. root_commit tail_hash tail_context (Some other_tree) = Inr c"
  by (simp add: root_commit_def other_tree_def leaf_commitment_def branch_commitment_def key_valid_def
      MAX_KEY_BYTES_def MAX_VALUE_BYTES_def MAX_BRANCH_BITS_def MAX_ENTRIES_def checked_add_def usize_max_def)

lemma tail_hash_branches:
  assumes "length (c_digest l) = 32" "length (c_digest l') = 32" "c_digest l ! 5 \<noteq> c_digest l' ! 5"
  shows "tail_hash (branch_message tail_context b l r) \<noteq> tail_hash (branch_message tail_context b' l' r')"
proof -
  have nth: "tail_hash (branch_message tail_context b l r) ! 26 = c_digest l ! 5"
    if "length (c_digest l) = 32" for b l r
    using that by (simp add: branch_message_def tail_hash_message nth_append feed_def)
  show ?thesis using nth [OF assms(1)] nth [OF assms(2)] assms(3) by metis
qed

lemma tail_leaf_digest:
  assumes "leaf_commitment tail_hash tail_context x = Inr c" "lp_key x = [a]"
  shows "c_digest c ! 5 = a" "length (c_digest c) = 32"
  using assms tail_hash_nth(3) [OF assms(2)] length_tail_hash
  by (auto simp: leaf_commitment_def rbind_iffs split: if_splits)

lemma trees_free:
  "collision_free tail_hash (root_messages tail_hash tail_context (Some tail_tree))
     (root_messages tail_hash tail_context (Some other_tree))"
proof -
  define leaf where "leaf k n d = \<lparr>lp_key = [k], lp_value = \<lparr>vc_length = n, vc_digest = replicate 32 d\<rparr>\<rparr>"
    for k :: u8 and n and d :: u8
  have commit: "\<exists>c. leaf_commitment tail_hash tail_context (leaf k n d) = Inr c" if "n \<le> 6" for k n d
    using that by (simp add: leaf_def leaf_commitment_def key_valid_def MAX_KEY_BYTES_def MAX_VALUE_BYTES_def)
  obtain c c' where c: "leaf_commitment tail_hash tail_context (leaf 0x10 5 7) = Inr c"
      "leaf_commitment tail_hash tail_context (leaf 0x20 5 7) = Inr c'"
    using commit by fastforce
  have digests: "c_digest c ! 5 \<noteq> c_digest c' ! 5" "length (c_digest c) = 32" "length (c_digest c') = 32"
    using tail_leaf_digest [OF c(1), of "0x10"] tail_leaf_digest [OF c(2), of "0x20"] by (simp_all add: leaf_def)
  have trees: "tail_tree = CBranch 1 (CLeaf (leaf 0x10 5 7)) (CLeaf (leaf 0x90 6 8))"
      "other_tree = CBranch 1 (CLeaf (leaf 0x20 5 7)) (CLeaf (leaf 0x90 6 8))"
    by (simp_all add: tail_tree_def other_tree_def leaf_def)
  have leaves: "tail_hash (leaf_message tail_context (leaf k n d)) \<noteq> tail_hash (leaf_message tail_context (leaf k' n' d'))"
    if "k \<noteq> k'" for k k' n n' d d'
    using tail_hash_leaves [of "leaf k n d" k "leaf k' n' d'" k'] that by (simp add: leaf_def)
  show ?thesis
    unfolding collision_free_def root_messages_def trees
    using tail_hash_branches [OF digests(2,3,1)] leaves tail_hash_kinds by (simp add: c not_sym)
qed

theorem root_commit_canonical_witness:
  "\<exists>c d. root_commit tail_hash tail_context (Some tail_tree) = Inr c
     \<and> root_commit tail_hash tail_context (Some other_tree) = Inr d
     \<and> root_entries (Some tail_tree) \<noteq> root_entries (Some other_tree) \<and> c \<noteq> d"
proof -
  obtain c d where c: "root_commit tail_hash tail_context (Some tail_tree) = Inr c"
    and d: "root_commit tail_hash tail_context (Some other_tree) = Inr d"
    using tail_tree_commit other_tree_commit by blast
  have "root_entries (Some tail_tree) [0x10] \<noteq> root_entries (Some other_tree) [0x10]"
    by (simp add: root_entries_def tail_tree_def other_tree_def)
  then have "root_entries (Some tail_tree) \<noteq> root_entries (Some other_tree)" by metis
  then show ?thesis
    using root_commit_canonical [OF length_tail_hash tail_tree_wf c other_tree_wf d trees_free] c d by blast
qed

section \<open>Streamed value commitments\<close>

definition stream_feed :: "value_stream \<Rightarrow> bytes list \<Rightarrow> value_stream" where
  "stream_feed = foldl (\<lambda>s chunk. snd (value_stream_update chunk s))"

definition stream_run ::
  "(bytes \<Rightarrow> bytes) \<Rightarrow> nat \<Rightarrow> bytes list \<Rightarrow> commitment_error + value_commitment" where
  "stream_run H len chunks =
     rbind (value_stream_new len) (\<lambda>s. value_stream_finish H (stream_feed s chunks))"

lemma stream_feed_simps [simp]:
  "stream_feed s [] = s"
  "stream_feed s (chunk # chunks) = stream_feed (snd (value_stream_update chunk s)) chunks"
  by (simp_all add: stream_feed_def)

lemma stream_feed_failed: "vs_failed s \<Longrightarrow> vs_failed (stream_feed s chunks)"
  by (induction chunks arbitrary: s) (simp_all add: value_stream_update_def)

lemma stream_feed_fits:
  "\<not> vs_failed s \<Longrightarrow> length (concat chunks) \<le> vs_remaining s \<Longrightarrow>
   stream_feed s chunks = s\<lparr>vs_hash := vs_hash s @ concat chunks,
                            vs_remaining := vs_remaining s - length (concat chunks)\<rparr>"
  by (induction chunks arbitrary: s) (simp_all add: value_stream_update_def)

lemma stream_feed_overflow:
  "vs_remaining s < length (concat chunks) \<Longrightarrow> vs_failed (stream_feed s chunks)"
proof (induction chunks arbitrary: s)
  case (Cons chunk chunks)
  show ?case
  proof (cases "vs_failed s \<or> vs_remaining s < length chunk")
    case True
    then show ?thesis by (auto intro: stream_feed_failed simp: value_stream_update_def)
  next
    case False
    then show ?thesis using Cons.prems by (auto intro!: Cons.IH simp: value_stream_update_def)
  qed
qed simp

text \<open>C13. A value streamed in pieces of any sizes has the commitment of the whole value, provided
  the announced length is the length streamed; any other length ends in an error, also for a
  caller that ignores the errors of the individual updates.\<close>

theorem stream_run_exact:
  "stream_run H len chunks = Inr vc \<longleftrightarrow>
     length (concat chunks) = len \<and> value_commitment_of H (concat chunks) = Inr vc"
proof -
  define s where "s = \<lparr>vs_hash = VALUE_DOMAIN @ be_bytes 8 len, vs_length = len, vs_remaining = len,
                       vs_failed = False\<rparr>"
  have "value_stream_finish H (stream_feed s chunks) = Inr vc \<longleftrightarrow>
      length (concat chunks) = len
      \<and> vc = \<lparr>vc_length = len, vc_digest = H (VALUE_DOMAIN @ be_bytes 8 len @ concat chunks)\<rparr>"
  proof (cases "length (concat chunks) \<le> len")
    case True
    then show ?thesis
      using stream_feed_fits [of s chunks] by (auto simp: value_stream_finish_def s_def)
  next
    case False
    then show ?thesis
      using stream_feed_overflow [of s chunks] by (auto simp: value_stream_finish_def s_def)
  qed
  then show ?thesis
    by (auto simp: stream_run_def value_stream_new_def value_commitment_of_def s_def)
qed


end
