(* ===== verification/Policy.thy ===== *)
theory Policy
  imports Identity BTree_Map
begin

text \<open>
  The authorization kernel of \<open>crates/uste-policy\<close>: permission bit sets, quota limits, grants,
  namespace policies, and the kernel that authenticates, authorizes, issues leases, revalidates
  them and replaces policies.  The identity of an \<open>Arc<PolicyAuthority>\<close> is a natural number:
  \<open>Arc::ptr_eq\<close> is equality of the numbers.  A digest is its 32 bytes.  The states of one kernel
  are the ones reachable by \<open>kernel_step\<close>.
\<close>

subsection \<open>Actions and permission sets\<close>

definition MAX_PRINCIPALS_PER_NAMESPACE :: nat where "MAX_PRINCIPALS_PER_NAMESPACE = 65536"
definition MAX_RECORD_RULES_PER_GRANT :: nat where "MAX_RECORD_RULES_PER_GRANT = 100000"
definition MAX_AUTHORIZATION_REQUIREMENTS_PER_REQUEST :: nat where
  "MAX_AUTHORIZATION_REQUIREMENTS_PER_REQUEST = 100000"
definition HARD_MAX_REQUEST_BYTES :: nat where "HARD_MAX_REQUEST_BYTES = 16 * 1024 * 1024"
definition HARD_MAX_STAGED_BLOB_BYTES :: nat where
  "HARD_MAX_STAGED_BLOB_BYTES = 1024 * 1024 * 1024 * 1024"
definition HARD_MAX_COMMITTED_BLOB_BYTES :: nat where
  "HARD_MAX_COMMITTED_BLOB_BYTES = 1024 * 1024 * 1024 * 1024"
definition HARD_MAX_LIVE_UPLOADS :: nat where "HARD_MAX_LIVE_UPLOADS = 32"
definition HARD_MAX_BLOB_READ_BYTES :: nat where "HARD_MAX_BLOB_READ_BYTES = 1024 * 1024"

datatype action =
    ReadRecord | ReadHistory | ExpandGraph | Search | Aggregate | ReadBlob | Export | Commit
  | StartUpload | ResumeUpload | WriteUpload | FinishUpload | AbortUpload | ReadOwnOutcome
  | ReadAllOutcomes | InspectQuota | EvaluateBranch | Subscribe | ManagePolicy | ManageSchema
  | Import | Promote | ManageRetention | ManageKeys | ExecuteProcedure

text \<open>The discriminants of \<open>#[repr(u8)] enum Action\<close>, in declaration order.\<close>

definition all_actions :: "action list" where
  "all_actions =
     [ReadRecord, ReadHistory, ExpandGraph, Search, Aggregate, ReadBlob, Export, Commit,
      StartUpload, ResumeUpload, WriteUpload, FinishUpload, AbortUpload, ReadOwnOutcome,
      ReadAllOutcomes, InspectQuota, EvaluateBranch, Subscribe, ManagePolicy, ManageSchema,
      Import, Promote, ManageRetention, ManageKeys, ExecuteProcedure]"

fun action_index :: "action \<Rightarrow> nat" where
  "action_index ReadRecord = 0" | "action_index ReadHistory = 1" | "action_index ExpandGraph = 2"
| "action_index Search = 3" | "action_index Aggregate = 4" | "action_index ReadBlob = 5"
| "action_index Export = 6" | "action_index Commit = 7" | "action_index StartUpload = 8"
| "action_index ResumeUpload = 9" | "action_index WriteUpload = 10"
| "action_index FinishUpload = 11" | "action_index AbortUpload = 12"
| "action_index ReadOwnOutcome = 13" | "action_index ReadAllOutcomes = 14"
| "action_index InspectQuota = 15" | "action_index EvaluateBranch = 16"
| "action_index Subscribe = 17" | "action_index ManagePolicy = 18"
| "action_index ManageSchema = 19" | "action_index Import = 20" | "action_index Promote = 21"
| "action_index ManageRetention = 22" | "action_index ManageKeys = 23"
| "action_index ExecuteProcedure = 24"

definition ACTION_COUNT :: nat where
  "ACTION_COUNT = action_index ExecuteProcedure + 1"

definition VALID_PERMISSION_BITS :: "64 word" where
  "VALID_PERMISSION_BITS = push_bit ACTION_COUNT 1 - 1"

datatype policy_error = Unauthorized | ResourceLimit | InvalidPolicy | StalePolicy

datatype permission_set = PermissionSet (permission_bits: "64 word")

definition permissions_from_actions :: "action list \<Rightarrow> permission_set" where
  "permissions_from_actions actions =
     PermissionSet (fold (\<lambda>a bits. bits OR push_bit (action_index a) 1) actions 0)"

definition permits :: "permission_set \<Rightarrow> action \<Rightarrow> bool" where
  "permits p a \<longleftrightarrow> permission_bits p AND push_bit (action_index a) 1 \<noteq> 0"

definition permissions_empty :: "permission_set \<Rightarrow> bool" where
  "permissions_empty p \<longleftrightarrow> permission_bits p = 0"

definition permissions_from_bits :: "64 word \<Rightarrow> policy_error + permission_set" where
  "permissions_from_bits bits =
     (if bits AND NOT VALID_PERMISSION_BITS = 0 then Inr (PermissionSet bits) else Inl InvalidPolicy)"

subsection \<open>Quotas\<close>

record quota_limits =
  max_request_bytes :: nat
  max_staged_blob_bytes :: nat
  max_committed_blob_bytes :: nat
  max_live_uploads :: nat
  max_blob_read_bytes_per_call :: nat

definition within_hard_caps :: "quota_limits \<Rightarrow> bool" where
  "within_hard_caps q \<longleftrightarrow>
     max_request_bytes q \<le> HARD_MAX_REQUEST_BYTES
       \<and> max_staged_blob_bytes q \<le> HARD_MAX_STAGED_BLOB_BYTES
       \<and> max_committed_blob_bytes q \<le> HARD_MAX_COMMITTED_BLOB_BYTES
       \<and> max_live_uploads q \<le> HARD_MAX_LIVE_UPLOADS
       \<and> max_blob_read_bytes_per_call q \<le> HARD_MAX_BLOB_READ_BYTES"

definition quota_new :: "nat \<Rightarrow> nat \<Rightarrow> nat \<Rightarrow> nat \<Rightarrow> nat \<Rightarrow> policy_error + quota_limits" where
  "quota_new request staged committed uploads read =
     (let limits = \<lparr>max_request_bytes = request, max_staged_blob_bytes = staged,
            max_committed_blob_bytes = committed, max_live_uploads = uploads,
            max_blob_read_bytes_per_call = read\<rparr> in
      if within_hard_caps limits then Inr limits else Inl InvalidPolicy)"

definition quota_min :: "quota_limits \<Rightarrow> quota_limits \<Rightarrow> quota_limits" where
  "quota_min a b =
     \<lparr>max_request_bytes =
        (if max_request_bytes a < max_request_bytes b then max_request_bytes a else max_request_bytes b),
      max_staged_blob_bytes =
        (if max_staged_blob_bytes a < max_staged_blob_bytes b then max_staged_blob_bytes a
         else max_staged_blob_bytes b),
      max_committed_blob_bytes =
        (if max_committed_blob_bytes a < max_committed_blob_bytes b then max_committed_blob_bytes a
         else max_committed_blob_bytes b),
      max_live_uploads =
        (if max_live_uploads a < max_live_uploads b then max_live_uploads a else max_live_uploads b),
      max_blob_read_bytes_per_call =
        (if max_blob_read_bytes_per_call a < max_blob_read_bytes_per_call b
         then max_blob_read_bytes_per_call a else max_blob_read_bytes_per_call b)\<rparr>"

subsection \<open>Grants and namespace policies\<close>

type_synonym digest = bytes

datatype policy_version = PolicyVersion (policy_version_get: nat)

definition policy_version_new :: "nat \<Rightarrow> policy_error + policy_version" where
  "policy_version_new v = (if v = 0 then Inl InvalidPolicy else Inr (PolicyVersion v))"

text \<open>A record rule is its set of denied actions.\<close>

record namespace_grant =
  grant_permissions :: permission_set
  grant_quotas :: quota_limits
  record_rules :: "(identity, permission_set) bmap"

definition grant_new :: "permission_set \<Rightarrow> quota_limits \<Rightarrow> namespace_grant" where
  "grant_new p q = \<lparr>grant_permissions = p, grant_quotas = q, record_rules = []\<rparr>"

definition deny_record ::
  "identity \<Rightarrow> permission_set \<Rightarrow> namespace_grant \<Rightarrow> policy_error + namespace_grant" where
  "deny_record rec deny g =
     rbind (bm_bounded_insert MAX_RECORD_RULES_PER_GRANT ResourceLimit rec deny (record_rules g))
       (\<lambda>rules. Inr (g\<lparr>record_rules := rules\<rparr>))"

record namespace_policy =
  policy_scope :: namespace_ref
  policy_version :: policy_version
  policy_quotas :: quota_limits
  policy_grants :: "(digest, namespace_grant) bmap"

definition policy_new :: "namespace_ref \<Rightarrow> policy_version \<Rightarrow> quota_limits \<Rightarrow> namespace_policy" where
  "policy_new s v q =
     \<lparr>policy_scope = s, policy_version = v, policy_quotas = q, policy_grants = []\<rparr>"

definition policy_grant ::
  "digest \<Rightarrow> namespace_grant \<Rightarrow> namespace_policy \<Rightarrow> policy_error + namespace_policy" where
  "policy_grant who g p =
     (if bm_get (policy_grants p) who = None
         \<and> MAX_PRINCIPALS_PER_NAMESPACE \<le> length (policy_grants p)
      then Inl ResourceLimit
      else if quota_min (grant_quotas g) (policy_quotas p) \<noteq> grant_quotas g then Inl InvalidPolicy
      else Inr (p\<lparr>policy_grants := bm_insert who g (policy_grants p)\<rparr>))"

subsection \<open>Targets and requirements\<close>

datatype target = TNamespace namespace_ref | TRecord record_ref

fun target_scope :: "target \<Rightarrow> namespace_ref" where
  "target_scope (TNamespace s) = s"
| "target_scope (TRecord r) = NamespaceRef (rr_database r) (rr_namespace r)"

record authorization_requirement =
  req_action :: action
  req_target :: target

text \<open>
  \<open>AuthorizationRequirements::new\<close>; \<open>reserve n\<close> is the answer to the reservation of one more
  entry behind \<open>n\<close> collected ones.
\<close>

fun collect_requirements ::
  "(nat \<Rightarrow> bool) \<Rightarrow> authorization_requirement list \<Rightarrow> authorization_requirement list \<Rightarrow>
   policy_error + authorization_requirement list" where
  "collect_requirements reserve bounded [] = Inr bounded"
| "collect_requirements reserve bounded (r # rs) =
     (if length bounded = MAX_AUTHORIZATION_REQUIREMENTS_PER_REQUEST then Inl ResourceLimit
      else if \<not> reserve (length bounded) then Inl ResourceLimit
      else collect_requirements reserve (bounded @ [r]) rs)"

definition requirements_new ::
  "(nat \<Rightarrow> bool) \<Rightarrow> authorization_requirement list \<Rightarrow> policy_error + authorization_requirement list" where
  "requirements_new reserve rs = collect_requirements reserve [] rs"

subsection \<open>The kernel\<close>

record authenticated_principal =
  principal_digest :: digest
  principal_authority :: nat

record authorization_lease =
  lease_principal :: digest
  lease_scope :: namespace_ref
  lease_action :: action
  lease_version :: policy_version
  lease_authority :: nat

record policy_kernel =
  policies :: "(namespace_ref, namespace_policy) bmap"
  authority :: nat

record authorization_evaluator =
  eval_scope :: namespace_ref
  eval_version :: policy_version
  eval_grant :: namespace_grant

definition kernel_new :: "nat \<Rightarrow> policy_kernel" where
  "kernel_new fresh = \<lparr>policies = [], authority = fresh\<rparr>"

text \<open>The trusted adapter is an argument; it may change its own state.\<close>

definition authenticate ::
  "policy_kernel \<Rightarrow> ('s \<Rightarrow> 'c \<Rightarrow> (unit + digest) \<times> 's) \<Rightarrow> 's \<Rightarrow> 'c \<Rightarrow>
   (unit + authenticated_principal) \<times> 's" where
  "authenticate k adapter s credential =
     (case adapter s credential of
        (Inl e, s) \<Rightarrow> (Inl e, s)
      | (Inr d, s) \<Rightarrow> (Inr \<lparr>principal_digest = d, principal_authority = authority k\<rparr>, s))"

definition install_initial_policy :: "policy_kernel \<Rightarrow> namespace_policy \<Rightarrow> policy_error + policy_kernel" where
  "install_initial_policy k p =
     (if bm_get (policies k) (policy_scope p) \<noteq> None then Inl InvalidPolicy
      else Inr (k\<lparr>policies := bm_insert (policy_scope p) p (policies k)\<rparr>))"

definition evaluator_authorize :: "authorization_evaluator \<Rightarrow> action \<Rightarrow> target \<Rightarrow> policy_error + unit" where
  "evaluator_authorize e a t =
     (if target_scope t \<noteq> eval_scope e \<or> \<not> permits (grant_permissions (eval_grant e)) a
      then Inl Unauthorized
      else
        (case t of
           TRecord r \<Rightarrow>
             (case bm_get (record_rules (eval_grant e)) (rr_record r) of
                Some deny \<Rightarrow> if permits deny a then Inl Unauthorized else Inr ()
              | None \<Rightarrow> Inr ())
         | TNamespace s \<Rightarrow> Inr ()))"

definition kernel_evaluator ::
  "policy_kernel \<Rightarrow> authenticated_principal \<Rightarrow> namespace_ref \<Rightarrow> policy_error + authorization_evaluator" where
  "kernel_evaluator k pr scope =
     rbind (ensure (authority k = principal_authority pr) Unauthorized) (\<lambda>_.
     rbind (ok_or (bm_get (policies k) scope) Unauthorized) (\<lambda>p.
     rbind (ok_or (bm_get (policy_grants p) (principal_digest pr)) Unauthorized) (\<lambda>g.
     Inr \<lparr>eval_scope = scope, eval_version = policy_version p, eval_grant = g\<rparr>)))"

definition authorize ::
  "policy_kernel \<Rightarrow> authenticated_principal \<Rightarrow> action \<Rightarrow> target \<Rightarrow> policy_error + authorization_lease" where
  "authorize k pr a t =
     rbind (kernel_evaluator k pr (target_scope t)) (\<lambda>e.
     rbind (evaluator_authorize e a t) (\<lambda>_.
     Inr \<lparr>lease_principal = principal_digest pr, lease_scope = eval_scope e, lease_action = a,
          lease_version = eval_version e, lease_authority = authority k\<rparr>))"

definition revalidate :: "policy_kernel \<Rightarrow> authorization_lease \<Rightarrow> policy_error + unit" where
  "revalidate k l =
     rbind (ensure (authority k = lease_authority l) Unauthorized) (\<lambda>_.
     rbind (ok_or (bm_get (policies k) (lease_scope l)) Unauthorized) (\<lambda>p.
     rbind (ensure (policy_version p = lease_version l) StalePolicy) (\<lambda>_.
     rbind (ok_or (bm_get (policy_grants p) (lease_principal l)) Unauthorized) (\<lambda>g.
     ensure (permits (grant_permissions g) (lease_action l)) Unauthorized))))"

definition quotas :: "policy_kernel \<Rightarrow> authenticated_principal \<Rightarrow> namespace_ref \<Rightarrow> policy_error + quota_limits" where
  "quotas k pr scope =
     rbind (ensure (authority k = principal_authority pr) Unauthorized) (\<lambda>_.
     rbind (ok_or (bm_get (policies k) scope) Unauthorized) (\<lambda>p.
     rbind (ok_or (bm_get (policy_grants p) (principal_digest pr)) Unauthorized) (\<lambda>g.
     Inr (quota_min (policy_quotas p) (grant_quotas g)))))"

definition namespace_quotas :: "policy_kernel \<Rightarrow> namespace_ref \<Rightarrow> policy_error + quota_limits" where
  "namespace_quotas k scope = ok_or (map_option policy_quotas (bm_get (policies k) scope)) Unauthorized"

definition namespace_policy_of :: "policy_kernel \<Rightarrow> namespace_ref \<Rightarrow> namespace_policy option" where
  "namespace_policy_of k scope = bm_get (policies k) scope"

definition replace_namespace_policy ::
  "policy_kernel \<Rightarrow> authenticated_principal \<Rightarrow> policy_version \<Rightarrow> namespace_policy \<Rightarrow>
   policy_error + policy_kernel" where
  "replace_namespace_policy k pr expected nxt =
     rbind (ensure (authority k = principal_authority pr) Unauthorized) (\<lambda>_.
     rbind (ok_or (bm_get (policies k) (policy_scope nxt)) Unauthorized) (\<lambda>current.
     rbind (ensure (policy_version current = expected
         \<and> policy_version_get (policy_version current) < policy_version_get (policy_version nxt))
         StalePolicy) (\<lambda>_.
     rbind (ok_or (bm_get (policy_grants current) (principal_digest pr)) Unauthorized) (\<lambda>g.
     rbind (ensure (permits (grant_permissions g) ManagePolicy) Unauthorized) (\<lambda>_.
     Inr (k\<lparr>policies := bm_insert (policy_scope nxt) nxt (policies k)\<rparr>))))))"

subsection \<open>What the constructors build\<close>

text \<open>
  The fields of grants and policies are private: a policy is built by \<open>new\<close> and \<open>grant\<close> from
  quotas that passed \<open>QuotaLimits::new\<close>.
\<close>

inductive grant_built :: "namespace_grant \<Rightarrow> bool" where
  new: "quota_new a b c d e = Inr q \<Longrightarrow> grant_built (grant_new p q)"
| deny: "grant_built g \<Longrightarrow> deny_record rec s g = Inr g' \<Longrightarrow> grant_built g'"

inductive policy_built :: "namespace_policy \<Rightarrow> bool" where
  new: "policy_version_new n = Inr v \<Longrightarrow> quota_new a b c d e = Inr q \<Longrightarrow> policy_built (policy_new s v q)"
| grant: "policy_built p \<Longrightarrow> grant_built g \<Longrightarrow> policy_grant d g p = Inr p' \<Longrightarrow> policy_built p'"

definition grant_ok :: "namespace_grant \<Rightarrow> bool" where
  "grant_ok g \<longleftrightarrow> within_hard_caps (grant_quotas g) \<and> bm_ok (record_rules g)
     \<and> length (record_rules g) \<le> MAX_RECORD_RULES_PER_GRANT"

definition policy_ok :: "namespace_policy \<Rightarrow> bool" where
  "policy_ok p \<longleftrightarrow> within_hard_caps (policy_quotas p) \<and> bm_ok (policy_grants p)
     \<and> length (policy_grants p) \<le> MAX_PRINCIPALS_PER_NAMESPACE
     \<and> 0 < policy_version_get (policy_version p)
     \<and> (\<forall>d g. bm_get (policy_grants p) d = Some g \<longrightarrow>
          grant_ok g \<and> quota_min (grant_quotas g) (policy_quotas p) = grant_quotas g)"

text \<open>One kernel over time: initial policies are installed and policies are replaced.\<close>

inductive kernel_step :: "policy_kernel \<Rightarrow> policy_kernel \<Rightarrow> bool" where
  install: "policy_built p \<Longrightarrow> install_initial_policy k p = Inr k' \<Longrightarrow> kernel_step k k'"
| replace: "policy_built p \<Longrightarrow> replace_namespace_policy k pr v p = Inr k' \<Longrightarrow> kernel_step k k'"

inductive_cases kernel_stepE: "kernel_step k k'"

abbreviation kernel_steps :: "policy_kernel \<Rightarrow> policy_kernel \<Rightarrow> bool" where
  "kernel_steps \<equiv> kernel_step\<^sup>*\<^sup>*"

definition kernel_ok :: "policy_kernel \<Rightarrow> bool" where
  "kernel_ok k \<longleftrightarrow> bm_ok (policies k)
     \<and> (\<forall>s p. bm_get (policies k) s = Some p \<longrightarrow> policy_scope p = s \<and> policy_ok p)"

text \<open>The access matrix a kernel stands for.\<close>

definition permitted :: "policy_kernel \<Rightarrow> digest \<Rightarrow> action \<Rightarrow> target \<Rightarrow> bool" where
  "permitted k d a t \<longleftrightarrow>
     (\<exists>p g. bm_get (policies k) (target_scope t) = Some p \<and> bm_get (policy_grants p) d = Some g
        \<and> permits (grant_permissions g) a
        \<and> (\<forall>r deny. t = TRecord r \<longrightarrow> bm_get (record_rules g) (rr_record r) = Some deny \<longrightarrow>
             \<not> permits deny a))"

subsection \<open>Permission bits\<close>

lemma action_index_less: "action_index a < ACTION_COUNT"
  by (cases a) (simp_all add: ACTION_COUNT_def)

lemma action_index_inject: "action_index a = action_index b \<longleftrightarrow> a = b"
  by (cases a; cases b) simp_all

lemma action_of_index:
  assumes "i < ACTION_COUNT"
  shows "\<exists>a. action_index a = i"
proof -
  have "i < 25" using assms by (simp add: ACTION_COUNT_def)
  then have "i \<in> set (map action_index all_actions)"
    unfolding all_actions_def list.map action_index.simps list.set by (simp; presburger)
  then show ?thesis by auto
qed

lemma permits_bit: "permits p a \<longleftrightarrow> bit (permission_bits p) (action_index a)"
  unfolding permits_def push_bit_eq_mult mult_1
  using and_exp_eq_0_iff_not_bit [of "permission_bits p" "action_index a"] by blast

lemma bit_action: "bit (2 ^ action_index a :: 64 word) n \<longleftrightarrow> n = action_index a"
  using action_index_less [of a] by (auto simp: bit_exp_iff ACTION_COUNT_def)

lemma bit_fold_actions:
  "bit (fold (\<lambda>a bits. bits OR 2 ^ action_index a) actions (w :: 64 word)) n
     \<longleftrightarrow> bit w n \<or> (\<exists>a \<in> set actions. n = action_index a)"
  by (induction actions arbitrary: w) (auto simp: bit_or_iff bit_action)

lemma permits_from_actions: "permits (permissions_from_actions actions) a \<longleftrightarrow> a \<in> set actions"
  by (auto simp: permits_bit permissions_from_actions_def bit_fold_actions action_index_inject)

lemma valid_bits_mask: "VALID_PERMISSION_BITS = mask ACTION_COUNT"
  by (simp add: VALID_PERMISSION_BITS_def mask_eq_decr_exp push_bit_eq_mult)

lemma from_bits_iff:
  "permissions_from_bits w = Inr p \<longleftrightarrow> p = PermissionSet w \<and> (\<forall>n. bit w n \<longrightarrow> n < ACTION_COUNT)"
proof -
  have "w AND NOT (mask ACTION_COUNT) = 0 \<longleftrightarrow> (\<forall>n. bit w n \<longrightarrow> n < ACTION_COUNT)"
    using bit_imp_le_length [of w] by (auto simp: bit_eq_iff bit_and_iff bit_not_iff bit_mask_iff)
  then show ?thesis by (auto simp: permissions_from_bits_def valid_bits_mask)
qed

subsection \<open>Invariants of grants, policies and kernels\<close>

lemma quota_new_caps: "quota_new a b c d e = Inr q \<Longrightarrow> within_hard_caps q"
  by (auto simp: quota_new_def Let_def split: if_splits)

lemma quota_min_caps: "within_hard_caps a \<Longrightarrow> within_hard_caps (quota_min a b)"
  by (auto simp: within_hard_caps_def quota_min_def)

lemma quota_min_commute: "quota_min a b = quota_min b a"
  by (auto simp: quota_min_def)

lemma grant_built_ok: "grant_built g \<Longrightarrow> grant_ok g"
proof (induction rule: grant_built.induct)
  case (new a b c d e q p)
  then show ?case by (simp add: grant_ok_def grant_new_def quota_new_caps)
next
  case (deny g rec s g')
  then obtain rules where r: "bm_bounded_insert MAX_RECORD_RULES_PER_GRANT ResourceLimit rec s (record_rules g) = Inr rules"
      "g' = g\<lparr>record_rules := rules\<rparr>"
    by (auto simp: deny_record_def rbind_iffs)
  then show ?case
    using bm_bounded_insert_keeps [OF r(1), where P = "\<lambda>_ _. True"] deny.IH
    by (auto simp: grant_ok_def)
qed

lemma policy_built_ok: "policy_built p \<Longrightarrow> policy_ok p"
proof (induction rule: policy_built.induct)
  case (new n v a b c d e q s)
  then show ?case
    by (auto simp: policy_ok_def policy_new_def quota_new_caps policy_version_new_def split: if_splits)
next
  case (grant p g d p')
  have p': "p' = p\<lparr>policy_grants := bm_insert d g (policy_grants p)\<rparr>"
    and room: "\<not> (bm_get (policy_grants p) d = None \<and> MAX_PRINCIPALS_PER_NAMESPACE \<le> length (policy_grants p))"
    and quota: "quota_min (grant_quotas g) (policy_quotas p) = grant_quotas g"
    using grant.hyps(3) by (auto simp: policy_grant_def split: if_splits)
  have "bm_ok (bm_insert d g (policy_grants p))
      \<and> length (bm_insert d g (policy_grants p)) \<le> MAX_PRINCIPALS_PER_NAMESPACE
      \<and> (\<forall>d' g'. bm_get (bm_insert d g (policy_grants p)) d' = Some g' \<longrightarrow>
           grant_ok g' \<and> quota_min (grant_quotas g') (policy_quotas p) = grant_quotas g')"
    using grant.IH grant_built_ok [OF grant.hyps(2)] quota room
    by (intro bt.bounded_insert_keeps) (auto simp: policy_ok_def)
  with grant.IH show ?case by (simp add: p' policy_ok_def)
qed

lemma kernel_ok_new: "kernel_ok (kernel_new a)"
  by (simp add: kernel_ok_def kernel_new_def)

text \<open>A step installs one built policy under its scope, over nothing or over an older version.\<close>

lemma kernel_stepD:
  assumes "kernel_step k k'"
  shows "\<exists>p. policy_built p \<and> k' = k\<lparr>policies := bm_insert (policy_scope p) p (policies k)\<rparr>
    \<and> (\<forall>q. bm_get (policies k) (policy_scope p) = Some q \<longrightarrow>
         policy_version_get (policy_version q) < policy_version_get (policy_version p))"
  using assms
  by (auto elim!: kernel_stepE simp: install_initial_policy_def replace_namespace_policy_def rbind_iffs
      split: if_splits)

lemma kernel_step_ok: "kernel_step k k' \<Longrightarrow> kernel_ok k \<Longrightarrow> kernel_ok k'"
  by (drule kernel_stepD)
    (auto simp: kernel_ok_def bt.ok_insert bt.get_insert policy_built_ok split: if_splits)

lemma kernel_step_authority: "kernel_step k k' \<Longrightarrow> authority k' = authority k"
  by (drule kernel_stepD) auto

lemma kernel_steps_ok: "kernel_steps k k' \<Longrightarrow> kernel_ok k \<Longrightarrow> kernel_ok k' \<and> authority k' = authority k"
  by (induction rule: rtranclp_induct) (auto dest: kernel_step_ok kernel_step_authority)

text \<open>Policies never disappear, and a version identifies a policy for the life of the kernel.\<close>

lemma kernel_steps_version:
  assumes "kernel_steps k k'" "kernel_ok k" "bm_get (policies k) s = Some p"
  shows "\<exists>p'. bm_get (policies k') s = Some p'
    \<and> (p' = p \<or> policy_version_get (policy_version p) < policy_version_get (policy_version p'))"
  using assms
proof (induction rule: rtranclp_induct)
  case (step k1 k2)
  then have ok: "kernel_ok k1" using kernel_steps_ok by blast
  from step obtain p1 where p1: "bm_get (policies k1) s = Some p1"
      "p1 = p \<or> policy_version_get (policy_version p) < policy_version_get (policy_version p1)"
    by blast
  obtain q where q: "k2 = k1\<lparr>policies := bm_insert (policy_scope q) q (policies k1)\<rparr>"
      "\<forall>r. bm_get (policies k1) (policy_scope q) = Some r \<longrightarrow>
         policy_version_get (policy_version r) < policy_version_get (policy_version q)"
    using kernel_stepD [OF step.hyps(2)] by blast
  have "bm_get (policies k2) s = (if s = policy_scope q then Some q else Some p1)"
    using ok p1(1) q(1) by (simp add: bt.get_insert kernel_ok_def)
  with p1 q(2) show ?case by (auto split: if_splits)
qed auto

subsection \<open>Decisions\<close>

lemma authorize_cases:
  "authorize k pr a t =
     (if authority k = principal_authority pr \<and> permitted k (principal_digest pr) a t
      then Inr \<lparr>lease_principal = principal_digest pr, lease_scope = target_scope t, lease_action = a,
                lease_version = policy_version (the (bm_get (policies k) (target_scope t))),
                lease_authority = authority k\<rparr>
      else Inl Unauthorized)"
proof (cases "authority k = principal_authority pr")
  case True
  show ?thesis
  proof (cases "bm_get (policies k) (target_scope t)")
    case None
    then show ?thesis using True
      by (simp add: authorize_def kernel_evaluator_def permitted_def)
  next
    case (Some p)
    show ?thesis
    proof (cases "bm_get (policy_grants p) (principal_digest pr)")
      case None
      then show ?thesis using True Some
        by (simp add: authorize_def kernel_evaluator_def permitted_def)
    next
      case (Some g)
      then show ?thesis using True \<open>bm_get (policies k) (target_scope t) = Some p\<close>
        by (auto simp: authorize_def kernel_evaluator_def permitted_def evaluator_authorize_def
            split: target.splits option.splits)
    qed
  qed
qed (simp add: authorize_def kernel_evaluator_def)

lemma revalidate_same_policy:
  assumes "authorize k pr a t = Inr l" "authority k' = authority k"
    and "bm_get (policies k') (target_scope t) = bm_get (policies k) (target_scope t)"
  shows "revalidate k' l = Inr ()"
  using assms
  by (auto simp: authorize_cases permitted_def revalidate_def split: if_splits)

subsection \<open>Properties of the kernel\<close>

text \<open>The example kernel of the witnesses: one namespace, an administrator and a reader.\<close>

definition example_scope :: namespace_ref where
  "example_scope = NamespaceRef (replicate 16 1) (replicate 16 2)"

definition example_record :: record_ref where
  "example_record = RecordRef example_scope (replicate 16 3)"

definition example_quota :: quota_limits where
  "example_quota =
     \<lparr>max_request_bytes = 1024, max_staged_blob_bytes = 2048, max_committed_blob_bytes = 4096,
      max_live_uploads = 2, max_blob_read_bytes_per_call = 512\<rparr>"

definition example_grant :: namespace_grant where
  "example_grant =
     \<lparr>grant_permissions = permissions_from_actions [ReadRecord, ManagePolicy],
      grant_quotas = example_quota, record_rules = []\<rparr>"

definition example_policy :: "nat \<Rightarrow> namespace_policy" where
  "example_policy v =
     \<lparr>policy_scope = example_scope, policy_version = PolicyVersion v, policy_quotas = example_quota,
      policy_grants = [(replicate 32 7, example_grant)]\<rparr>"

definition example_kernel :: "nat \<Rightarrow> policy_kernel" where
  "example_kernel v = \<lparr>policies = [(example_scope, example_policy v)], authority = 9\<rparr>"

definition example_principal :: authenticated_principal where
  "example_principal = \<lparr>principal_digest = replicate 32 7, principal_authority = 9\<rparr>"

lemma example_policy_built: "0 < v \<Longrightarrow> policy_built (example_policy v)"
proof -
  assume v: "0 < v"
  have q: "quota_new 1024 2048 4096 2 512 = Inr example_quota"
    by (simp add: quota_new_def Let_def within_hard_caps_def example_quota_def HARD_MAX_REQUEST_BYTES_def
        HARD_MAX_STAGED_BLOB_BYTES_def HARD_MAX_COMMITTED_BLOB_BYTES_def HARD_MAX_LIVE_UPLOADS_def
        HARD_MAX_BLOB_READ_BYTES_def)
  have g: "grant_built example_grant"
    using grant_built.new [OF q, of "permissions_from_actions [ReadRecord, ManagePolicy]"]
    by (simp add: grant_new_def example_grant_def)
  have p: "policy_built (policy_new example_scope (PolicyVersion v) example_quota)"
    using v q by (intro policy_built.new) (auto simp: policy_version_new_def)
  have "policy_grant (replicate 32 7) example_grant (policy_new example_scope (PolicyVersion v) example_quota)
      = Inr (example_policy v)"
    by (simp add: policy_grant_def policy_new_def example_policy_def example_grant_def quota_min_def
        example_quota_def MAX_PRINCIPALS_PER_NAMESPACE_def)
  with p g show ?thesis by (rule policy_built.grant)
qed

lemma example_kernel_reachable: "kernel_steps (kernel_new 9) (example_kernel 1)"
proof -
  have "install_initial_policy (kernel_new 9) (example_policy 1) = Inr (example_kernel 1)"
    by (simp add: install_initial_policy_def kernel_new_def example_kernel_def example_policy_def)
  then show ?thesis
    using kernel_step.install [OF example_policy_built] by (intro r_into_rtranclp) auto
qed

lemma example_authorizes:
  "authorize (example_kernel 1) example_principal ReadRecord (TRecord example_record) =
     Inr \<lparr>lease_principal = replicate 32 7, lease_scope = example_scope, lease_action = ReadRecord,
          lease_version = PolicyVersion 1, lease_authority = 9\<rparr>"
proof -
  have scope: "target_scope (TRecord example_record) = example_scope"
    by (simp add: example_record_def example_scope_def rr_database_def rr_namespace_def)
  have "permitted (example_kernel 1) (replicate 32 7) ReadRecord (TRecord example_record)"
    unfolding permitted_def scope
    by (simp add: example_kernel_def example_policy_def example_grant_def bm_get_def permits_from_actions)
  then show ?thesis
    unfolding authorize_cases scope
    by (simp add: example_principal_def) (simp add: example_kernel_def example_policy_def bm_get_def)
qed

lemma example_replaces:
  "replace_namespace_policy (example_kernel 1) example_principal (PolicyVersion 1) (example_policy 2)
     = Inr (example_kernel 2)"
  by (simp add: replace_namespace_policy_def example_kernel_def example_principal_def example_policy_def
      bm_get_def permits_from_actions example_grant_def)

text \<open>
  C14.  Authorization decides exactly the access matrix and denies by default: a lease is issued
  if and only if the principal was authenticated by this kernel and a grant of the current
  policy of the target's namespace holds the action without a record denial, and every other
  request is answered \<open>Unauthorized\<close>.
\<close>

theorem authorize_exact:
  "authorize k pr a t =
     (if authority k = principal_authority pr \<and> permitted k (principal_digest pr) a t
      then Inr \<lparr>lease_principal = principal_digest pr, lease_scope = target_scope t, lease_action = a,
                lease_version = policy_version (the (bm_get (policies k) (target_scope t))),
                lease_authority = authority k\<rparr>
      else Inl Unauthorized)"
  by (rule authorize_cases)

text \<open>
  C15.  The life of a lease: in every later state of the kernel that issued it, a lease
  revalidates as long as the policy of its namespace is the one it was issued under, and is
  reported stale for ever after that policy has been replaced.
\<close>

theorem lease_lifecycle:
  assumes "kernel_steps (kernel_new fresh) k" and "authorize k pr a t = Inr l"
    and "kernel_steps k k'"
  shows "revalidate k' l =
    (if bm_get (policies k') (target_scope t) = bm_get (policies k) (target_scope t) then Inr ()
     else Inl StalePolicy)"
proof -
  have ok: "kernel_ok k" using kernel_steps_ok [OF assms(1) kernel_ok_new] by blast
  have auth: "authority k' = authority k" using kernel_steps_ok [OF assms(3) ok] by blast
  obtain p where p: "bm_get (policies k) (target_scope t) = Some p"
    and l: "lease_scope l = target_scope t" "lease_version l = policy_version p" "lease_authority l = authority k"
    using assms(2) by (auto simp: authorize_cases permitted_def split: if_splits)
  obtain p' where p': "bm_get (policies k') (target_scope t) = Some p'"
    and v: "p' = p \<or> policy_version_get (policy_version p) < policy_version_get (policy_version p')"
    using kernel_steps_version [OF assms(3) ok p] by blast
  show ?thesis
  proof (cases "p' = p")
    case True
    then show ?thesis using revalidate_same_policy [OF assms(2) auth] p p' by simp
  next
    case False
    then have "policy_version p' \<noteq> lease_version l" using v l(2) by auto
    then show ?thesis using False p p' l auth by (simp add: revalidate_def)
  qed
qed

theorem lease_lifecycle_witness:
  "\<exists>l. authorize (example_kernel 1) example_principal ReadRecord (TRecord example_record) = Inr l
     \<and> revalidate (example_kernel 1) l = Inr () \<and> revalidate (example_kernel 2) l = Inl StalePolicy"
proof -
  have step: "kernel_steps (example_kernel 1) (example_kernel 2)"
    using kernel_step.replace [OF example_policy_built example_replaces] by (intro r_into_rtranclp) auto
  note now = lease_lifecycle [OF example_kernel_reachable example_authorizes rtranclp.rtrancl_refl]
  note later = lease_lifecycle [OF example_kernel_reachable example_authorizes step]
  have scope: "target_scope (TRecord example_record) = example_scope"
    by (simp add: example_record_def example_scope_def rr_database_def rr_namespace_def)
  have "bm_get (policies (example_kernel 2)) example_scope \<noteq> bm_get (policies (example_kernel 1)) example_scope"
    by (simp add: example_kernel_def example_policy_def bm_get_def)
  then show ?thesis using now later example_authorizes scope by auto
qed

text \<open>
  C16.  Replacing a policy: it succeeds only for a principal of this kernel whose current grant
  holds \<open>ManagePolicy\<close>, against the expected version, with a strictly larger version, and it
  changes the policy of that namespace only.
\<close>

theorem replace_policy_exact:
  assumes "kernel_ok k"
  shows "replace_namespace_policy k pr v p = Inr k' \<longleftrightarrow>
    authority k = principal_authority pr
    \<and> permitted k (principal_digest pr) ManagePolicy (TNamespace (policy_scope p))
    \<and> (\<exists>q. bm_get (policies k) (policy_scope p) = Some q \<and> policy_version q = v
         \<and> policy_version_get v < policy_version_get (policy_version p))
    \<and> authority k' = authority k \<and> bm_ok (policies k')
    \<and> bm_get (policies k') = (bm_get (policies k))(policy_scope p \<mapsto> p)"
proof -
  have "bm_ok (policies k)" using assms by (simp add: kernel_ok_def)
  then have "k' = k\<lparr>policies := bm_insert (policy_scope p) p (policies k)\<rparr> \<longleftrightarrow>
      authority k' = authority k \<and> bm_ok (policies k')
      \<and> bm_get (policies k') = (bm_get (policies k))(policy_scope p \<mapsto> p)"
    using bm_ext [of "policies k'" "bm_insert (policy_scope p) p (policies k)"]
    by (auto simp: bt.ok_insert bt.get_insert)
  then show ?thesis
    by (auto simp: replace_namespace_policy_def rbind_iffs permitted_def)
qed

theorem replace_policy_exact_witness:
  "kernel_ok (example_kernel 1)
   \<and> replace_namespace_policy (example_kernel 1) example_principal (PolicyVersion 1) (example_policy 2)
       = Inr (example_kernel 2)
   \<and> bm_get (policies (example_kernel 2)) example_scope = Some (example_policy 2)"
proof -
  have ok: "kernel_ok (example_kernel 1)"
    using kernel_steps_ok [OF example_kernel_reachable kernel_ok_new] by blast
  have "policy_scope (example_policy 2) = example_scope" by (simp add: example_policy_def)
  then show ?thesis
    using replace_policy_exact [OF ok, of example_principal "PolicyVersion 1" "example_policy 2" "example_kernel 2"]
      example_replaces ok
    by (metis fun_upd_same)
qed

text \<open>One quota allows at most what another allows, resource by resource.\<close>

definition quota_le :: "quota_limits \<Rightarrow> quota_limits \<Rightarrow> bool" where
  "quota_le a b \<longleftrightarrow>
     max_request_bytes a \<le> max_request_bytes b
     \<and> max_staged_blob_bytes a \<le> max_staged_blob_bytes b
     \<and> max_committed_blob_bytes a \<le> max_committed_blob_bytes b
     \<and> max_live_uploads a \<le> max_live_uploads b
     \<and> max_blob_read_bytes_per_call a \<le> max_blob_read_bytes_per_call b"

definition hard_caps :: quota_limits where
  "hard_caps =
     \<lparr>max_request_bytes = HARD_MAX_REQUEST_BYTES, max_staged_blob_bytes = HARD_MAX_STAGED_BLOB_BYTES,
      max_committed_blob_bytes = HARD_MAX_COMMITTED_BLOB_BYTES, max_live_uploads = HARD_MAX_LIVE_UPLOADS,
      max_blob_read_bytes_per_call = HARD_MAX_BLOB_READ_BYTES\<rparr>"

text \<open>The component-wise minimum is the greatest quota below both.\<close>

lemma quota_min_greatest: "quota_le q (quota_min a b) \<longleftrightarrow> quota_le q a \<and> quota_le q b"
  by (auto simp: quota_le_def quota_min_def)

lemma quota_le_refl: "quota_le q q"
  by (simp add: quota_le_def)

lemma quota_le_caps: "within_hard_caps q \<longleftrightarrow> quota_le q hard_caps"
  by (simp add: within_hard_caps_def quota_le_def hard_caps_def)

text \<open>
  C17.  Quotas in every reachable kernel: what a principal is allowed is the quota of its grant, and
  in each of the five resources it is at most the quota of the namespace and at most the hard cap.
\<close>

theorem quotas_bounded:
  assumes "kernel_steps (kernel_new fresh) k" and "quotas k pr s = Inr q"
  shows "\<exists>p g. bm_get (policies k) s = Some p \<and> bm_get (policy_grants p) (principal_digest pr) = Some g
    \<and> namespace_quotas k s = Inr (policy_quotas p)
    \<and> q = grant_quotas g \<and> quota_le q (policy_quotas p) \<and> quota_le q hard_caps"
proof -
  have ok: "kernel_ok k" using kernel_steps_ok [OF assms(1) kernel_ok_new] by blast
  obtain p g where p: "bm_get (policies k) s = Some p" "bm_get (policy_grants p) (principal_digest pr) = Some g"
      "q = quota_min (policy_quotas p) (grant_quotas g)"
    using assms(2) by (auto simp: quotas_def rbind_iffs)
  have "within_hard_caps (policy_quotas p)" "quota_min (grant_quotas g) (policy_quotas p) = grant_quotas g"
    using ok p by (auto simp: kernel_ok_def policy_ok_def)
  moreover have "q = quota_min (grant_quotas g) (policy_quotas p)"
    using p(3) quota_min_commute [of "policy_quotas p"] by simp
  ultimately have "within_hard_caps q" "q = grant_quotas g"
    using p(3) quota_min_caps [of "policy_quotas p" "grant_quotas g"] by simp_all
  moreover have "quota_le q (policy_quotas p)"
    using quota_min_greatest [of q "policy_quotas p" "grant_quotas g"] quota_le_refl [of q] p(3) by simp
  ultimately show ?thesis
    using p by (auto simp: namespace_quotas_def quota_le_caps)
qed

theorem quotas_bounded_witness:
  "quotas (example_kernel 1) example_principal example_scope = Inr example_quota
     \<and> quota_le example_quota hard_caps"
proof -
  have q: "quotas (example_kernel 1) example_principal example_scope = Inr example_quota"
    by (simp add: quotas_def example_kernel_def example_principal_def example_policy_def example_grant_def
        bm_get_def quota_min_def example_quota_def)
  then show ?thesis using quotas_bounded [OF example_kernel_reachable q] by blast
qed

text \<open>
  C18.  Permission sets are sets: a set built from actions contains exactly those actions, and
  the persisted bits are accepted exactly when they are the bits of such a set.
\<close>

theorem permission_bits_exact:
  "(permits (permissions_from_actions actions) a \<longleftrightarrow> a \<in> set actions)
   \<and> (permissions_from_bits w = Inr p \<longleftrightarrow>
        p = PermissionSet w \<and> p = permissions_from_actions (filter (permits p) all_actions))"
proof -
  have all: "b \<in> set all_actions" for b by (cases b) (simp_all add: all_actions_def)
  have "(\<forall>n. bit w n \<longrightarrow> n < ACTION_COUNT) \<longleftrightarrow>
      PermissionSet w = permissions_from_actions (filter (permits (PermissionSet w)) all_actions)"
    (is "?l \<longleftrightarrow> ?r")
  proof
    assume l: ?l
    have "bit w n \<longleftrightarrow> (\<exists>b. permits (PermissionSet w) b \<and> n = action_index b)" for n
      using l action_of_index [of n] by (auto simp: permits_bit)
    then have "w = fold (\<lambda>a bits. bits OR 2 ^ action_index a) (filter (permits (PermissionSet w)) all_actions) 0"
      by (intro bit_eqI) (simp add: bit_fold_actions all)
    then show ?r by (simp add: permissions_from_actions_def)
  next
    assume ?r
    then have "w = fold (\<lambda>a bits. bits OR 2 ^ action_index a) (filter (permits (PermissionSet w)) all_actions) 0"
      by (simp add: permissions_from_actions_def)
    then have "bit w n \<Longrightarrow> \<exists>b. n = action_index b" for n
      using bit_fold_actions [of "filter (permits (PermissionSet w)) all_actions" 0 n] by auto
    then show ?l using action_index_less by blast
  qed
  then show ?thesis by (auto simp: permits_from_actions from_bits_iff)
qed

end
