(* ===== verification/Spec2Isabelle.thy ===== *)
theory Spec2Isabelle
  imports Borrowed_Codec Catalog_Properties Commitment_Exact Policy
begin

text \<open>
  A verification development of USTE, a Rust storage engine for typed, scoped, time-stamped
  records with authenticated storage.

  \<^bold>\<open>Canonical values\<close> (\<open>crates/uste-types\<close>).  \<open>Identity\<close> models \<open>id.rs\<close>, \<open>revision.rs\<close> and
  \<open>instant.rs\<close>; \<open>Values\<close> models \<open>value.rs\<close>; \<open>Cursor\<close>, \<open>Primitives\<close>, \<open>Value_Codec\<close>,
  \<open>Value_Frame\<close> and \<open>Borrowed_Codec\<close> model \<open>codec.rs\<close>.
\<close>

end
